(* ===== verification/ArbPrelude.thy ===== *)
theory ArbPrelude
  imports Main "HOL-Library.Word" "HOL-Library.Signed_Division" "HOL-Library.Monad_Syntax"
begin

text \<open>
  Shared vocabulary of the development: the machine integers of the program, the arithmetic
  operations of the Rust integer types that the code calls by name, and the generic lemmas that
  move a goal about words to a goal about natural numbers.

  The \<open>u8\<close> .. \<open>u256\<close> types are words of that width. \<open>u256\<close> is alloy's \<open>U256\<close>, whose operators
  \<open>+\<close>, \<open>-\<close>, \<open>*\<close> wrap; \<open>u64\<close> and \<open>usize\<close> arithmetic wraps in the release profile the crate
  is built with (\<open>Cargo.toml\<close> sets no overflow checks). Addresses are 160-bit words, ordered as
  their bytes are. A value of type \<open>'a run\<close> is the outcome of code that may panic: \<open>None\<close> is a
  panic (division by zero, a slice out of range), \<open>Some\<close> a normal return. Code that itself returns
  a Rust \<open>Option\<close> and may panic has the type \<open>'a option run\<close>.
\<close>

unbundle bit_operations_syntax

type_synonym u8 = "8 word"
type_synonym u16 = "16 word"
type_synonym u32 = "32 word"
type_synonym u64 = "64 word"
type_synonym u128 = "128 word"
type_synonym u256 = "256 word"
type_synonym address = "160 word"
type_synonym 'a run = "'a option"

named_theorems to_nat "rewrite words of the model to natural numbers when nothing overflows"

section \<open>Named integer operations of the source\<close>

definition checked_add :: "'a::len word \<Rightarrow> 'a word \<Rightarrow> 'a word option" where
  "checked_add a b = (if unat a + unat b < 2 ^ LENGTH('a) then Some (a + b) else None)"

definition checked_mul :: "'a::len word \<Rightarrow> 'a word \<Rightarrow> 'a word option" where
  "checked_mul a b = (if unat a * unat b < 2 ^ LENGTH('a) then Some (a * b) else None)"

definition saturating_add :: "'a::len word \<Rightarrow> 'a word \<Rightarrow> 'a word" where
  "saturating_add a b = (if unat a + unat b < 2 ^ LENGTH('a) then a + b else - 1)"

definition saturating_sub :: "'a::len word \<Rightarrow> 'a word \<Rightarrow> 'a word" where
  "saturating_sub a b = (if b \<le> a then a - b else 0)"

definition saturating_mul :: "'a::len word \<Rightarrow> 'a word \<Rightarrow> 'a word" where
  "saturating_mul a b = (if unat a * unat b < 2 ^ LENGTH('a) then a * b else - 1)"

text \<open>Division panics on a zero divisor, for the built-in types and for alloy's alike.\<close>

definition div_run :: "'a::len word \<Rightarrow> 'a word \<Rightarrow> 'a word run" where
  "div_run a b = (if b = 0 then None else Some (a div b))"

text \<open>\<open>x >> n\<close> and \<open>x << n\<close> of the unsigned types.\<close>

abbreviation shr :: "'a::len word \<Rightarrow> nat \<Rightarrow> 'a word" where
  "shr x n \<equiv> drop_bit n x"

abbreviation shl :: "'a::len word \<Rightarrow> nat \<Rightarrow> 'a word" where
  "shl x n \<equiv> push_bit n x"

text \<open>\<open>U256::pow\<close>: repeated wrapping multiplication.\<close>

definition pow_word :: "'a::len word \<Rightarrow> nat \<Rightarrow> 'a word" where
  "pow_word b n = b ^ n"

text \<open>Signed division of the machine integers truncates towards zero, as on \<open>int\<close>.\<close>

instantiation word :: (len) signed_division
begin

definition signed_divide_word :: "'a word \<Rightarrow> 'a word \<Rightarrow> 'a word" where
  "signed_divide_word a b = word_of_int (sint a sdiv sint b)"

definition signed_modulo_word :: "'a word \<Rightarrow> 'a word \<Rightarrow> 'a word" where
  "signed_modulo_word a b = word_of_int (sint a smod sint b)"

instance
proof
  fix a b :: "'a word"
  have "a sdiv b * b + a smod b = word_of_int (sint a sdiv sint b * sint b + sint a smod sint b)"
    by (simp add: signed_divide_word_def signed_modulo_word_def)
  then show "a sdiv b * b + a smod b = a"
    by (simp add: sdiv_mult_smod_eq)
qed

end

section \<open>From words to natural numbers\<close>

lemma unat_less [simp]: "unat (x :: 'a::len word) < 2 ^ LENGTH('a)"
  by (rule unsigned_less)

lemma unat_mult_exact [to_nat]:
  "unat (a :: 'a::len word) * unat b < 2 ^ LENGTH('a) \<Longrightarrow> unat (a * b) = unat a * unat b"
  by (simp add: unat_mult_lem)

lemma unat_add_exact [to_nat]:
  "unat (a :: 'a::len word) + unat b < 2 ^ LENGTH('a) \<Longrightarrow> unat (a + b) = unat a + unat b"
  by (simp add: unat_add_lem)

lemma unat_plus_one: "unat (a :: 'a::len word) + 1 < 2 ^ LENGTH('a) \<Longrightarrow> unat (a + 1) = unat a + 1"
  using unat_add_exact [of a 1] by simp

lemma unat_sub_exact [to_nat]:
  "b \<le> (a :: 'a::len word) \<Longrightarrow> unat (a - b) = unat a - unat b"
  by (rule unat_sub)

lemma unat_shr [to_nat]: "unat (shr (x :: 'a::len word) n) = unat x div 2 ^ n"
  unfolding unat_drop_bit_eq by (simp only: drop_bit_eq_div)

lemmas word_le_unat = word_le_nat_alt
lemmas word_less_unat = word_less_nat_alt

lemma word_zero_iff_unat: "(x :: 'a::len word) = 0 \<longleftrightarrow> unat x = 0"
  by (simp add: unat_eq_zero)

lemma word_pos_unat: "(x :: 'a::len word) \<noteq> 0 \<Longrightarrow> 0 < unat x"
  by (simp add: unat_gt_0)

lemma unat_minus_one_max: "unat (- 1 :: 'a::len word) = 2 ^ LENGTH('a) - 1"
  by (simp add: unsigned_minus_1_eq_mask mask_eq_exp_minus_1)

lemma unat_saturating_add:
  "unat (saturating_add (a :: 'a::len word) b) = min (unat a + unat b) (2 ^ LENGTH('a) - 1)"
  by (cases "unat a + unat b < 2 ^ LENGTH('a)")
     (simp_all add: saturating_add_def unat_add_exact unat_minus_one_max)

lemma unat_saturating_mul:
  "unat (saturating_mul (a :: 'a::len word) b) = min (unat a * unat b) (2 ^ LENGTH('a) - 1)"
  by (cases "unat a * unat b < 2 ^ LENGTH('a)")
     (simp_all add: saturating_mul_def unat_mult_exact unat_minus_one_max)

lemma unat_saturating_sub: "unat (saturating_sub (a :: 'a::len word) b) = unat a - unat b"
  by (auto simp: saturating_sub_def unat_sub_exact word_le_nat_alt)

lemma checked_mul_Some:
  "checked_mul (a :: 'a::len word) b = Some c \<longleftrightarrow>
     unat a * unat b < 2 ^ LENGTH('a) \<and> unat c = unat a * unat b"
  by (auto simp: checked_mul_def unat_mult_exact word_unat_eq_iff)

lemma checked_mul_None:
  "checked_mul (a :: 'a::len word) b = None \<longleftrightarrow> 2 ^ LENGTH('a) \<le> unat a * unat b"
  by (auto simp: checked_mul_def not_less)

lemma div_run_Some: "div_run a b = Some c \<longleftrightarrow> b \<noteq> 0 \<and> c = a div b"
  by (auto simp: div_run_def)

lemma unat_ucast_up:
  "LENGTH('a) \<le> LENGTH('b) \<Longrightarrow> unat (ucast (x :: 'a::len word) :: 'b::len word) = unat x"
  by (simp add: unsigned_ucast_eq take_bit_nat_eq_self_iff)
     (meson less_le_trans one_le_numeral power_increasing unsigned_less)

lemma unat_of_nat_small: "n < 2 ^ LENGTH('a) \<Longrightarrow> unat (of_nat n :: 'a::len word) = n"
  by (simp add: unsigned_of_nat take_bit_nat_eq_self)

section \<open>Generic lemmas on division and lists\<close>

lemma div_mult_le_nat: "(a::nat) div b * b \<le> a"
  by simp

lemma le_div_iff_mult_le_nat: "0 < (b::nat) \<Longrightarrow> c \<le> a div b \<longleftrightarrow> c * b \<le> a"
  by (simp add: less_eq_div_iff_mult_less_eq)

lemma less_succ_div_nat: "0 < (b::nat) \<Longrightarrow> a < (a div b + 1) * b"
  using dividend_less_div_times [of b a] by simp

lemma ceil_div_bounds:
  assumes "0 < (p::nat)" "0 < k"
  shows "p \<le> ((p - 1) div k + 1) * k" and "((p - 1) div k + 1) * k < p + k"
  using less_succ_div_nat [OF assms(2), of "p - 1"] div_mult_le_nat [of "p - 1" k] assms(1)
  by (simp_all only: distrib_right mult_1 add.commute)

lemma those_eq_Some_iff: "those xs = Some ys \<longleftrightarrow> xs = map Some ys"
proof (induction xs arbitrary: ys)
  case (Cons x xs)
  then show ?case by (cases x; cases ys) (auto split: option.split)
qed auto

lemma those_total: "\<forall>x \<in> set xs. x \<noteq> None \<Longrightarrow> \<exists>ys. those xs = Some ys"
  by (induction xs) auto

lemma map_of_rev_distinct: "distinct (map fst xs) \<Longrightarrow> map_of (rev xs) = map_of xs"
proof (induction xs)
  case (Cons x xs)
  then have "fst x \<notin> fst ` set xs" by simp
  then have "map_of xs (fst x) = None" by (simp add: map_of_eq_None_iff)
  then show ?case
    using Cons by (cases x) (auto simp: map_add_def fun_eq_iff split: option.split)
qed simp

text \<open>Signed words that come from small integers.\<close>

lemma sint_of_int_small:
  assumes "- (2 ^ (LENGTH('a) - 1)) \<le> x" "x < 2 ^ (LENGTH('a) - 1)"
  shows "sint (word_of_int x :: 'a::len word) = x"
  using assms by (simp add: signed_of_int signed_take_bit_int_eq_self)

lemma word_of_sint [simp]: "word_of_int (sint (x :: 'a::len word)) = x"
  by (rule word_int_cases [of x]) simp

lemma sorted_le_last: "sorted xs \<Longrightarrow> x \<in> set xs \<Longrightarrow> x \<le> last xs"
  by (induction xs) auto

lemma le_div_iff_mult_le_int:
  assumes "0 < (s::int)"
  shows "j \<le> t div s \<longleftrightarrow> j * s \<le> t"
proof
  assume "j \<le> t div s"
  then have "j * s \<le> t div s * s" using assms by (simp add: mult_right_mono)
  also have "\<dots> \<le> t" using assms by (simp flip: minus_mod_eq_div_mult)
  finally show "j * s \<le> t" .
next
  assume "j * s \<le> t"
  then have "j * s div s \<le> t div s" using assms by (rule zdiv_mono1)
  then show "j \<le> t div s" using assms by simp
qed

text \<open>A power of ten is not a multiple of \<open>2 ^ 256\<close> until its exponent reaches 256.\<close>

lemma pow_ten_neq_0:
  assumes "k < 256"
  shows "pow_word 10 k \<noteq> (0 :: 256 word)"
proof
  assume "pow_word 10 k = (0 :: 256 word)"
  then have "word_of_nat (10 ^ k) = (0 :: 256 word)" by (simp add: pow_word_def)
  then have "(2::nat) ^ 256 dvd 10 ^ k" by (simp only: word_of_nat_eq_0_iff) simp
  moreover have "(10::nat) ^ k = 2 ^ k * 5 ^ k" by (simp add: power_mult_distrib [symmetric])
  moreover have "(2::nat) ^ 256 = 2 ^ k * 2 ^ (256 - k)"
    using assms by (simp only: power_add [symmetric]) simp
  ultimately have "(2::nat) ^ (256 - k) dvd 5 ^ k" 
    by (metis nat_mult_dvd_cancel1 zero_less_power zero_less_numeral)
  moreover have "(2::nat) dvd 2 ^ (256 - k)" using assms by (simp add: dvd_power)
  ultimately have "(2::nat) dvd 5 ^ k" by (rule dvd_trans [rotated])
  then show False by simp
qed

text \<open>\<open>slice::chunks(n)\<close> for a positive \<open>n\<close>.\<close>

fun chunks_of :: "nat \<Rightarrow> 'a list \<Rightarrow> 'a list list" where
  "chunks_of n [] = []"
| "chunks_of n (x # xs) = (x # take (n - 1) xs) # chunks_of n (drop (n - 1) xs)"

lemma concat_chunks_of [simp]: "concat (chunks_of n xs) = xs"
  by (induction n xs rule: chunks_of.induct) auto

lemma chunks_of_length: "c \<in> set (chunks_of n xs) \<Longrightarrow> 0 < n \<Longrightarrow> 0 < length c \<and> length c \<le> n"
  by (induction n xs rule: chunks_of.induct) auto

text \<open>\<open>a..=b\<close> on \<open>u64\<close>.\<close>

definition blocks_between :: "u64 \<Rightarrow> u64 \<Rightarrow> u64 list" where
  "blocks_between a b = map of_nat [unat a..<unat b + 1]"

end
