(* ===== verification/SwapTypes.thy ===== *)
theory SwapTypes
  imports ArbPrelude
begin

text \<open>
  \<open>src/swap_types.rs\<close>: the protocol enum with its classification methods, swap steps and paths, and
  the parameters a path is turned into for the on-chain quoter and executor. The path hash is
  Rust's \<open>DefaultHasher\<close> run over the steps, which is a parameter.
\<close>

section \<open>Protocols\<close>

datatype pool_protocol =
    UniswapV2 | SushiSwapV2 | PancakeSwapV2 | BaseSwapV2 | AlienBaseV2 | Aerodrome
  | UniswapV3 | SushiSwapV3 | BaseSwapV3 | PancakeSwapV3 | AlienBaseV3 | Slipstream
  | AlgebraV1 | BalancerV2 | CurveTwoCrypto | CurveTriCrypto | MaverickV2

fun is_v3 :: "pool_protocol \<Rightarrow> bool" where
  "is_v3 UniswapV3 = True"
| "is_v3 SushiSwapV3 = True"
| "is_v3 BaseSwapV3 = True"
| "is_v3 PancakeSwapV3 = True"
| "is_v3 AlienBaseV3 = True"
| "is_v3 Slipstream = True"
| "is_v3 AlgebraV1 = True"
| "is_v3 _ = False"

fun is_v2 :: "pool_protocol \<Rightarrow> bool" where
  "is_v2 UniswapV2 = True"
| "is_v2 SushiSwapV2 = True"
| "is_v2 PancakeSwapV2 = True"
| "is_v2 BaseSwapV2 = True"
| "is_v2 AlienBaseV2 = True"
| "is_v2 _ = False"

fun is_curve :: "pool_protocol \<Rightarrow> bool" where
  "is_curve CurveTwoCrypto = True"
| "is_curve CurveTriCrypto = True"
| "is_curve _ = False"

fun curve_n_tokens :: "pool_protocol \<Rightarrow> u64" where
  "curve_n_tokens CurveTriCrypto = 3"
| "curve_n_tokens _ = 2"

fun v2_fee_factor :: "pool_protocol \<Rightarrow> u64" where
  "v2_fee_factor UniswapV2 = 9970"
| "v2_fee_factor SushiSwapV2 = 9970"
| "v2_fee_factor PancakeSwapV2 = 9975"
| "v2_fee_factor BaseSwapV2 = 9975"
| "v2_fee_factor AlienBaseV2 = 9984"
| "v2_fee_factor _ = 9970"

fun to_quoter_version :: "pool_protocol \<Rightarrow> u8" where
  "to_quoter_version UniswapV3 = 1"
| "to_quoter_version SushiSwapV3 = 1"
| "to_quoter_version BaseSwapV3 = 1"
| "to_quoter_version PancakeSwapV3 = 1"
| "to_quoter_version AlienBaseV3 = 1"
| "to_quoter_version Slipstream = 1"
| "to_quoter_version AlgebraV1 = 2"
| "to_quoter_version _ = 0"

lemma v2_fee_factor_le [simp]: "unat (v2_fee_factor p) \<le> 10000"
  by (cases p) simp_all

lemma v2_fee_factor_pos [simp]: "v2_fee_factor p \<noteq> 0"
  by (cases p) simp_all

lemma v2_v3_disjoint: "\<not> (is_v2 p \<and> is_v3 p)"
  by (cases p) simp_all

section \<open>Steps and paths\<close>

record swap_step =
  st_pool_address :: address
  st_token_in :: address
  st_token_out :: address
  st_protocol :: pool_protocol
  st_fee :: u32

record swap_path =
  path_steps :: "swap_step list"
  path_hash :: u64

definition swap_path_new :: "(swap_step list \<Rightarrow> u64) \<Rightarrow> swap_step list \<Rightarrow> swap_path" where
  "swap_path_new hasher ss = \<lparr> path_steps = ss, path_hash = hasher ss \<rparr>"

definition path_len :: "swap_path \<Rightarrow> nat" where
  "path_len p = length (path_steps p)"

definition contains_pool :: "swap_path \<Rightarrow> address \<Rightarrow> bool" where
  "contains_pool p pool = list_ex (\<lambda>s. st_pool_address s = pool) (path_steps p)"

record swap_params =
  sp_pools :: "address list"
  sp_pool_versions :: "u8 list"
  sp_fees :: "u32 list"
  sp_amount_in :: u256
  sp_start_token :: address

definition to_quoter_params :: "swap_path \<Rightarrow> u256 \<Rightarrow> swap_params" where
  "to_quoter_params p amount_in =
    \<lparr> sp_pools = map st_pool_address (path_steps p),
      sp_pool_versions = map (\<lambda>s. to_quoter_version (st_protocol s)) (path_steps p),
      sp_fees = map st_fee (path_steps p),
      sp_amount_in = amount_in,
      sp_start_token = (case path_steps p of [] \<Rightarrow> 0 | s # _ \<Rightarrow> st_token_in s) \<rparr>"

text \<open>The direction of a step in its pool: token0 is the lower address.\<close>

definition zero_for_one :: "swap_step \<Rightarrow> bool" where
  "zero_for_one s = (st_token_in s < st_token_out s)"

lemma swap_path_new_simps [simp]:
  "path_steps (swap_path_new h ss) = ss" "path_hash (swap_path_new h ss) = h ss"
  by (simp_all add: swap_path_new_def)

lemma contains_pool_iff: "contains_pool p pool \<longleftrightarrow> pool \<in> st_pool_address ` set (path_steps p)"
  by (auto simp: contains_pool_def list_ex_iff)

lemma to_quoter_params_lengths:
  "length (sp_pools (to_quoter_params p a)) = path_len p"
  "length (sp_pool_versions (to_quoter_params p a)) = path_len p"
  "length (sp_fees (to_quoter_params p a)) = path_len p"
  by (simp_all add: to_quoter_params_def path_len_def)

end
