(* ===== verification/PoolTypes.thy ===== *)
theory PoolTypes
  imports SwapTypes
begin

text \<open>
  The two pool records: \<open>RawPool\<close> of \<open>src/pool_loader.rs\<close>, as loaded, and \<open>PoolMeta\<close> of
  \<open>src/searcher_pipeline.rs\<close>, as the pipeline workers keep it; and the V2 fee factor that the rate
  estimator and the searcher derive from the fee column in the same way.
\<close>

record raw_pool =
  rp_address :: address
  rp_token0 :: address
  rp_token1 :: address
  rp_decimals0 :: u8
  rp_decimals1 :: u8
  rp_fee :: u32
  rp_tick_spacing :: "32 word"
  rp_protocol :: pool_protocol

record pool_meta =
  pm_address :: address
  pm_token0 :: address
  pm_token1 :: address
  pm_decimals0 :: u8
  pm_decimals1 :: u8
  pm_is_v3 :: bool
  pm_fee :: u32
  pm_tick_spacing :: "32 word"
  pm_protocol :: pool_protocol

definition raw_is_v3 :: "raw_pool \<Rightarrow> bool" where
  "raw_is_v3 p = is_v3 (rp_protocol p)"

definition to_pool_meta :: "raw_pool \<Rightarrow> pool_meta" where
  "to_pool_meta p =
    \<lparr> pm_address = rp_address p, pm_token0 = rp_token0 p, pm_token1 = rp_token1 p,
      pm_decimals0 = rp_decimals0 p, pm_decimals1 = rp_decimals1 p, pm_is_v3 = raw_is_v3 p,
      pm_fee = rp_fee p, pm_tick_spacing = rp_tick_spacing p, pm_protocol = rp_protocol p \<rparr>"

text \<open>The pools whose exact quote is left to the EVM.\<close>

fun is_exotic :: "pool_protocol \<Rightarrow> bool" where
  "is_exotic BalancerV2 = True"
| "is_exotic CurveTwoCrypto = True"
| "is_exotic CurveTriCrypto = True"
| "is_exotic MaverickV2 = True"
| "is_exotic _ = False"

definition csv_fee_factor :: "pool_protocol \<Rightarrow> u32 \<Rightarrow> u64" where
  "csv_fee_factor protocol fee =
    (let csv_factor = saturating_sub 10000 (ucast fee)
     in if 9900 \<le> csv_factor \<and> csv_factor < 10000 then csv_factor else v2_fee_factor protocol)"

lemma csv_fee_factor_range: "unat (csv_fee_factor p fee) \<le> 10000" "csv_fee_factor p fee \<noteq> 0"
  by (auto simp: csv_fee_factor_def Let_def word_less_nat_alt)

end
