(* ===== verification/PathBuilder.thy ===== *)
theory PathBuilder
  imports PoolTypes
begin

text \<open>
  \<open>src/path_builder.rs\<close>: the depth-first search for arbitrage cycles in the token graph. Nodes are
  the token addresses (\<open>node_map\<close> gives every token one node), the edges are those the code adds, one
  per pool. petgraph decides in which order \<open>graph.edges(n)\<close> lists the edges at a node: that is the
  parameter \<open>arrange\<close>, of which only \<open>arrange_ok\<close> is used. The path hash is \<open>hasher\<close>. The mutable
  accumulators (paths, seen hashes, count) are the state \<open>dfs_state\<close>; the path and the visited set
  are restored after every recursive call and are arguments.
\<close>

section \<open>The search\<close>

text \<open>An edge \<open>(token0, token1, index of the pool)\<close>; a hop \<open>(from, index, to)\<close>.\<close>

type_synonym edge = "address \<times> address \<times> nat"
type_synonym hop = "address \<times> nat \<times> address"

record graph_ctx =
  g_pools :: "raw_pool list"
  g_arrange :: "address \<Rightarrow> edge list \<Rightarrow> edge list"
  g_hasher :: "swap_step list \<Rightarrow> u64"
  g_start :: address
  g_max_hops :: nat
  g_cap :: nat

definition graph_edges :: "raw_pool list \<Rightarrow> edge list" where
  "graph_edges pools = map (\<lambda>(i, p). (rp_token0 p, rp_token1 p, i)) (enumerate 0 pools)"

definition edges_at :: "graph_ctx \<Rightarrow> address \<Rightarrow> edge list" where
  "edges_at g n = g_arrange g n (filter (\<lambda>(a, b, _). a = n \<or> b = n) (graph_edges (g_pools g)))"

definition swap_step_of_hop :: "raw_pool list \<Rightarrow> hop \<Rightarrow> swap_step" where
  "swap_step_of_hop pools h =
    (case h of (from, i, to) \<Rightarrow>
       \<lparr> st_pool_address = rp_address (pools ! i), st_token_in = from, st_token_out = to,
         st_protocol = rp_protocol (pools ! i), st_fee = rp_fee (pools ! i) \<rparr>)"

definition build_swap_path :: "graph_ctx \<Rightarrow> hop list \<Rightarrow> address \<Rightarrow> nat \<Rightarrow> address \<Rightarrow> swap_path" where
  "build_swap_path g current_path closing_from closing_idx closing_to =
    swap_path_new (g_hasher g)
      (map (swap_step_of_hop (g_pools g)) (current_path @ [(closing_from, closing_idx, closing_to)]))"

record dfs_state =
  dfs_paths :: "swap_path list"
  dfs_seen :: "u64 set"
  dfs_count :: nat

definition push_path :: "swap_path \<Rightarrow> dfs_state \<Rightarrow> dfs_state" where
  "push_path p st =
    st\<lparr>dfs_paths := dfs_paths st @ [p], dfs_seen := insert (path_hash p) (dfs_seen st),
       dfs_count := dfs_count st + 1\<rparr>"

text \<open>
  The loop over the edges of \<open>cur\<close>; a recursive call of \<open>find_cycles\<close> is its entry test on the
  count, then the loop over the edges of the next node.
\<close>

function find_edges ::
    "graph_ctx \<Rightarrow> address \<Rightarrow> hop list \<Rightarrow> address set \<Rightarrow> edge list \<Rightarrow> dfs_state \<Rightarrow> dfs_state" where
  "find_edges g cur path visited [] st = st"
| "find_edges g cur path visited ((source, target, i) # es) st =
    (let next_node = (if source = cur then target else source)
     in if next_node = g_start g then
          (if 2 \<le> length path
           then (let p = build_swap_path g path cur i (g_start g)
                 in if path_hash p \<notin> dfs_seen st
                    then (let st' = push_path p st
                          in if g_cap g \<le> dfs_count st' then st'
                             else find_edges g cur path visited es st')
                    else find_edges g cur path visited es st)
           else find_edges g cur path visited es st)
        else if next_node \<notin> visited \<and> length path < g_max_hops g then
          find_edges g cur path visited es
            (if g_cap g \<le> dfs_count st then st
             else find_edges g next_node (path @ [(cur, i, next_node)]) (insert next_node visited)
                    (edges_at g next_node) st)
        else find_edges g cur path visited es st)"
  by pat_completeness auto

termination
  by (relation "measures [\<lambda>(g, cur, path, visited, es, st). g_max_hops g - length path,
                          \<lambda>(g, cur, path, visited, es, st). length es]") auto

definition find_cycles :: "graph_ctx \<Rightarrow> address \<Rightarrow> hop list \<Rightarrow> address set \<Rightarrow> dfs_state \<Rightarrow> dfs_state" where
  "find_cycles g cur path visited st =
    (if g_cap g \<le> dfs_count st then st else find_edges g cur path visited (edges_at g cur) st)"

definition in_graph :: "raw_pool list \<Rightarrow> address \<Rightarrow> bool" where
  "in_graph pools t = list_ex (\<lambda>p. rp_token0 p = t \<or> rp_token1 p = t) pools"

text \<open>The paths and hashes are kept over all start tokens, the count restarts with each.\<close>

definition search_token :: "graph_ctx \<Rightarrow> address \<Rightarrow> dfs_state \<Rightarrow> dfs_state" where
  "search_token g start st =
    (if in_graph (g_pools g) start
     then find_cycles (g\<lparr>g_start := start\<rparr>) start [] {start} (st\<lparr>dfs_count := 0\<rparr>)
     else st)"

definition build_arb_paths ::
    "(address \<Rightarrow> edge list \<Rightarrow> edge list) \<Rightarrow> (swap_step list \<Rightarrow> u64) \<Rightarrow> raw_pool list \<Rightarrow> address list \<Rightarrow>
     nat \<Rightarrow> nat \<Rightarrow> swap_path list" where
  "build_arb_paths arrange hasher pools start_tokens max_hops max_paths_per_token =
    dfs_paths (fold (search_token \<lparr> g_pools = pools, g_arrange = arrange, g_hasher = hasher, g_start = 0,
                                    g_max_hops = max_hops, g_cap = max_paths_per_token \<rparr>)
      start_tokens \<lparr> dfs_paths = [], dfs_seen = {}, dfs_count = 0 \<rparr>)"

definition arrange_ok :: "(address \<Rightarrow> edge list \<Rightarrow> edge list) \<Rightarrow> bool" where
  "arrange_ok arrange \<longleftrightarrow> (\<forall>n es. set (arrange n es) = set es)"

section \<open>What a cycle is\<close>

text \<open>Hops of the graph: the pool has the two tokens, in one order or the other.\<close>

definition hop_ok :: "raw_pool list \<Rightarrow> hop \<Rightarrow> bool" where
  "hop_ok pools h =
    (case h of (from, i, to) \<Rightarrow>
       i < length pools \<and>
       (rp_token0 (pools ! i) = from \<and> rp_token1 (pools ! i) = to \<or>
        rp_token1 (pools ! i) = from \<and> rp_token0 (pools ! i) = to))"

text \<open>\<open>walk start hs cur\<close>: the hops lead from \<open>start\<close> to \<open>cur\<close>.\<close>

inductive walk :: "address \<Rightarrow> hop list \<Rightarrow> address \<Rightarrow> bool" where
  walk_Nil: "walk a [] a"
| walk_snoc: "walk a hs b \<Longrightarrow> walk a (hs @ [(b, i, c)]) c"

inductive_cases walk_snocE: "walk a (hs @ [(b, i, c)]) d"
inductive_simps walk_Nil_iff [simp]: "walk a [] b"

definition hop_targets :: "hop list \<Rightarrow> address list" where
  "hop_targets hs = map (\<lambda>(_, _, to). to) hs"

text \<open>
  A cycle of the graph through \<open>start\<close>: a walk back to \<open>start\<close> over pools of the graph that visits
  no token twice.
\<close>

definition simple_cycle :: "raw_pool list \<Rightarrow> address \<Rightarrow> hop list \<Rightarrow> bool" where
  "simple_cycle pools start hs \<longleftrightarrow>
     walk start hs start \<and> hs \<noteq> [] \<and> distinct (hop_targets hs) \<and> (\<forall>h \<in> set hs. hop_ok pools h)"

lemma in_edges_at:
  assumes "arrange_ok (g_arrange g)"
  shows "(a, b, i) \<in> set (edges_at g n) \<longleftrightarrow>
           i < length (g_pools g) \<and> a = rp_token0 (g_pools g ! i) \<and> b = rp_token1 (g_pools g ! i) \<and>
           (a = n \<or> b = n)"
  using assms by (auto simp: edges_at_def arrange_ok_def graph_edges_def in_set_enumerate_eq)

declare find_edges.simps(2) [simp del]

text \<open>The cases of one loop iteration, shared by all inductions over the search.\<close>

lemma find_edges_cases [case_names close_new close_skip recurse skip]:
  fixes g cur path visited source target i es st
  defines "nx \<equiv> if source = cur then target else source"
  defines "p \<equiv> build_swap_path g path cur i (g_start g)"
  obtains
    (close_new) "nx = g_start g" "2 \<le> length path" "path_hash p \<notin> dfs_seen st"
      "find_edges g cur path visited ((source, target, i) # es) st =
         (if g_cap g \<le> dfs_count (push_path p st) then push_path p st
          else find_edges g cur path visited es (push_path p st))"
  | (close_skip) "nx = g_start g" "2 \<le> length path \<longrightarrow> path_hash p \<in> dfs_seen st"
      "find_edges g cur path visited ((source, target, i) # es) st = find_edges g cur path visited es st"
  | (recurse) "nx \<noteq> g_start g" "nx \<notin> visited" "length path < g_max_hops g"
      "find_edges g cur path visited ((source, target, i) # es) st =
         find_edges g cur path visited es
           (if g_cap g \<le> dfs_count st then st
            else find_edges g nx (path @ [(cur, i, nx)]) (insert nx visited) (edges_at g nx) st)"
  | (skip) "nx \<noteq> g_start g" "nx \<in> visited \<or> g_max_hops g \<le> length path"
      "find_edges g cur path visited ((source, target, i) # es) st = find_edges g cur path visited es st"
  unfolding nx_def p_def
  by (cases "(if source = cur then target else source) = g_start g";
      cases "2 \<le> length path";
      cases "path_hash (build_swap_path g path cur i (g_start g)) \<in> dfs_seen st";
      cases "(if source = cur then target else source) \<notin> visited \<and> length path < g_max_hops g")
     (auto simp: find_edges.simps(2) Let_def)

section \<open>Every path found is a cycle\<close>

text \<open>What the accumulated path and the visited set are at every call.\<close>

definition path_inv :: "graph_ctx \<Rightarrow> address \<Rightarrow> hop list \<Rightarrow> address set \<Rightarrow> bool" where
  "path_inv g cur path visited \<longleftrightarrow>
     walk (g_start g) path cur \<and> visited = insert (g_start g) (set (hop_targets path)) \<and>
     distinct (hop_targets path) \<and> g_start g \<notin> set (hop_targets path) \<and>
     (\<forall>h \<in> set path. hop_ok (g_pools g) h) \<and> length path \<le> g_max_hops g"

definition cycle_path :: "graph_ctx \<Rightarrow> hop list \<Rightarrow> swap_path" where
  "cycle_path g hs = swap_path_new (g_hasher g) (map (swap_step_of_hop (g_pools g)) hs)"

definition found_cycle :: "graph_ctx \<Rightarrow> swap_path \<Rightarrow> bool" where
  "found_cycle g p \<longleftrightarrow>
     (\<exists>hs. p = cycle_path g hs \<and> simple_cycle (g_pools g) (g_start g) hs \<and>
           3 \<le> length hs \<and> length hs \<le> g_max_hops g + 1)"

text \<open>The accumulators only grow, by cycles whose hashes are new.\<close>

definition extends :: "graph_ctx \<Rightarrow> dfs_state \<Rightarrow> dfs_state \<Rightarrow> bool" where
  "extends g st st' \<longleftrightarrow>
     (\<exists>new. dfs_paths st' = dfs_paths st @ new \<and> (\<forall>p \<in> set new. found_cycle g p) \<and>
            distinct (map path_hash new) \<and> path_hash ` set new \<inter> dfs_seen st = {} \<and>
            dfs_seen st' = dfs_seen st \<union> path_hash ` set new \<and>
            dfs_count st' = dfs_count st + length new)"

lemma hop_targets_simps [simp]:
  "hop_targets [] = []"
  "hop_targets ((a, i, b) # hs) = b # hop_targets hs"
  "hop_targets (hs @ hs') = hop_targets hs @ hop_targets hs'"
  by (simp_all add: hop_targets_def)

lemma extends_refl [simp]: "extends g st st"
  by (simp add: extends_def)

lemma extends_trans:
  assumes "extends g a b" "extends g b c"
  shows "extends g a c"
proof -
  from assms(1) obtain n1 where n1: "dfs_paths b = dfs_paths a @ n1" "\<forall>p \<in> set n1. found_cycle g p"
      "distinct (map path_hash n1)" "path_hash ` set n1 \<inter> dfs_seen a = {}"
      "dfs_seen b = dfs_seen a \<union> path_hash ` set n1" "dfs_count b = dfs_count a + length n1"
    unfolding extends_def by blast
  from assms(2) obtain n2 where n2: "dfs_paths c = dfs_paths b @ n2" "\<forall>p \<in> set n2. found_cycle g p"
      "distinct (map path_hash n2)" "path_hash ` set n2 \<inter> dfs_seen b = {}"
      "dfs_seen c = dfs_seen b \<union> path_hash ` set n2" "dfs_count c = dfs_count b + length n2"
    unfolding extends_def by blast
  show ?thesis
    unfolding extends_def
    by (rule exI [of _ "n1 @ n2"]) (use n1 n2 in \<open>auto simp: image_Un\<close>)
qed

lemma extends_push:
  assumes "found_cycle g p" "path_hash p \<notin> dfs_seen st"
  shows "extends g st (push_path p st)"
  unfolding extends_def by (rule exI [of _ "[p]"]) (use assms in \<open>auto simp: push_path_def\<close>)

lemma extends_monoD:
  assumes "extends g st st'"
  shows "dfs_seen st \<subseteq> dfs_seen st'" and "dfs_count st \<le> dfs_count st'"
  using assms by (auto simp: extends_def)

lemma build_swap_path_eq: "build_swap_path g path cur i s = cycle_path g (path @ [(cur, i, s)])"
  by (simp add: build_swap_path_def cycle_path_def)

lemma edge_hop_ok:
  assumes "arrange_ok (g_arrange g)" "(source, target, i) \<in> set (edges_at g cur)"
  shows "hop_ok (g_pools g) (cur, i, if source = cur then target else source)"
  using assms by (auto simp: in_edges_at hop_ok_def)

lemma path_inv_snoc:
  assumes "path_inv g cur path visited" "nx \<notin> visited" "length path < g_max_hops g"
    and "hop_ok (g_pools g) (cur, i, nx)"
  shows "path_inv g nx (path @ [(cur, i, nx)]) (insert nx visited)"
  using assms by (auto simp: path_inv_def intro: walk_snoc)

lemma path_inv_close:
  assumes "path_inv g cur path visited" "2 \<le> length path" "hop_ok (g_pools g) (cur, i, g_start g)"
  shows "found_cycle g (cycle_path g (path @ [(cur, i, g_start g)]))"
  unfolding found_cycle_def
  by (rule exI [of _ "path @ [(cur, i, g_start g)]"])
     (use assms in \<open>auto simp: path_inv_def simple_cycle_def intro: walk_snoc\<close>)

lemma find_edges_extends:
  assumes "arrange_ok (g_arrange g)" "path_inv g cur path visited" "set es \<subseteq> set (edges_at g cur)"
  shows "extends g st (find_edges g cur path visited es st)"
  using assms
proof (induction g cur path visited es st rule: find_edges.induct)
  case (2 g cur path visited source target i es st)
  let ?nx = "if source = cur then target else source"
  have ok: "hop_ok (g_pools g) (cur, i, ?nx)" and es: "set es \<subseteq> set (edges_at g cur)"
    using 2(7,9) edge_hop_ok by auto
  show ?case
  proof (cases rule: find_edges_cases [where g = g and cur = cur and path = path and visited = visited
        and source = source and target = target and i = i and es = es and st = st])
    case close_new
    have "found_cycle g (build_swap_path g path cur i (g_start g))"
      using path_inv_close [OF 2(8) close_new(2)] ok close_new(1) by (simp add: build_swap_path_eq)
    then have "extends g st (push_path (build_swap_path g path cur i (g_start g)) st)"
      using close_new(3) by (rule extends_push)
    then show ?thesis
      using 2(1) [OF refl close_new(1,2) refl close_new(3) refl _ 2(7,8) es] close_new(4)
      by (auto intro: extends_trans)
  next
    case close_skip
    then show ?thesis using 2(2,3) [OF refl] 2(7,8) es by (cases "2 \<le> length path") auto
  next
    case recurse
    have "extends g st (find_edges g ?nx (path @ [(cur, i, ?nx)]) (insert ?nx visited)
             (edges_at g ?nx) st)" if "\<not> g_cap g \<le> dfs_count st"
      using 2(4) [OF refl recurse(1) _ that 2(7)] path_inv_snoc [OF 2(8) recurse(2,3) ok] recurse(2,3)
      by simp
    then show ?thesis
      using 2(5) [OF refl recurse(1) _ 2(7,8) es] recurse(2-4) by (auto intro: extends_trans)
  next
    case skip
    then show ?thesis using 2(6) [OF refl] 2(7,8) es by auto
  qed
qed simp

section \<open>How far the cap is overshot\<close>

text \<open>
  After a recursive call has reached the cap the callers' loops go on: each of them may still push one
  closing edge before it returns.
\<close>

lemma find_edges_count:
  assumes "length path \<le> g_max_hops g"
  shows "dfs_count (find_edges g cur path visited es st) \<le>
    (if dfs_count st < g_cap g then g_cap g + (g_max_hops g - max (length path) 2)
     else dfs_count st + (if 2 \<le> length path then 1 else 0))"
  using assms
proof (induction g cur path visited es st rule: find_edges.induct)
  case (2 g cur path visited source target i es st)
  let ?nx = "if source = cur then target else source"
  show ?case
  proof (cases rule: find_edges_cases [where g = g and cur = cur and path = path and visited = visited
        and source = source and target = target and i = i and es = es and st = st])
    case close_new
    then show ?thesis using 2(1) [OF refl close_new(1,2) refl close_new(3) refl _ 2(7)]
      by (auto simp: push_path_def)
  next
    case close_skip
    then show ?thesis using 2(2,3) [OF refl] 2(7) by (cases "2 \<le> length path") auto
  next
    case recurse
    let ?inner = "find_edges g ?nx (path @ [(cur, i, ?nx)]) (insert ?nx visited) (edges_at g ?nx) st"
    have "dfs_count ?inner \<le> g_cap g + (g_max_hops g - max (length path + 1) 2)"
      if "\<not> g_cap g \<le> dfs_count st"
      using 2(4) [OF refl recurse(1) _ that] recurse(2,3) that by auto
    then show ?thesis
      using 2(5) [OF refl recurse(1) _ 2(7)] recurse(2-4) by (auto split: if_splits)
  next
    case skip
    then show ?thesis using 2(6) [OF refl] 2(7) by auto
  qed
qed simp

section \<open>No cycle is missed below the cap\<close>

text \<open>The cycles that go on from the current path, by an edge of the list as the next hop.\<close>

definition continues :: "graph_ctx \<Rightarrow> address \<Rightarrow> hop list \<Rightarrow> edge list \<Rightarrow> hop list \<Rightarrow> bool" where
  "continues g cur path es rest \<longleftrightarrow>
     rest \<noteq> [] \<and> simple_cycle (g_pools g) (g_start g) (path @ rest) \<and>
     3 \<le> length (path @ rest) \<and> length (path @ rest) \<le> g_max_hops g + 1 \<and>
     (\<exists>(a, b, i) \<in> set es. hd rest = (cur, i, if a = cur then b else a))"

lemma walk_snoc_iff [simp]: "walk a (hs @ [(b, i, c)]) d \<longleftrightarrow> walk a hs b \<and> d = c"
  by (auto elim: walk_snocE intro: walk_snoc)

lemma walk_append: "walk a (hs @ hs') c \<longleftrightarrow> (\<exists>b. walk a hs b \<and> walk b hs' c)"
proof (induction hs' arbitrary: c rule: rev_induct)
  case (snoc h hs')
  obtain x i y where [simp]: "h = (x, i, y)" by (cases h)
  show ?case
    using walk_snoc_iff [of a "hs @ hs'" x i y c] snoc.IH [of x] by auto
qed simp

lemma walk_Cons: "walk a ((x, i, y) # hs) c \<longleftrightarrow> a = x \<and> walk y hs c"
  using walk_append [of a "[(x, i, y)]" hs c] walk_snoc_iff [of a "[]" x i y] by auto

lemma walk_last: "walk a hs b \<Longrightarrow> hs \<noteq> [] \<Longrightarrow> last (hop_targets hs) = b"
  by (induction rule: walk.induct) auto

lemma hop_targets_length [simp]: "length (hop_targets hs) = length hs"
  by (simp add: hop_targets_def)

text \<open>The first hop of a continuation closes the cycle, or leads to a token not yet visited.\<close>

lemma continues_first:
  assumes "continues g cur path es ((cur, i, nx) # rest)" "walk (g_start g) path cur"
  shows "nx = g_start g \<longleftrightarrow> rest = []"
    and "rest \<noteq> [] \<Longrightarrow> nx \<notin> insert (g_start g) (set (hop_targets path)) \<and> length path < g_max_hops g"
proof -
  have w: "walk nx rest (g_start g)" and d: "distinct (hop_targets path @ nx # hop_targets rest)"
    and len: "length path + length rest \<le> g_max_hops g"
    using assms by (auto simp: continues_def simple_cycle_def walk_append walk_Cons)
  have last: "g_start g \<in> set (hop_targets rest)" if "rest \<noteq> []"
    using walk_last [OF w that] that last_in_set [of "hop_targets rest"]
    by (metis hop_targets_length length_0_conv)
  show "nx = g_start g \<longleftrightarrow> rest = []" using w d last by (cases "rest = []") auto
  show "nx \<notin> insert (g_start g) (set (hop_targets path)) \<and> length path < g_max_hops g" if "rest \<noteq> []"
    using d last [OF that] that len by (cases rest) auto
qed

lemma hop_ok_edge:
  assumes "arrange_ok (g_arrange g)" "hop_ok (g_pools g) (cur, i, to)"
  shows "\<exists>(a, b, j) \<in> set (edges_at g cur). (cur, i, to) = (cur, j, if a = cur then b else a)"
  using assms by (auto simp: hop_ok_def in_edges_at split_beta split: if_splits)
     (metis fst_conv snd_conv in_edges_at [OF assms(1)])+

lemma continues_tl:
  assumes "continues g cur path (e # es) rest" "\<not> continues g cur path es rest"
  shows "hd rest = (cur, snd (snd e), if fst e = cur then fst (snd e) else fst e)"
  using assms by (auto simp: continues_def)

lemma find_edges_complete:
  assumes "arrange_ok (g_arrange g)" "path_inv g cur path visited" "set es \<subseteq> set (edges_at g cur)"
    and "dfs_count (find_edges g cur path visited es st) < g_cap g" "continues g cur path es rest"
  shows "path_hash (cycle_path g (path @ rest)) \<in> dfs_seen (find_edges g cur path visited es st)"
  using assms
proof (induction g cur path visited es st arbitrary: rest rule: find_edges.induct)
  case (1 g cur path visited st)
  then show ?case by (simp add: continues_def)
next
  case (2 g cur path visited source target i es st)
  let ?nx = "if source = cur then target else source" and ?h = "\<lambda>hs. path_hash (cycle_path g hs)"
  let ?e = "(source, target, i)"
  have ok: "hop_ok (g_pools g) (cur, i, ?nx)" and es: "set es \<subseteq> set (edges_at g cur)"
    using 2(7,9) edge_hop_ok by auto
  have w: "walk (g_start g) path cur" and vis: "visited = insert (g_start g) (set (hop_targets path))"
    using 2(8) by (auto simp: path_inv_def)
  have rest: "continues g cur path es rest \<or> (\<exists>r. rest = (cur, i, ?nx) # r)"
    using continues_tl [OF 2(11)] 2(11) by (cases rest) (auto simp: continues_def)
  have first: "?nx = g_start g \<longleftrightarrow> r = []" "r \<noteq> [] \<Longrightarrow> ?nx \<notin> visited \<and> length path < g_max_hops g"
    if "rest = (cur, i, ?nx) # r" for r
    using continues_first [OF 2(11) [unfolded that] w] unfolding vis by blast+
  have seen_mono: "?h hs \<in> dfs_seen (find_edges g cur path visited es st')"
    if "?h hs \<in> dfs_seen st'" for hs st'
    using extends_monoD(1) [OF find_edges_extends [OF 2(7,8) es]] that by blast
  show ?case
  proof (cases rule: find_edges_cases [where g = g and cur = cur and path = path and visited = visited
        and source = source and target = target and i = i and es = es and st = st])
    case close_new
    let ?st = "push_path (build_swap_path g path cur i (g_start g)) st"
    have below: "\<not> g_cap g \<le> dfs_count ?st" using 2(10) close_new(4) by (auto split: if_splits)
    have new: "?h (path @ [(cur, i, ?nx)]) \<in> dfs_seen ?st"
      using close_new(1) by (simp add: push_path_def build_swap_path_eq)
    have eq: "find_edges g cur path visited (?e # es) st = find_edges g cur path visited es ?st"
      using close_new(4) below by simp
    from rest show ?thesis
    proof
      assume "continues g cur path es rest"
      then show ?thesis
        using 2(1) [OF refl close_new(1,2) refl close_new(3) refl below 2(7,8) es] 2(10) unfolding eq by blast
    next
      assume "\<exists>r. rest = (cur, i, ?nx) # r"
      then obtain r where r: "rest = (cur, i, ?nx) # r" ..
      have "r = []" using first(1) [OF r] close_new(1) by blast
      then show ?thesis unfolding eq using seen_mono [OF new] r by simp
    qed
  next
    case close_skip
    have "?h rest' \<in> dfs_seen st" if "rest = (cur, i, ?nx) # r" "rest' = path @ rest" for r rest'
    proof -
      have "r = []" using first(1) [OF that(1)] close_skip(1) by blast
      then show ?thesis
        using 2(11) that close_skip(1,2) by (auto simp: continues_def build_swap_path_eq)
    qed
    then show ?thesis
      using 2(2,3) [OF refl close_skip(1)] 2(7,8,10) es close_skip rest seen_mono
      by (cases "2 \<le> length path") auto
  next
    case recurse
    let ?path = "path @ [(cur, i, ?nx)]"
    let ?inner = "find_edges g ?nx ?path (insert ?nx visited) (edges_at g ?nx) st"
    let ?st = "if g_cap g \<le> dfs_count st then st else ?inner"
    have inv: "path_inv g ?nx ?path (insert ?nx visited)"
      using path_inv_snoc [OF 2(8) recurse(2,3) ok] .
    have fin: "dfs_count (find_edges g cur path visited es ?st) < g_cap g"
      using 2(10) recurse(4) by simp
    have "dfs_count ?st < g_cap g"
      using extends_monoD(2) [OF find_edges_extends [OF 2(7,8) es]] fin le_less_trans by blast
    then have below: "\<not> g_cap g \<le> dfs_count st" "dfs_count ?inner < g_cap g"
      by (auto split: if_splits)
    have "?h (path @ rest) \<in> dfs_seen ?st" if r: "rest = (cur, i, ?nx) # r" for r
    proof -
      have "r \<noteq> []" using first(1) [OF r] recurse(1) by blast
      then obtain b j c r' where r': "r = (b, j, c) # r'" by (cases r) auto
      have "continues g ?nx ?path (edges_at g ?nx) r"
        using 2(11) hop_ok_edge [OF 2(7), of ?nx j c]
        by (auto simp: continues_def simple_cycle_def walk_append walk_Cons r r')
      then show ?thesis
        using 2(4) [OF refl recurse(1) _ below(1) 2(7) inv order.refl below(2)] recurse(2,3) below(1) r
        by simp
    qed
    then show ?thesis
      using 2(5) [OF refl recurse(1) _ 2(7,8) es fin] recurse rest seen_mono by auto
  next
    case skip
    have False if "rest = (cur, i, ?nx) # r" for r
      using first [OF that] skip by (metis not_le)
    then show ?thesis using 2(6) [OF refl skip(1)] 2(7,8,10) es skip rest by auto
  qed
qed

section \<open>Cycles use every pool once\<close>

definition hop_pools :: "hop list \<Rightarrow> nat list" where
  "hop_pools hs = map (\<lambda>(_, i, _). i) hs"

lemma walk_nth_from:
  "walk a hs b \<Longrightarrow> k < length hs \<Longrightarrow> fst (hs ! k) = (if k = 0 then a else hop_targets hs ! (k - 1))"
proof (induction hs arbitrary: b rule: rev_induct)
  case (snoc h hs)
  obtain x i y where [simp]: "h = (x, i, y)" by (cases h)
  have w: "walk a hs x" using snoc.prems(1) by simp
  show ?case
  proof (cases "k < length hs")
    case True
    then show ?thesis using snoc.IH [OF w] by (auto simp: nth_append)
  next
    case False
    then have "k = length hs" using snoc.prems(2) by simp
    then show ?thesis using walk_last [OF w] w
      by (cases "hs = []") (auto simp: nth_append last_conv_nth hop_targets_def)
  qed
qed simp

lemma nth_hop_targets: "k < length hs \<Longrightarrow> hop_targets hs ! k = snd (snd (hs ! k))"
  by (simp add: hop_targets_def split_beta)

lemma simple_cycle_distinct_pools:
  assumes "simple_cycle pools start hs" "3 \<le> length hs"
  shows "distinct (hop_pools hs)"
proof (rule ccontr)
  let ?t = "\<lambda>k. hop_targets hs ! k" and ?n = "length hs"
  assume "\<not> distinct (hop_pools hs)"
  then obtain k l where kl: "k < l" "l < ?n" "hop_pools hs ! k = hop_pools hs ! l"
    by (auto simp: distinct_conv_nth hop_pools_def) (metis nat_neq_iff)
  have w: "walk start hs start" and d: "distinct (hop_targets hs)" using assms(1) by (auto simp: simple_cycle_def)
  have start: "start = ?t (?n - 1)"
    using walk_last [OF w] assms(2) by (metis hop_targets_length last_conv_nth length_0_conv not_numeral_le_zero)
  have inj: "?t i = ?t j \<longleftrightarrow> i = j" if "i < ?n" "j < ?n" for i j
    using d that by (simp add: nth_eq_iff_index_eq)
  have ok: "hop_ok pools (hs ! k)" "hop_ok pools (hs ! l)" using assms(1) kl by (auto simp: simple_cycle_def)
  obtain i where i: "fst (snd (hs ! k)) = i" "fst (snd (hs ! l)) = i"
    using kl by (simp add: hop_pools_def split_beta)
  have "{fst (hs ! k), ?t k} = {fst (hs ! l), ?t l}"
    using ok i kl by (auto simp: hop_ok_def split_beta nth_hop_targets)
  then have sw: "?t k = fst (hs ! l)" "?t l = fst (hs ! k)"
    using inj [of k l] kl by (auto simp: doubleton_eq_iff)
  have "?t k = ?t (l - 1)" using sw(1) walk_nth_from [OF w kl(2)] kl by simp
  then have l: "l = k + 1" using inj [of k "l - 1"] kl by auto
  have "?t l = (if k = 0 then ?t (?n - 1) else ?t (k - 1))"
    using sw(2) walk_nth_from [OF w, of k] kl start by simp
  moreover have "?t l \<noteq> ?t (?n - 1)" if "k = 0" using inj [of l "?n - 1"] that l kl assms(2) by auto
  moreover have "?t l \<noteq> ?t (k - 1)" if "k \<noteq> 0" using inj [of l "k - 1"] that l kl by auto
  ultimately show False by (auto split: if_splits)
qed

section \<open>The whole search\<close>

lemma search_token_extends:
  assumes "arrange_ok (g_arrange g)"
  shows "extends (g\<lparr>g_start := start\<rparr>) (st\<lparr>dfs_count := if in_graph (g_pools g) start then 0 else dfs_count st\<rparr>)
           (search_token g start st)"
  using find_edges_extends [of "g\<lparr>g_start := start\<rparr>" start "[]" "{start}" "edges_at (g\<lparr>g_start := start\<rparr>) start"] assms
  by (auto simp: search_token_def find_cycles_def path_inv_def)

text \<open>What holds of the accumulators between two start tokens.\<close>

definition arb_inv :: "graph_ctx \<Rightarrow> address set \<Rightarrow> dfs_state \<Rightarrow> bool" where
  "arb_inv g tokens st \<longleftrightarrow>
     distinct (map path_hash (dfs_paths st)) \<and> dfs_seen st = path_hash ` set (dfs_paths st) \<and>
     (\<forall>p \<in> set (dfs_paths st). \<exists>t \<in> tokens. found_cycle (g\<lparr>g_start := t\<rparr>) p)"

lemma search_token_inv:
  assumes "arrange_ok (g_arrange g)" "arb_inv g tokens st" "t \<in> tokens"
  shows "arb_inv g tokens (search_token g t st)" and "dfs_seen st \<subseteq> dfs_seen (search_token g t st)"
    and "length (dfs_paths st) \<le> length (dfs_paths (search_token g t st))"
  using search_token_extends [OF assms(1), of t st] assms(2,3)
  by (auto simp: arb_inv_def extends_def image_Un) (metis IntI empty_iff imageI)

lemma search_fold_inv:
  assumes "arrange_ok (g_arrange g)" "arb_inv g tokens st" "set ts \<subseteq> tokens"
  shows "arb_inv g tokens (fold (search_token g) ts st) \<and> dfs_seen st \<subseteq> dfs_seen (fold (search_token g) ts st)
         \<and> length (dfs_paths st) \<le> length (dfs_paths (fold (search_token g) ts st))"
  using assms(2,3)
proof (induction ts arbitrary: st)
  case (Cons t ts)
  then show ?case using search_token_inv [OF assms(1) Cons.prems(1), of t] Cons.IH [of "search_token g t st"]
    by fastforce
qed simp

lemma build_arb_paths_inv:
  fixes arrange hasher pools max_hops cap
  defines "g \<equiv> \<lparr> g_pools = pools, g_arrange = arrange, g_hasher = hasher, g_start = 0,
                   g_max_hops = max_hops, g_cap = cap \<rparr>"
  assumes "arrange_ok arrange"
  shows "arb_inv g (set ts) (fold (search_token g) ts \<lparr> dfs_paths = [], dfs_seen = {}, dfs_count = 0 \<rparr>)"
  using search_fold_inv [of g "set ts" "\<lparr> dfs_paths = [], dfs_seen = {}, dfs_count = 0 \<rparr>" ts] assms
  by (simp add: arb_inv_def)

text \<open>
  C4. Every path \<open>build_arb_paths\<close> returns is an arbitrage cycle of the pools: it starts and ends at a
  start token, each hop goes from one token of its pool to the other, no token is visited twice, no pool
  is used twice, it has between 3 and \<open>max_hops + 1\<close> hops, its steps carry the pool's address, protocol
  and fee, and no two paths have the same hash.
\<close>

theorem arb_paths_are_cycles:
  assumes "arrange_ok arrange"
  shows "distinct (map path_hash (build_arb_paths arrange hasher pools start_tokens max_hops cap)) \<and>
    (\<forall>p \<in> set (build_arb_paths arrange hasher pools start_tokens max_hops cap).
       \<exists>start \<in> set start_tokens. \<exists>hs.
         p = swap_path_new hasher (map (swap_step_of_hop pools) hs) \<and> simple_cycle pools start hs \<and>
         distinct (hop_pools hs) \<and> 3 \<le> length hs \<and> length hs \<le> max_hops + 1)"
  using build_arb_paths_inv [OF assms, of pools hasher max_hops cap start_tokens] simple_cycle_distinct_pools
  by (fastforce simp: arb_inv_def build_arb_paths_def found_cycle_def cycle_path_def)

lemma search_token_complete:
  assumes "arrange_ok (g_arrange g)" "dfs_count (search_token g start st) < g_cap g"
    and "simple_cycle (g_pools g) start hs" "3 \<le> length hs" "length hs \<le> g_max_hops g + 1"
  shows "path_hash (swap_path_new (g_hasher g) (map (swap_step_of_hop (g_pools g)) hs))
           \<in> dfs_seen (search_token g start st)"
proof -
  let ?g = "g\<lparr>g_start := start\<rparr>"
  obtain x i y r where hs: "hs = (x, i, y) # r" using assms(4) by (cases hs) auto
  have x: "x = start" and ok: "hop_ok (g_pools ?g) (start, i, y)"
    using assms(3) by (auto simp: simple_cycle_def hs walk_Cons)
  have node: "in_graph (g_pools g) start"
    using ok by (auto simp: in_graph_def hop_ok_def list_ex_iff intro!: bexI [of _ "g_pools g ! i"])
  have cont: "continues ?g start [] (edges_at ?g start) hs"
    using hop_ok_edge [OF _ ok] assms hs x by (auto simp: continues_def)
  have res: "search_token g start st = find_edges ?g start [] {start} (edges_at ?g start) (st\<lparr>dfs_count := 0\<rparr>)"
    using node assms(2) by (auto simp: search_token_def find_cycles_def)
  have "path_inv ?g start [] {start}" by (simp add: path_inv_def)
  then show ?thesis
    using find_edges_complete [OF _ _ order.refl _ cont] assms(1,2) unfolding res
    by (simp add: cycle_path_def)
qed

lemma search_fold_complete:
  assumes "arrange_ok (g_arrange g)" "arb_inv g tokens st" "set ts \<subseteq> tokens" "start \<in> set ts"
    and "length (dfs_paths (fold (search_token g) ts st)) < g_cap g" "dfs_count st \<le> length (dfs_paths st)"
    and "simple_cycle (g_pools g) start hs" "3 \<le> length hs" "length hs \<le> g_max_hops g + 1"
  shows "path_hash (swap_path_new (g_hasher g) (map (swap_step_of_hop (g_pools g)) hs))
           \<in> dfs_seen (fold (search_token g) ts st)"
  using assms(2-6)
proof (induction ts arbitrary: st)
  case (Cons t ts)
  let ?st = "search_token g t st"
  have inv: "arb_inv g tokens ?st" using search_token_inv(1) [OF assms(1) Cons.prems(1)] Cons.prems(2) by simp
  note rest = search_fold_inv [OF assms(1) inv, of ts]
  have cnt: "dfs_count ?st \<le> length (dfs_paths ?st)"
    using search_token_extends [OF assms(1), of t st] Cons.prems(5) by (auto simp: extends_def split: if_splits)
  show ?case
  proof (cases "start \<in> set ts")
    case True
    then show ?thesis using Cons.IH [OF inv] Cons.prems(2,4) cnt by simp
  next
    case False
    then have "start = t" using Cons.prems(3) by simp
    moreover have "dfs_count ?st < g_cap g" using cnt rest Cons.prems(2,4) by simp
    ultimately show ?thesis
      using search_token_complete [OF assms(1) _ assms(7-9)] rest Cons.prems(2) by auto
  qed
qed simp

lemma build_arb_paths_fold:
  fixes pools :: "raw_pool list" and hasher :: "swap_step list \<Rightarrow> u64" and max_hops cap :: nat
    and arrange :: "address \<Rightarrow> edge list \<Rightarrow> edge list" and ts :: "address list"
  defines "g \<equiv> \<lparr> g_pools = pools, g_arrange = arrange, g_hasher = hasher, g_start = 0,
                   g_max_hops = max_hops, g_cap = cap \<rparr>"
  assumes "arrange_ok arrange"
  obtains st where "st = fold (search_token g) ts \<lparr> dfs_paths = [], dfs_seen = {}, dfs_count = 0 \<rparr>"
    "build_arb_paths arrange hasher pools ts max_hops cap = dfs_paths st"
    "dfs_seen st = path_hash ` set (dfs_paths st)"
  using build_arb_paths_inv [OF assms(2), of pools hasher max_hops cap ts]
  by (auto simp: build_arb_paths_def g_def arb_inv_def)

text \<open>
  C21. Below the cap the search is exhaustive: when fewer than \<open>max_paths_per_token\<close> paths are returned,
  every cycle with 3 to \<open>max_hops + 1\<close> hops through a start token is returned, up to a path with the
  same hash.
\<close>

theorem arb_paths_complete:
  assumes "arrange_ok arrange" "start \<in> set start_tokens"
    and "length (build_arb_paths arrange hasher pools start_tokens max_hops cap) < cap"
    and "simple_cycle pools start hs" "3 \<le> length hs" "length hs \<le> max_hops + 1"
  shows "\<exists>p \<in> set (build_arb_paths arrange hasher pools start_tokens max_hops cap).
           path_hash p = hasher (map (swap_step_of_hop pools) hs)"
proof (rule build_arb_paths_fold [OF assms(1), of pools hasher max_hops cap start_tokens])
  let ?g = "\<lparr> g_pools = pools, g_arrange = arrange, g_hasher = hasher, g_start = 0, g_max_hops = max_hops,
              g_cap = cap \<rparr>"
  let ?st0 = "\<lparr> dfs_paths = [], dfs_seen = {}, dfs_count = 0 \<rparr>"
  fix st
  assume st: "st = fold (search_token ?g) start_tokens ?st0"
    "build_arb_paths arrange hasher pools start_tokens max_hops cap = dfs_paths st"
    "dfs_seen st = path_hash ` set (dfs_paths st)"
  have "path_hash (swap_path_new hasher (map (swap_step_of_hop pools) hs)) \<in> dfs_seen st"
    using search_fold_complete [of ?g "set start_tokens" ?st0 start_tokens start hs] assms
    unfolding st(1) [symmetric] by (simp add: arb_inv_def st(2))
  then show ?thesis using st by (auto simp: swap_path_new_def)
qed

lemma search_token_count:
  assumes "arrange_ok (g_arrange g)"
  shows "length (dfs_paths (search_token g start st)) \<le> length (dfs_paths st) +
           (if g_cap g = 0 then 0 else g_cap g + (g_max_hops g - 2))"
proof (cases "in_graph (g_pools g) start")
  case True
  have "length (dfs_paths (search_token g start st)) = length (dfs_paths st) + dfs_count (search_token g start st)"
    using search_token_extends [OF assms, of start st] True by (auto simp: extends_def)
  moreover have "dfs_count (search_token g start st) \<le> (if g_cap g = 0 then 0 else g_cap g + (g_max_hops g - 2))"
    using find_edges_count [of "[]" "g\<lparr>g_start := start\<rparr>" start "{start}" "edges_at (g\<lparr>g_start := start\<rparr>) start"
      "st\<lparr>dfs_count := 0\<rparr>"] True by (auto simp: search_token_def find_cycles_def)
  ultimately show ?thesis by simp
qed (simp add: search_token_def)

lemma search_fold_count:
  assumes "\<And>t st. length (dfs_paths (search_token g t st)) \<le> length (dfs_paths st) + bound"
  shows "length (dfs_paths (fold (search_token g) ts st)) \<le> length (dfs_paths st) + length ts * bound"
proof (induction ts arbitrary: st)
  case (Cons t ts)
  show ?case using Cons.IH [of "search_token g t st"] assms [of t st] by simp
qed simp

text \<open>
  C29. The cap per start token is overshot by at most \<open>max_hops - 2\<close>: one closing edge for every caller
  of the call that reached it.
\<close>

theorem arb_paths_bounded:
  assumes "arrange_ok arrange"
  shows "length (build_arb_paths arrange hasher pools start_tokens max_hops cap) \<le>
           length start_tokens * (if cap = 0 then 0 else cap + (max_hops - 2))"
proof -
  let ?g = "\<lparr> g_pools = pools, g_arrange = arrange, g_hasher = hasher, g_start = 0, g_max_hops = max_hops,
              g_cap = cap \<rparr>"
  have "length (dfs_paths (search_token ?g t st)) \<le> length (dfs_paths st) + (if cap = 0 then 0 else cap + (max_hops - 2))"
    for t st using search_token_count [of ?g t st] assms by (simp only: graph_ctx.simps)
  from search_fold_count [OF this, where ts = start_tokens and st = "\<lparr> dfs_paths = [], dfs_seen = {}, dfs_count = 0 \<rparr>"]
  show ?thesis by (simp only: build_arb_paths_def dfs_state.simps list.size add_0)
qed

section \<open>Concrete searches\<close>

text \<open>
  Four pools in a ring and a chord, and a hash that reads the length: with a cap of one path the search
  from token 1 still returns two. The other two facts apply the theorems to the ring.
\<close>

definition ring_pool :: "address \<Rightarrow> address \<Rightarrow> address \<Rightarrow> raw_pool" where
  "ring_pool a t0 t1 =
    \<lparr> rp_address = a, rp_token0 = t0, rp_token1 = t1, rp_decimals0 = 18, rp_decimals1 = 18, rp_fee = 30,
      rp_tick_spacing = 0, rp_protocol = UniswapV2 \<rparr>"

definition ring_pools :: "raw_pool list" where
  "ring_pools = [ring_pool 11 1 2, ring_pool 12 2 3, ring_pool 13 3 4, ring_pool 14 4 1, ring_pool 15 3 1]"

definition length_hasher :: "swap_step list \<Rightarrow> u64" where
  "length_hasher ss = of_nat (length ss)"

lemma arrange_ok_id: "arrange_ok (\<lambda>_ es. es)"
  by (simp add: arrange_ok_def)

lemma cap_overshot:
  "length (build_arb_paths (\<lambda>_ es. es) length_hasher ring_pools [1] 3 1) = 2"
  by code_simp

text \<open>Two pools of the same pair: the cross-exchange cycle of two hops is not searched for.\<close>

lemma two_hop_cycle_not_found:
  "simple_cycle [ring_pool 11 1 2, ring_pool 12 1 2] 1 [(1, 0, 2), (2, 1, 1)] \<and>
   build_arb_paths (\<lambda>_ es. es) length_hasher [ring_pool 11 1 2, ring_pool 12 1 2] [1] 2 200 = []"
  by (rule conjI, simp add: simple_cycle_def walk_Cons hop_ok_def ring_pool_def) code_simp

text \<open>A cycle of four hops although \<open>max_hops\<close> is three.\<close>

lemma longer_cycle_found:
  "map path_len (build_arb_paths (\<lambda>_ es. es) length_hasher ring_pools [1] 3 200) = [4, 3]"
  by code_simp

lemma arb_paths_are_cycles_witness:
  "\<exists>start \<in> set [1]. \<exists>hs.
     hd (build_arb_paths (\<lambda>_ es. es) length_hasher ring_pools [1] 3 200) =
       swap_path_new length_hasher (map (swap_step_of_hop ring_pools) hs) \<and>
     simple_cycle ring_pools start hs \<and> distinct (hop_pools hs) \<and> 3 \<le> length hs \<and> length hs \<le> 3 + 1"
proof -
  have "length (build_arb_paths (\<lambda>_ es. es) length_hasher ring_pools [1] 3 200) = 2" by code_simp
  then have "build_arb_paths (\<lambda>_ es. es) length_hasher ring_pools [1] 3 200 \<noteq> []" by auto
  then show ?thesis
    using arb_paths_are_cycles [OF arrange_ok_id, of length_hasher ring_pools "[1]" 3 200] hd_in_set by blast
qed

lemma arb_paths_complete_witness:
  "\<exists>p \<in> set (build_arb_paths (\<lambda>_ es. es) length_hasher ring_pools [1] 3 200).
     path_hash p = length_hasher (map (swap_step_of_hop ring_pools) [(1, 0, 2), (2, 1, 3), (3, 4, 1)])"
proof (rule arb_paths_complete [OF arrange_ok_id, where start = 1])
  have "length (build_arb_paths (\<lambda>_ es. es) length_hasher ring_pools [1] 3 200) = 2" by code_simp
  then show "length (build_arb_paths (\<lambda>_ es. es) length_hasher ring_pools [1] 3 200) < 200" by simp
  show "simple_cycle ring_pools 1 [(1, 0, 2), (2, 1, 3), (3, 4, 1)]"
    by (simp add: simple_cycle_def walk_Cons hop_ok_def ring_pools_def ring_pool_def)
qed simp_all

lemma arb_paths_bounded_witness:
  "length (build_arb_paths (\<lambda>_ es. es) length_hasher ring_pools [1] 3 1) \<le> 1 * (1 + (3 - 2))"
  using arb_paths_bounded [OF arrange_ok_id, of length_hasher ring_pools "[1]" 3 1] by simp

end
