(* ===== verification/RpcText.thy ===== *)
theory RpcText
  imports ArbPrelude
begin

text \<open>
  What the crate does with bytes and with the hexadecimal strings of JSON-RPC answers: big-endian
  byte arrays, \<open>trim_start_matches("0x")\<close>, the left padding \<open>{:0>64}\<close>, \<open>u64::from_str_radix\<close>, and the
  decoding closures that \<open>src/state_db.rs\<close> and \<open>src/sim_db.rs\<close> repeat. \<open>hex::decode\<close> and
  \<open>U256::from_str_radix\<close> belong to other crates and are parameters. An RPC answer is \<open>None\<close> when
  the request fails, the body is not JSON, or it has no string \<open>result\<close>; otherwise that string.
\<close>

section \<open>Big-endian bytes\<close>

definition be_bytes :: "nat \<Rightarrow> 'a::len word \<Rightarrow> u8 list" where
  "be_bytes n x = map (\<lambda>i. ucast (drop_bit (8 * i) x)) (rev [0..<n])"

definition from_be_bytes :: "u8 list \<Rightarrow> 'a::len word" where
  "from_be_bytes bs = foldl (\<lambda>acc b. push_bit 8 acc OR ucast b) 0 bs"

lemma length_be_bytes [simp]: "length (be_bytes n x) = n"
  by (simp add: be_bytes_def)

lemma be_bytes_Suc: "be_bytes (Suc n) x = ucast (drop_bit (8 * n) x) # be_bytes n x"
  by (simp add: be_bytes_def)

lemma from_be_bytes_snoc: "from_be_bytes (bs @ [b]) = push_bit 8 (from_be_bytes bs) OR ucast b"
  by (simp add: from_be_bytes_def)

lemma be_bytes_snoc: "be_bytes (Suc n) x = be_bytes n (drop_bit 8 x) @ [ucast x]"
proof -
  have "rev [0..<Suc n] = map Suc (rev [0..<n]) @ [0]"
    by (simp add: map_Suc_upt rev_map [symmetric] upt_conv_Cons del: upt_Suc)
  then show ?thesis
    by (simp add: be_bytes_def drop_bit_drop_bit add.commute del: upt_Suc)
qed

lemma bit_from_be_bytes_be_bytes:
  "bit (from_be_bytes (be_bytes n (x :: 'a::len word)) :: 'b::len word) k \<longleftrightarrow>
     k < LENGTH('b) \<and> k < 8 * n \<and> bit x k"
proof (induction n arbitrary: x k)
  case 0
  then show ?case by (simp add: be_bytes_def from_be_bytes_def)
next
  case (Suc n)
  show ?case
    unfolding be_bytes_snoc from_be_bytes_snoc
    by (cases "k < 8")
       (auto simp: bit_or_iff bit_push_bit_iff bit_unsigned_iff bit_drop_bit_eq Suc
             dest: bit_imp_le_length)
qed

lemma from_be_bytes_be_bytes:
  assumes "LENGTH('a) \<le> 8 * n"
  shows "from_be_bytes (be_bytes n (x :: 'a::len word)) = x"
  by (rule bit_word_eqI) (use assms in \<open>auto simp: bit_from_be_bytes_be_bytes\<close>)

lemma be_bytes_inj:
  assumes "be_bytes n x = be_bytes n (y :: 'a::len word)" "LENGTH('a) \<le> 8 * n"
  shows "x = y"
  using assms by (metis from_be_bytes_be_bytes)

text \<open>\<open>data[a..b]\<close> on 64-bit offsets; reversed bounds and a bound past the end panic.\<close>

definition slice :: "'a list \<Rightarrow> u64 \<Rightarrow> u64 \<Rightarrow> 'a list run" where
  "slice xs a b =
    (if a \<le> b \<and> unat b \<le> length xs then Some (take (unat b - unat a) (drop (unat a) xs)) else None)"

lemma slice_mid:
  assumes "unat a = length pre" "unat b = length pre + length mid"
  shows "slice (pre @ mid @ post) a b = Some mid"
  using assms by (simp add: slice_def word_le_nat_alt)

section \<open>Hexadecimal text\<close>

text \<open>\<open>trim_start_matches("0x")\<close> removes the prefix as often as it occurs.\<close>

fun trim_0x :: "string \<Rightarrow> string" where
  "trim_0x (c # d # s) = (if c = CHR ''0'' \<and> d = CHR ''x'' then trim_0x s else c # d # s)"
| "trim_0x s = s"

definition pad64 :: "string \<Rightarrow> string" where
  "pad64 s = replicate (64 - length s) CHR ''0'' @ s"

lemma length_pad64: "64 \<le> length (pad64 s)"
  by (simp add: pad64_def)

text \<open>The padding \<open>{:0>40}\<close> of addresses, and the lower case of ASCII text.\<close>

definition pad40 :: "string \<Rightarrow> string" where
  "pad40 s = replicate (40 - length s) CHR ''0'' @ s"

definition lower_char :: "char \<Rightarrow> char" where
  "lower_char c = (let n = of_char c :: nat in if 65 \<le> n \<and> n \<le> 90 then char_of (n + 32) else c)"

fun hex_digit :: "char \<Rightarrow> nat option" where
  "hex_digit c =
    (let n = (of_char c :: nat)
     in if 48 \<le> n \<and> n \<le> 57 then Some (n - 48)
        else if 97 \<le> n \<and> n \<le> 102 then Some (n - 87)
        else if 65 \<le> n \<and> n \<le> 70 then Some (n - 55)
        else None)"

fun hex_digits :: "nat \<Rightarrow> string \<Rightarrow> nat option" where
  "hex_digits acc [] = Some acc"
| "hex_digits acc (c # s) =
    (case hex_digit c of
       None \<Rightarrow> None
     | Some d \<Rightarrow> if acc * 16 + d < 2 ^ 64 then hex_digits (acc * 16 + d) s else None)"

text \<open>\<open>u64::from_str_radix(s, 16).ok()\<close>: an optional plus sign, at least one digit, no overflow.\<close>

definition u64_from_hex :: "string \<Rightarrow> u64 option" where
  "u64_from_hex s =
    (let digits = (case s of [] \<Rightarrow> [] | c # r \<Rightarrow> if c = CHR ''+'' \<and> r \<noteq> [] then r else s)
     in if digits = [] then None else map_option of_nat (hex_digits 0 digits))"

section \<open>Answers\<close>

text \<open>The first 32 bytes as a word: \<open>arr.copy_from_slice(&bytes[..32])\<close> panics on fewer.\<close>

definition word_of_first_32 :: "u8 list \<Rightarrow> u256 run" where
  "word_of_first_32 bs = (if length bs < 32 then None else Some (from_be_bytes (take 32 bs)))"

text \<open>Storage answers of the prefetchers and of \<open>SimDb\<close>: everything that goes wrong is read as 0.\<close>

definition parse_storage_answer :: "(string \<Rightarrow> u8 list option) \<Rightarrow> string option \<Rightarrow> u256 run" where
  "parse_storage_answer hex_decode answer =
    (case answer of
       None \<Rightarrow> Some 0
     | Some s \<Rightarrow>
         (case hex_decode (pad64 (trim_0x s)) of
            None \<Rightarrow> Some 0
          | Some bs \<Rightarrow> word_of_first_32 bs))"

text \<open>
  The lazy storage fetch of \<open>BlockStateDB\<close> copies the whole decoded slice instead, which panics
  unless it has exactly 32 bytes.
\<close>

definition parse_storage_answer_exact ::
    "(string \<Rightarrow> u8 list option) \<Rightarrow> string option \<Rightarrow> u256 run" where
  "parse_storage_answer_exact hex_decode answer =
    (case answer of
       None \<Rightarrow> Some 0
     | Some s \<Rightarrow>
         (case hex_decode (pad64 (trim_0x s)) of
            None \<Rightarrow> Some 0
          | Some bs \<Rightarrow> if length bs = 32 then Some (from_be_bytes bs) else None))"

text \<open>\<open>hex::decode(s).unwrap_or_default()\<close>.\<close>

definition parse_code_answer :: "(string \<Rightarrow> u8 list option) \<Rightarrow> string option \<Rightarrow> u8 list" where
  "parse_code_answer hex_decode answer =
    (case answer of
       None \<Rightarrow> []
     | Some s \<Rightarrow> (case hex_decode (trim_0x s) of None \<Rightarrow> [] | Some bs \<Rightarrow> bs))"

text \<open>What the code relies on of \<open>hex::decode\<close>: two characters per byte.\<close>

definition hex_decode_ok :: "(string \<Rightarrow> u8 list option) \<Rightarrow> bool" where
  "hex_decode_ok hex_decode \<longleftrightarrow> (\<forall>s bs. hex_decode s = Some bs \<longrightarrow> length s = 2 * length bs)"

lemma parse_storage_answer_total:
  assumes "hex_decode_ok hex_decode"
  shows "\<exists>v. parse_storage_answer hex_decode answer = Some v"
proof -
  have "32 \<le> length bs" if "hex_decode (pad64 t) = Some bs" for t bs
    using assms that length_pad64 [of t] by (simp add: hex_decode_ok_def)
  then show ?thesis
    by (force simp: parse_storage_answer_def word_of_first_32_def split: option.splits)
qed

end
