(* ===== verification/SlotCache.thy ===== *)
theory SlotCache
  imports ArbPrelude
begin

text \<open>
  The contract between the EVM and a lazily filled database. \<open>BlockStateDB\<close> and \<open>SimDb\<close> both answer
  a storage read from their cache, or fetch the slot over RPC and cache it; the quoters rely on a
  quote that, once its slots are cached, no longer depends on the RPC endpoint. \<open>read\<close> takes the
  RPC endpoint and the database, \<open>cached\<close> is the abstract content. The providers are interpreted in
  the theories StateDb and SimDbs.
\<close>

text \<open>A sequence of reads, each on the database the last one left.\<close>

fun read_all :: "('env \<Rightarrow> 'db \<Rightarrow> 'k \<Rightarrow> ('v \<times> 'db) run) \<Rightarrow> 'env \<Rightarrow> 'db \<Rightarrow> 'k list \<Rightarrow> ('v list \<times> 'db) run"
where
  "read_all read env db [] = Some ([], db)"
| "read_all read env db (k # ks) =
    do {
      (v, db1) \<leftarrow> read env db k;
      (vs, db2) \<leftarrow> read_all read env db1 ks;
      Some (v # vs, db2)
    }"

locale slot_cache =
  fixes read :: "'env \<Rightarrow> 'db \<Rightarrow> 'k \<Rightarrow> ('v \<times> 'db) run"
    and cached :: "'db \<Rightarrow> 'k \<Rightarrow> 'v option"
  assumes hit: "cached db k = Some v \<Longrightarrow> read env db k = Some (v, db)"
    and miss: "cached db k = None \<Longrightarrow> read env db k = Some (v, db') \<Longrightarrow>
               cached db' = (cached db)(k \<mapsto> v)"
begin

lemma read_cached:
  assumes "read env db k = Some (v, db')"
  shows "cached db' k = Some v" and "cached db \<subseteq>\<^sub>m cached db'"
proof -
  have "cached db' k = Some v \<and> cached db \<subseteq>\<^sub>m cached db'"
  proof (cases "cached db k")
    case None
    then show ?thesis
      using miss [OF None assms] by (auto simp: map_le_def)
  next
    case (Some w)
    then show ?thesis
      using hit [OF Some, of env] assms by simp
  qed
  then show "cached db' k = Some v" and "cached db \<subseteq>\<^sub>m cached db'" by auto
qed

text \<open>A slot once read never changes its answer, whatever the endpoint says later.\<close>

lemma read_stable:
  assumes "read env db k = Some (v, db')"
  shows "read env' db' k = Some (v, db')"
  by (rule hit [OF read_cached(1) [OF assms]])

lemma read_all_cached:
  assumes "read_all read env db ks = Some (vs, db')"
  shows "map (cached db') ks = map Some vs" and "cached db \<subseteq>\<^sub>m cached db'"
proof -
  have "map (cached db') ks = map Some vs \<and> cached db \<subseteq>\<^sub>m cached db'"
    using assms
  proof (induction ks arbitrary: db vs)
    case (Cons k ks)
    then obtain v db1 ws where r: "read env db k = Some (v, db1)"
        "read_all read env db1 ks = Some (ws, db')" "vs = v # ws"
      by (auto split: bind_splits)
    have "cached db' k = Some v"
      using read_cached(1) [OF r(1)] Cons.IH [OF r(2)] by (auto simp: map_le_def dom_def)
    moreover have "cached db \<subseteq>\<^sub>m cached db'"
      using read_cached(2) [OF r(1)] Cons.IH [OF r(2)] by (auto intro: map_le_trans)
    ultimately show ?case using Cons.IH [OF r(2)] r(3) by simp
  qed simp
  then show "map (cached db') ks = map Some vs" and "cached db \<subseteq>\<^sub>m cached db'" by auto
qed

lemma read_all_hits:
  assumes "map (cached db) ks = map Some vs"
  shows "read_all read env db ks = Some (vs, db)"
  using assms
proof (induction ks arbitrary: vs)
  case (Cons k ks)
  then obtain v ws where "vs = v # ws" "cached db k = Some v" "map (cached db) ks = map Some ws"
    by (cases vs) auto
  then show ?case using Cons.IH hit by simp
qed simp

text \<open>Repeating a sequence of reads needs no RPC and gives the same answers.\<close>

theorem read_all_repeatable:
  assumes "read_all read env db ks = Some (vs, db')"
  shows "read_all read env' db' ks = Some (vs, db')"
  by (rule read_all_hits [OF read_all_cached(1) [OF assms]])

end

text \<open>A cache whose endpoint never makes it panic: every read returns.\<close>

locale total_slot_cache = slot_cache +
  fixes good :: "'a \<Rightarrow> bool"
  assumes total: "good env \<Longrightarrow> \<exists>r. read env db k = Some r"
begin

lemma read_all_total:
  assumes "good env"
  shows "\<exists>r. read_all read env db ks = Some r"
proof (induction ks arbitrary: db)
  case (Cons k ks)
  obtain v db1 where "read env db k = Some (v, db1)" using total [OF assms] by fastforce
  moreover obtain vs db2 where "read_all read env db1 ks = Some (vs, db2)" using Cons.IH by fastforce
  ultimately show ?case by simp
qed simp

end

end
