(* ===== verification/StateDb.thy ===== *)
theory StateDb
  imports RpcText SlotCache
begin

text \<open>
  \<open>src/state_db.rs\<close>: \<open>BlockStateDB\<close>, the in-memory copy of the tracked pools' storage that the EVM
  and the analytical quoters read. Hash maps are maps, hash sets are sets; where the source iterates
  over one, the iteration order is a list argument. Everything that belongs to other crates is in
  \<open>chain_env\<close>: the RPC endpoint, \<open>hex::decode\<close>, \<open>keccak256\<close> (its digest read as a big-endian word),
  \<open>U256::from_str_radix\<close> and revm's default \<open>AccountInfo\<close>. Log lines and their counters are left
  out. The concurrent prefetchers collect their answers in completion order, which is the argument
  \<open>arrive\<close>.
\<close>

section \<open>Data\<close>

record account_info =
  ai_balance :: u256
  ai_nonce :: u64
  ai_code_hash :: u256
  ai_code :: "u8 list option"

datatype insertion_type = OnChain | Custom

record block_state_slot =
  slot_value :: u256
  slot_insertion :: insertion_type

record block_state_account =
  acct_info :: account_info
  acct_storage :: "u256 \<rightharpoonup> block_state_slot"

record block_state_db =
  db_accounts :: "address \<rightharpoonup> block_state_account"
  db_block_number :: u64
  db_tracked_pools :: "address set"
  db_pancake_v3_pools :: "address set"

datatype block_tag = Latest | AtBlock u64

datatype rpc_request =
    EthGetStorageAt address u256 block_tag
  | EthGetCode address block_tag
  | EthGetBalance address block_tag
  | EthGetTransactionCount address block_tag

record chain_env =
  env_rpc :: "rpc_request \<Rightarrow> string option"
  env_hex_decode :: "string \<Rightarrow> u8 list option"
  env_keccak :: "u8 list \<Rightarrow> u256"
  env_u256_from_hex :: "string \<Rightarrow> u256 option"
  env_default_info :: account_info

definition V2_RESERVES_SLOT :: u256 where "V2_RESERVES_SLOT = 8"
definition V2_TOKEN0_SLOT :: u256 where "V2_TOKEN0_SLOT = 6"
definition V2_TOKEN1_SLOT :: u256 where "V2_TOKEN1_SLOT = 7"
definition V3_SLOT0 :: u256 where "V3_SLOT0 = 0"
definition V3_SLOT0_OVERFLOW :: u256 where "V3_SLOT0_OVERFLOW = 1"
definition V3_LIQUIDITY_SLOT :: u256 where "V3_LIQUIDITY_SLOT = 4"
definition V3_LIQUIDITY_SLOT_PANCAKE :: u256 where "V3_LIQUIDITY_SLOT_PANCAKE = 5"
definition V3_TICK_SPACING_SLOT :: u256 where "V3_TICK_SPACING_SLOT = 14"

lemmas slot_defs =
  V2_RESERVES_SLOT_def V2_TOKEN0_SLOT_def V2_TOKEN1_SLOT_def V3_SLOT0_def V3_SLOT0_OVERFLOW_def
  V3_LIQUIDITY_SLOT_def V3_LIQUIDITY_SLOT_PANCAKE_def

section \<open>Slot derivation\<close>

definition i256_bytes :: "32 word \<Rightarrow> u8 list" where
  "i256_bytes v = (if 0 \<le>s v then replicate 28 0 @ be_bytes 4 v else replicate 28 0xff @ be_bytes 4 v)"

definition v3_tick_slot_base :: "(u8 list \<Rightarrow> u256) \<Rightarrow> 32 word \<Rightarrow> u64 \<Rightarrow> u256" where
  "v3_tick_slot_base keccak tick base = keccak (i256_bytes tick @ be_bytes 32 (ucast base :: u256))"

definition v3_tick_slot :: "(u8 list \<Rightarrow> u256) \<Rightarrow> 32 word \<Rightarrow> u256" where
  "v3_tick_slot keccak tick = v3_tick_slot_base keccak tick 5"

definition v3_tick_bitmap_slot_base :: "(u8 list \<Rightarrow> u256) \<Rightarrow> 16 word \<Rightarrow> u64 \<Rightarrow> u256" where
  "v3_tick_bitmap_slot_base keccak word_pos base =
    keccak (i256_bytes (scast word_pos) @ be_bytes 32 (ucast base :: u256))"

definition v3_tick_bitmap_slot :: "(u8 list \<Rightarrow> u256) \<Rightarrow> 16 word \<Rightarrow> u256" where
  "v3_tick_bitmap_slot keccak word_pos = v3_tick_bitmap_slot_base keccak word_pos 6"

section \<open>Operations on the cached state\<close>

definition state_db_new :: "u64 \<Rightarrow> block_state_db" where
  "state_db_new block_number =
    \<lparr> db_accounts = Map.empty, db_block_number = block_number, db_tracked_pools = {},
      db_pancake_v3_pools = {} \<rparr>"

definition track_pool :: "address \<Rightarrow> block_state_db \<Rightarrow> block_state_db" where
  "track_pool pool db = db\<lparr>db_tracked_pools := insert pool (db_tracked_pools db)\<rparr>"

definition set_block :: "u64 \<Rightarrow> block_state_db \<Rightarrow> block_state_db" where
  "set_block n db = db\<lparr>db_block_number := n\<rparr>"

text \<open>\<open>accounts.entry(a).or_insert_with(..)\<close>: the account there, or a new one with empty storage.\<close>

definition account_or :: "account_info \<Rightarrow> address \<Rightarrow> block_state_db \<Rightarrow> block_state_account" where
  "account_or info a db =
    (case db_accounts db a of
       Some acct \<Rightarrow> acct
     | None \<Rightarrow> \<lparr> acct_info = info, acct_storage = Map.empty \<rparr>)"

definition put_account :: "address \<Rightarrow> block_state_account \<Rightarrow> block_state_db \<Rightarrow> block_state_db" where
  "put_account a acct db = db\<lparr>db_accounts := (db_accounts db)(a \<mapsto> acct)\<rparr>"

definition put_slot :: "u256 \<Rightarrow> u256 \<Rightarrow> insertion_type \<Rightarrow> block_state_account \<Rightarrow> block_state_account" where
  "put_slot slot value ty acct =
    acct\<lparr>acct_storage := (acct_storage acct)(slot \<mapsto> \<lparr> slot_value = value, slot_insertion = ty \<rparr>)\<rparr>"

definition update_slot ::
    "account_info \<Rightarrow> address \<Rightarrow> u256 \<Rightarrow> u256 \<Rightarrow> block_state_db \<Rightarrow> block_state_db" where
  "update_slot default_info a slot value db =
    put_account a (put_slot slot value OnChain (account_or default_info a db)) db"

definition inject_account :: "address \<Rightarrow> account_info \<Rightarrow> block_state_db \<Rightarrow> block_state_db" where
  "inject_account a info db =
    put_account a ((account_or info a db)\<lparr>acct_info := info\<rparr>) db"

definition deploy_stub ::
    "account_info \<Rightarrow> u256 \<Rightarrow> u8 list \<Rightarrow> address \<Rightarrow> block_state_db \<Rightarrow> block_state_db" where
  "deploy_stub default_info code_hash code a db =
    (let acct = account_or default_info a db
     in put_account a
          (acct\<lparr>acct_info := (acct_info acct)\<lparr>ai_code_hash := code_hash, ai_code := Some code\<rparr>\<rparr>) db)"

definition has_code :: "block_state_db \<Rightarrow> address \<Rightarrow> bool" where
  "has_code db a =
    (case db_accounts db a of Some acct \<Rightarrow> ai_code (acct_info acct) \<noteq> None | None \<Rightarrow> False)"

definition stub_bytecode :: "u8 list" where
  "stub_bytecode = [0x60, 0x01, 0x60, 0x00, 0x52, 0x60, 0x20, 0x60, 0x00, 0xf3]"

definition deploy_token_stubs :: "chain_env \<Rightarrow> address list \<Rightarrow> block_state_db \<Rightarrow> block_state_db" where
  "deploy_token_stubs env token_addresses db =
    fold (\<lambda>a db. if has_code db a then db
                 else deploy_stub (env_default_info env) (env_keccak env stub_bytecode) stub_bytecode a db)
      token_addresses db"

section \<open>Reading pool state\<close>

definition slot_of :: "block_state_db \<Rightarrow> address \<Rightarrow> u256 \<Rightarrow> u256 option" where
  "slot_of db a slot =
    (case db_accounts db a of
       None \<Rightarrow> None
     | Some acct \<Rightarrow> map_option slot_value (acct_storage acct slot))"

definition read_v2_reserves :: "block_state_db \<Rightarrow> address \<Rightarrow> (u256 \<times> u256) option" where
  "read_v2_reserves db pool =
    map_option
      (\<lambda>packed. let mask_112 = (shl 1 112) - 1
                in (packed AND mask_112, shr packed 112 AND mask_112))
      (slot_of db pool V2_RESERVES_SLOT)"

definition read_v3_slot0 :: "block_state_db \<Rightarrow> address \<Rightarrow> (u256 \<times> 32 word) option" where
  "read_v3_slot0 db pool =
    map_option
      (\<lambda>packed.
         let mask_160 = (shl 1 160) - 1;
             sqrt_price_x96 = packed AND mask_160;
             tick_raw = ucast (shr packed 160 AND 0xFFFFFF) :: u32;
             tick = (if tick_raw AND 0x800000 \<noteq> 0 then tick_raw OR 0xFF000000 else tick_raw)
         in (sqrt_price_x96, tick))
      (slot_of db pool V3_SLOT0)"

definition read_v3_liquidity :: "block_state_db \<Rightarrow> address \<Rightarrow> u128 option" where
  "read_v3_liquidity db pool =
    (let val = (\<lambda>slot. map_option (\<lambda>v. ucast v :: u128) (slot_of db pool slot))
     in case val V3_LIQUIDITY_SLOT of
          Some l \<Rightarrow>
            if 0 < l then Some l
            else (case val V3_LIQUIDITY_SLOT_PANCAKE of
                    Some p \<Rightarrow> if 0 < p then Some p else Some l
                  | None \<Rightarrow> Some l)
        | None \<Rightarrow> val V3_LIQUIDITY_SLOT_PANCAKE)"

definition tick_base :: "block_state_db \<Rightarrow> address \<Rightarrow> u64" where
  "tick_base db pool = (if pool \<in> db_pancake_v3_pools db then 6 else 5)"

definition bitmap_base :: "block_state_db \<Rightarrow> address \<Rightarrow> u64" where
  "bitmap_base db pool = (if pool \<in> db_pancake_v3_pools db then 7 else 6)"

text \<open>Gross liquidity (unsigned) and net liquidity (an \<open>i128\<close>, the same bits read signed).\<close>

definition read_v3_tick ::
    "(u8 list \<Rightarrow> u256) \<Rightarrow> block_state_db \<Rightarrow> address \<Rightarrow> 32 word \<Rightarrow> (u128 \<times> 128 word) option" where
  "read_v3_tick keccak db pool tick =
    map_option
      (\<lambda>packed. let mask_128 = (shl 1 128) - 1
                in (ucast (packed AND mask_128), ucast (shr packed 128 AND mask_128)))
      (slot_of db pool (v3_tick_slot_base keccak tick (tick_base db pool)))"

definition read_v3_tick_bitmap ::
    "(u8 list \<Rightarrow> u256) \<Rightarrow> block_state_db \<Rightarrow> address \<Rightarrow> 16 word \<Rightarrow> u256 option" where
  "read_v3_tick_bitmap keccak db pool word_pos =
    slot_of db pool (v3_tick_bitmap_slot_base keccak word_pos (bitmap_base db pool))"

section \<open>RPC-backed operations\<close>

definition block_tag_of :: "block_state_db \<Rightarrow> block_tag" where
  "block_tag_of db = (if db_block_number db = 0 then Latest else AtBlock (db_block_number db))"

definition fetch_storage_blocking :: "chain_env \<Rightarrow> block_state_db \<Rightarrow> address \<Rightarrow> u256 \<Rightarrow> u256 run" where
  "fetch_storage_blocking env db a slot =
    parse_storage_answer_exact (env_hex_decode env)
      (env_rpc env (EthGetStorageAt a slot (block_tag_of db)))"

definition fetch_code_blocking :: "chain_env \<Rightarrow> block_state_db \<Rightarrow> address \<Rightarrow> u8 list" where
  "fetch_code_blocking env db a =
    parse_code_answer (env_hex_decode env) (env_rpc env (EthGetCode a (block_tag_of db)))"

definition fetch_account_blocking :: "chain_env \<Rightarrow> block_state_db \<Rightarrow> address \<Rightarrow> account_info" where
  "fetch_account_blocking env db a =
    (let tag = block_tag_of db;
         balance = (case env_rpc env (EthGetBalance a tag) of
                      None \<Rightarrow> 0
                    | Some s \<Rightarrow> (case env_u256_from_hex env (trim_0x s) of None \<Rightarrow> 0 | Some b \<Rightarrow> b));
         nonce = (case env_rpc env (EthGetTransactionCount a tag) of
                    None \<Rightarrow> 0
                  | Some s \<Rightarrow> (case u64_from_hex (trim_0x s) of None \<Rightarrow> 0 | Some n \<Rightarrow> n));
         code = parse_code_answer (env_hex_decode env) (env_rpc env (EthGetCode a tag))
     in \<lparr> ai_balance = balance, ai_nonce = nonce,
          ai_code_hash = env_keccak env code,
          ai_code = (if code = [] then None else Some code) \<rparr>)"

definition inject_slot ::
    "chain_env \<Rightarrow> address \<Rightarrow> u256 \<Rightarrow> u256 \<Rightarrow> block_state_db \<Rightarrow> block_state_db" where
  "inject_slot env a slot value db =
    (let acct = (case db_accounts db a of
                   Some acct \<Rightarrow> acct
                 | None \<Rightarrow> \<lparr> acct_info = fetch_account_blocking env db a, acct_storage = Map.empty \<rparr>)
     in put_account a (put_slot slot value Custom acct) db)"

text \<open>The \<open>Database\<close> interface of the EVM.\<close>

definition db_basic :: "chain_env \<Rightarrow> address \<Rightarrow> block_state_db \<Rightarrow> account_info \<times> block_state_db" where
  "db_basic env a db =
    (case db_accounts db a of
       Some acct \<Rightarrow>
         (let info = acct_info acct
          in if ai_code info = None \<and> ai_code_hash info = env_keccak env []
             then (let code = fetch_code_blocking env db a
                   in if code \<noteq> []
                      then (let info' = info\<lparr>ai_code_hash := env_keccak env code, ai_code := Some code\<rparr>
                            in (info', put_account a (acct\<lparr>acct_info := info'\<rparr>) db))
                      else (info, db))
             else (info, db))
     | None \<Rightarrow>
         (let info = fetch_account_blocking env db a
          in (info, put_account a \<lparr> acct_info = info, acct_storage = Map.empty \<rparr> db)))"

text \<open>
  \<open>infos\<close> lists the account infos in the iteration order of the map; the first with the hash
  decides. \<open>default_code\<close> is revm's default bytecode.
\<close>

fun code_by_hash_loop :: "u8 list \<Rightarrow> u256 \<Rightarrow> account_info list \<Rightarrow> u8 list" where
  "code_by_hash_loop default_code h [] = default_code"
| "code_by_hash_loop default_code h (i # infos) =
    (if ai_code_hash i = h
     then (case ai_code i of Some c \<Rightarrow> c | None \<Rightarrow> default_code)
     else code_by_hash_loop default_code h infos)"

definition db_code_by_hash :: "chain_env \<Rightarrow> u8 list \<Rightarrow> u256 \<Rightarrow> account_info list \<Rightarrow> u8 list" where
  "db_code_by_hash env default_code h infos =
    (if h = 0 \<or> h = env_keccak env [] then default_code
     else code_by_hash_loop default_code h infos)"

definition db_storage :: "chain_env \<Rightarrow> address \<Rightarrow> u256 \<Rightarrow> block_state_db \<Rightarrow> (u256 \<times> block_state_db) run"
where
  "db_storage env a index db =
    (case slot_of db a index of
       Some v \<Rightarrow> Some (v, db)
     | None \<Rightarrow>
         do {
           v \<leftarrow> fetch_storage_blocking env db a index;
           Some (v, update_slot (env_default_info env) a index v db)
         })"

text \<open>
  The result of an execution that \<open>commit\<close> writes back: per account whether revm calls it empty,
  its info, and its storage with the \<open>is_changed\<close> flag and the present value of each slot.
\<close>

record evm_account =
  ea_is_empty :: bool
  ea_info :: account_info
  ea_storage :: "(u256 \<times> bool \<times> u256) list"

definition commit_account ::
    "account_info \<Rightarrow> address \<times> evm_account \<Rightarrow> block_state_db \<Rightarrow> block_state_db" where
  "commit_account default_info aa db =
    (case aa of (a, ea) \<Rightarrow>
       if ea_is_empty ea then db
       else
         let acct = (account_or default_info a db)\<lparr>acct_info := ea_info ea\<rparr>;
             acct = fold (\<lambda>(slot, changed, value) acct.
                            if changed then put_slot slot value Custom acct else acct)
                      (ea_storage ea) acct
         in put_account a acct db)"

definition commit ::
    "account_info \<Rightarrow> (address \<times> evm_account) list \<Rightarrow> block_state_db \<Rightarrow> block_state_db" where
  "commit default_info changes db = fold (commit_account default_info) changes db"

text \<open>\<open>apply_state_diffs\<close>; the two nested maps are lists in their iteration order.\<close>

definition apply_account_diffs ::
    "account_info \<Rightarrow> address \<times> (u256 \<times> u256) list \<Rightarrow> block_state_db \<Rightarrow> block_state_db" where
  "apply_account_diffs default_info ad db =
    (case ad of (a, slots) \<Rightarrow>
       if a \<notin> db_tracked_pools db then db
       else fold (\<lambda>(slot, value). update_slot default_info a slot value) slots db)"

definition apply_state_diffs ::
    "account_info \<Rightarrow> (address \<times> (u256 \<times> u256) list) list \<Rightarrow> block_state_db \<Rightarrow> block_state_db" where
  "apply_state_diffs default_info diffs db = fold (apply_account_diffs default_info) diffs db"

section \<open>Prefetchers\<close>

definition prefetch_pool_codes ::
    "chain_env \<Rightarrow> (address list \<Rightarrow> address list) \<Rightarrow> address list \<Rightarrow> block_state_db \<Rightarrow> block_state_db" where
  "prefetch_pool_codes env arrive pools db =
    (let needs_code = filter (\<lambda>a. \<not> has_code db a) pools;
         results = map (\<lambda>a. (a, parse_code_answer (env_hex_decode env) (env_rpc env (EthGetCode a Latest))))
                     (arrive needs_code)
     in fold (\<lambda>(a, code) db. if code = [] then db
                             else deploy_stub (env_default_info env) (env_keccak env code) code a db)
          results db)"

definition is_cached :: "block_state_db \<Rightarrow> address \<Rightarrow> u256 \<Rightarrow> bool" where
  "is_cached db a slot =
    (case db_accounts db a of Some acct \<Rightarrow> slot \<in> dom (acct_storage acct) | None \<Rightarrow> False)"

definition fetch_latest :: "chain_env \<Rightarrow> address \<times> u256 \<Rightarrow> ((address \<times> u256) \<times> u256) run" where
  "fetch_latest env key =
    map_option (\<lambda>v. (key, v))
      (parse_storage_answer (env_hex_decode env)
        (env_rpc env (EthGetStorageAt (fst key) (snd key) Latest)))"

definition missing_slots :: "block_state_db \<Rightarrow> u256 list \<Rightarrow> address list \<Rightarrow> (address \<times> u256) list" where
  "missing_slots db slots pools =
    [(a, slot). a \<leftarrow> pools, slot \<leftarrow> slots, \<not> is_cached db a slot]"

definition store_results ::
    "account_info \<Rightarrow> ((address \<times> u256) \<times> u256) list \<Rightarrow> block_state_db \<Rightarrow> block_state_db" where
  "store_results default_info results db =
    fold (\<lambda>((a, slot), value). update_slot default_info a slot value) results db"

type_synonym arrival = "(address \<times> u256) list \<Rightarrow> (address \<times> u256) list"

definition prefetch_token_slots ::
    "chain_env \<Rightarrow> arrival \<Rightarrow> address list \<Rightarrow> block_state_db \<Rightarrow> block_state_db run" where
  "prefetch_token_slots env arrive pools db =
    do {
      results \<leftarrow> those (map (fetch_latest env)
                   (arrive (missing_slots db [V2_TOKEN0_SLOT, V2_TOKEN1_SLOT] pools)));
      Some (store_results (env_default_info env) (filter (\<lambda>(k, v). v \<noteq> 0) results) db)
    }"

definition prefetch_v3_slots ::
    "chain_env \<Rightarrow> arrival \<Rightarrow> address list \<Rightarrow> block_state_db \<Rightarrow> block_state_db run" where
  "prefetch_v3_slots env arrive pools db =
    do {
      results \<leftarrow> those (map (fetch_latest env)
                   (arrive (missing_slots db
                     [V3_SLOT0, V3_SLOT0_OVERFLOW, V3_LIQUIDITY_SLOT, V3_LIQUIDITY_SLOT_PANCAKE] pools)));
      Some (store_results (env_default_info env) results db)
    }"

text \<open>\<open>i16::saturating_add\<close>, and the arithmetic shift \<open>>> 8\<close> of an \<open>i32\<close> cast to \<open>i16\<close>.\<close>

definition sat_add_i16 :: "16 word \<Rightarrow> int \<Rightarrow> 16 word" where
  "sat_add_i16 a b = word_of_int (max (- 32768) (min 32767 (sint a + b)))"

definition word_pos_of :: "32 word \<Rightarrow> 16 word" where
  "word_pos_of compressed = word_of_int (sint compressed div 256)"

definition TICK_BITMAP_RANGE :: int where
  "TICK_BITMAP_RANGE = 4"

definition register_pancake ::
    "(address \<times> 32 word \<times> bool) list \<Rightarrow> block_state_db \<Rightarrow> block_state_db" where
  "register_pancake v3_pools db =
    db\<lparr>db_pancake_v3_pools :=
        fold (\<lambda>(pool, ts, is_pancake) S. if is_pancake then insert pool S else S) v3_pools
          (db_pancake_v3_pools db)\<rparr>"

text \<open>The bitmap words around the current tick that are not cached yet.\<close>

definition bitmap_requests ::
    "(u8 list \<Rightarrow> u256) \<Rightarrow> block_state_db \<Rightarrow> address \<times> 32 word \<times> bool \<Rightarrow> (address \<times> 16 word \<times> u256) list" where
  "bitmap_requests keccak db p =
    (case p of (pool, tick_spacing, is_pancake) \<Rightarrow>
       if tick_spacing \<le>s 0 then []
       else (case read_v3_slot0 db pool of
               None \<Rightarrow> []
             | Some (_, current_tick) \<Rightarrow>
                 (let bm_base = (if is_pancake then 7 else 6);
                      current_word = word_pos_of (current_tick sdiv tick_spacing);
                      wanted = map (\<lambda>offset.
                                 let word_pos = sat_add_i16 current_word offset
                                 in (pool, word_pos, v3_tick_bitmap_slot_base keccak word_pos bm_base))
                               [- TICK_BITMAP_RANGE..TICK_BITMAP_RANGE]
                  in filter (\<lambda>(pool, _, bm_slot). \<not> is_cached db pool bm_slot) wanted)))"

text \<open>The initialized ticks of one fetched bitmap word that are not cached yet.\<close>

definition actual_tick :: "16 word \<Rightarrow> nat \<Rightarrow> 32 word \<Rightarrow> 32 word" where
  "actual_tick word_pos bit_pos tick_spacing = (scast word_pos * 256 + of_nat bit_pos) * tick_spacing"

definition tick_requests ::
    "(u8 list \<Rightarrow> u256) \<Rightarrow> (address \<rightharpoonup> 32 word) \<Rightarrow> block_state_db \<Rightarrow>
     (address \<times> 16 word \<times> u256) \<times> u256 \<Rightarrow> (address \<times> u256) list" where
  "tick_requests keccak pool_tick_spacing db r =
    (case r of ((pool, word_pos, _), bitmap_value) \<Rightarrow>
       if bitmap_value = 0 then []
       else (case pool_tick_spacing pool of
               None \<Rightarrow> []
             | Some tick_spacing \<Rightarrow>
                 (let slots = map (\<lambda>b. v3_tick_slot_base keccak (actual_tick word_pos b tick_spacing)
                                         (tick_base db pool))
                               (filter (\<lambda>b. bit bitmap_value b) [0..<256])
                  in map (\<lambda>slot. (pool, slot)) (filter (\<lambda>slot. \<not> is_cached db pool slot) slots))))"

definition bitmap_batch ::
    "(u8 list \<Rightarrow> u256) \<Rightarrow> block_state_db \<Rightarrow> (address \<times> 32 word \<times> bool) list \<Rightarrow>
     (address \<times> 16 word \<times> u256) list" where
  "bitmap_batch keccak db v3_pools = concat (map (bitmap_requests keccak db) v3_pools)"

definition fetch_bitmap ::
    "chain_env \<Rightarrow> address \<times> 16 word \<times> u256 \<Rightarrow> ((address \<times> 16 word \<times> u256) \<times> u256) run" where
  "fetch_bitmap env r = map_option (\<lambda>kv. (r, snd kv)) (fetch_latest env (fst r, snd (snd r)))"

definition store_bitmaps ::
    "account_info \<Rightarrow> ((address \<times> 16 word \<times> u256) \<times> u256) list \<Rightarrow> block_state_db \<Rightarrow> block_state_db" where
  "store_bitmaps default_info bm_results db =
    store_results default_info
      (map (\<lambda>((pool, _, bm_slot), value). ((pool, bm_slot), value)) bm_results) db"

definition tick_batch ::
    "(u8 list \<Rightarrow> u256) \<Rightarrow> (address \<rightharpoonup> 32 word) \<Rightarrow> block_state_db \<Rightarrow>
     ((address \<times> 16 word \<times> u256) \<times> u256) list \<Rightarrow> (address \<times> u256) list" where
  "tick_batch keccak pool_tick_spacing db bm_results =
    concat (map (tick_requests keccak pool_tick_spacing db) bm_results)"

definition prefetch_ticks ::
    "chain_env \<Rightarrow> arrival \<Rightarrow> (address \<rightharpoonup> 32 word) \<Rightarrow>
     ((address \<times> 16 word \<times> u256) \<times> u256) list \<Rightarrow> block_state_db \<Rightarrow> block_state_db run" where
  "prefetch_ticks env arrive_ticks pool_tick_spacing bm_results db =
    (let tick_slots_to_fetch = tick_batch (env_keccak env) pool_tick_spacing db bm_results
     in if tick_slots_to_fetch = [] then Some db
        else do {
          tick_results \<leftarrow> those (map (fetch_latest env) (arrive_ticks tick_slots_to_fetch));
          Some (store_results (env_default_info env) tick_results db)
        })"

definition prefetch_v3_tick_data ::
    "chain_env \<Rightarrow>
     ((address \<times> 16 word \<times> u256) list \<Rightarrow> (address \<times> 16 word \<times> u256) list) \<Rightarrow> arrival \<Rightarrow>
     (address \<times> 32 word \<times> bool) list \<Rightarrow> block_state_db \<Rightarrow> block_state_db run" where
  "prefetch_v3_tick_data env arrive_bm arrive_ticks v3_pools db =
    (let db1 = register_pancake v3_pools db;
         bm_to_fetch = bitmap_batch (env_keccak env) db1 v3_pools
     in if bm_to_fetch = [] then Some db1
        else do {
          bm_results \<leftarrow> those (map (fetch_bitmap env) (arrive_bm bm_to_fetch));
          prefetch_ticks env arrive_ticks (map_of (map (\<lambda>(pool, ts, _). (pool, ts)) (rev v3_pools)))
            bm_results (store_bitmaps (env_default_info env) bm_results db1)
        })"

section \<open>The store\<close>

text \<open>What every operation does to the abstract content \<open>slot_of\<close>.\<close>

lemma slot_of_update_slot [simp]:
  "slot_of (update_slot d a s v db) b t = (if b = a \<and> t = s then Some v else slot_of db b t)"
  by (simp add: slot_of_def update_slot_def put_account_def put_slot_def account_or_def
      split: option.split)

lemma slot_of_put_info [simp]:
  "slot_of (put_account a ((account_or i a db)\<lparr>acct_info := j\<rparr>) db) b t = slot_of db b t"
  by (simp add: slot_of_def put_account_def account_or_def split: option.split)

lemma slot_of_inject_account [simp]: "slot_of (inject_account a i db) b t = slot_of db b t"
  by (simp add: inject_account_def)

lemma slot_of_deploy_stub [simp]: "slot_of (deploy_stub d h c a db) b t = slot_of db b t"
  by (simp add: deploy_stub_def Let_def)

lemma slot_of_track_pool [simp]: "slot_of (track_pool p db) b t = slot_of db b t"
  by (simp add: track_pool_def slot_of_def)

lemma slot_of_set_block [simp]: "slot_of (set_block n db) b t = slot_of db b t"
  by (simp add: set_block_def slot_of_def)

lemma slot_of_register_pancake [simp]: "slot_of (register_pancake ps db) b t = slot_of db b t"
  by (simp add: register_pancake_def slot_of_def)

lemma slot_of_inject_slot [simp]:
  "slot_of (inject_slot env a s v db) b t = (if b = a \<and> t = s then Some v else slot_of db b t)"
  by (simp add: slot_of_def inject_slot_def put_account_def put_slot_def Let_def split: option.split)

lemma slot_of_db_basic [simp]: "slot_of (snd (db_basic env a db)) b t = slot_of db b t"
  by (simp add: slot_of_def db_basic_def put_account_def Let_def split: option.split)

lemma is_cached_iff: "is_cached db a s \<longleftrightarrow> slot_of db a s \<noteq> None"
  by (auto simp: is_cached_def slot_of_def split: option.split)

lemma tracked_update_slot [simp]: "db_tracked_pools (update_slot d a s v db) = db_tracked_pools db"
  by (simp add: update_slot_def put_account_def)

lemma pancake_update_slot [simp]: "db_pancake_v3_pools (update_slot d a s v db) = db_pancake_v3_pools db"
  by (simp add: update_slot_def put_account_def)

section \<open>The lazy cache\<close>

text \<open>
  An endpoint whose storage answers are at most 64 hexadecimal digits. Longer answers make the copy
  of the decoded bytes panic.
\<close>

definition storage_answers_ok :: "chain_env \<Rightarrow> bool" where
  "storage_answers_ok env \<longleftrightarrow>
     hex_decode_ok (env_hex_decode env) \<and>
     (\<forall>a s tag answer. env_rpc env (EthGetStorageAt a s tag) = Some answer \<longrightarrow> length (trim_0x answer) \<le> 64)"

lemma fetch_storage_total:
  assumes "storage_answers_ok env"
  shows "\<exists>v. fetch_storage_blocking env db a s = Some v"
proof -
  have "length bs = 32"
    if "env_rpc env (EthGetStorageAt a s tag) = Some t" "env_hex_decode env (pad64 (trim_0x t)) = Some bs"
    for tag t bs
  proof -
    have "length (pad64 (trim_0x t)) = 64"
      using assms that(1) by (auto simp: storage_answers_ok_def pad64_def)
    then show ?thesis
      using assms that(2) by (auto simp: storage_answers_ok_def hex_decode_ok_def)
  qed
  then show ?thesis
    by (force simp: fetch_storage_blocking_def parse_storage_answer_exact_def split: option.split)
qed

lemma db_storage_hit: "slot_of db a i = Some v \<Longrightarrow> db_storage env a i db = Some (v, db)"
  by (simp add: db_storage_def)

lemma db_storage_miss:
  assumes "slot_of db a i = None" "db_storage env a i db = Some (v, db')"
  shows "db' = update_slot (env_default_info env) a i v db"
  using assms by (auto simp: db_storage_def split: bind_splits)

interpretation state_cache: total_slot_cache
  "\<lambda>env db (a, i). db_storage env a i db" "\<lambda>db (a, i). slot_of db a i" storage_answers_ok
proof unfold_locales
  fix db :: block_state_db and k v env db'
  show "(case k of (a, i) \<Rightarrow> slot_of db a i) = Some v \<Longrightarrow>
        (case k of (a, i) \<Rightarrow> db_storage env a i db) = Some (v, db)"
    by (cases k) (simp add: db_storage_hit)
  show "(case k of (a, i) \<Rightarrow> slot_of db a i) = None \<Longrightarrow>
        (case k of (a, i) \<Rightarrow> db_storage env a i db) = Some (v, db') \<Longrightarrow>
        (\<lambda>(a, i). slot_of db' a i) = (\<lambda>(a, i). slot_of db a i)(k \<mapsto> v)"
    by (cases k) (auto dest: db_storage_miss simp: fun_eq_iff)
next
  fix env and db :: block_state_db and k :: "address \<times> u256"
  assume "storage_answers_ok env"
  then show "\<exists>r. (case k of (a, i) \<Rightarrow> db_storage env a i db) = Some r"
    using fetch_storage_total [of env db "fst k" "snd k"]
    by (cases k) (auto simp: db_storage_def split: option.split)
qed

section \<open>Packed slots\<close>

lemma and_low_mask: "x AND (shl 1 n - 1) = take_bit n (x :: 'a::len word)"
  by (simp add: push_bit_of_1 take_bit_eq_mask mask_eq_exp_minus_1)

lemma bit_of_small:
  assumes "unat (x :: 'a::len word) < 2 ^ n" "n \<le> k"
  shows "\<not> bit x k"
proof -
  have "take_bit n x = x"
    using assms(1) by (simp add: word_unat_eq_iff unsigned_take_bit_eq take_bit_nat_eq_self)
  then have "bit x k \<Longrightarrow> k < n" by (metis bit_take_bit_iff)
  then show ?thesis using assms(2) by auto
qed

text \<open>The storage word of a V2 pair, \<open>reserve0:uint112 | reserve1:uint112 | timestamp:uint32\<close>.\<close>

definition pack_reserves :: "u256 \<Rightarrow> u256 \<Rightarrow> u32 \<Rightarrow> u256" where
  "pack_reserves r0 r1 ts = r0 OR shl r1 112 OR shl (ucast ts) 224"

text \<open>\<open>slot0\<close> of a V3 pool: the square root price, the 24-bit tick, and whatever else is packed above.\<close>

definition pack_slot0 :: "u256 \<Rightarrow> 32 word \<Rightarrow> 72 word \<Rightarrow> u256" where
  "pack_slot0 sqrt_price tick rest =
     sqrt_price OR shl (ucast tick AND 0xFFFFFF) 160 OR shl (ucast rest) 184"

lemma and_ffffff: "x AND 0xFFFFFF = take_bit 24 (x :: 'a::len word)"
proof -
  have "(0xFFFFFF :: 'a word) = mask 24" by (simp add: mask_eq_exp_minus_1)
  then show ?thesis by (simp only: take_bit_eq_mask)
qed

lemmas bit_pack = bit_or_iff bit_push_bit_iff bit_take_bit_iff bit_drop_bit_eq bit_unsigned_iff not_less

lemma unpack_reserves:
  assumes "unat r0 < 2 ^ 112" "unat r1 < 2 ^ 112"
  shows "take_bit 112 (pack_reserves r0 r1 ts) = r0"
    and "take_bit 112 (shr (pack_reserves r0 r1 ts) 112) = r1"
proof -
  note small = bit_of_small [OF assms(1)] bit_of_small [OF assms(2)]
  show "take_bit 112 (pack_reserves r0 r1 ts) = r0"
    by (rule bit_word_eqI) (use small in \<open>force simp: pack_reserves_def bit_pack\<close>)
  show "take_bit 112 (shr (pack_reserves r0 r1 ts) 112) = r1"
    by (rule bit_word_eqI) (use small in \<open>force simp: pack_reserves_def bit_pack\<close>)
qed

lemma unpack_slot0:
  assumes "unat sqrt_price < 2 ^ 160"
  shows "take_bit 160 (pack_slot0 sqrt_price tick rest) = sqrt_price"
    and "take_bit 24 (shr (pack_slot0 sqrt_price tick rest) 160) = take_bit 24 (ucast tick)"
proof -
  note small = bit_of_small [OF assms]
  show "take_bit 160 (pack_slot0 sqrt_price tick rest) = sqrt_price"
    unfolding pack_slot0_def and_ffffff
    by (rule bit_word_eqI) (use small in \<open>force simp: bit_pack\<close>)
  show "take_bit 24 (shr (pack_slot0 sqrt_price tick rest) 160) = take_bit 24 (ucast tick)"
    unfolding pack_slot0_def and_ffffff
    by (rule bit_word_eqI) (use small in \<open>force simp: bit_pack\<close>)
qed

text \<open>The sign extension of the 24-bit tick recovers every tick in the 24-bit range.\<close>

lemma sign_extend_24:
  fixes t :: "32 word"
  assumes "- (2 ^ 23) \<le> sint t" "sint t < 2 ^ 23"
  shows "(let r = take_bit 24 t in if r AND 0x800000 \<noteq> 0 then r OR 0xFF000000 else r) = t"
proof -
  have top: "bit t k = bit t 23" if "23 \<le> k" "k < 32" for k
  proof -
    have "sint t = signed_take_bit 23 (sint t)"
      using assms by (simp add: signed_take_bit_int_eq_self)
    then have "bit (sint t) k = bit (sint t) 23"
      using that(1) by (metis bit_signed_take_bit_iff min.absorb1 possible_bit_int)
    then show ?thesis using that by (simp add: bit_sint_iff)
  qed
  have test: "take_bit 24 t AND 0x800000 \<noteq> 0 \<longleftrightarrow> bit t 23"
  proof -
    have "(0x800000 :: 32 word) = 2 ^ 23" by simp
    then show ?thesis by (simp only: and_exp_eq_0_iff_not_bit) (simp add: bit_take_bit_iff)
  qed
  have high: "bit (0xFF000000 :: 32 word) k \<longleftrightarrow> 24 \<le> k \<and> k < 32" for k
  proof -
    have "(0xFF000000 :: 32 word) = push_bit 24 (mask 8)" by (simp add: mask_eq_exp_minus_1)
    then show ?thesis by (simp only: bit_push_bit_iff bit_mask_iff) auto
  qed
  show ?thesis
    unfolding Let_def test
  proof (rule bit_word_eqI)
    fix k :: nat
    assume "k < LENGTH(32)"
    then show "bit (if bit t 23 then take_bit 24 t OR 0xFF000000 else take_bit 24 t) k = bit t k"
      using top [of k] high [of k] by (cases "k < 24") (simp_all add: bit_take_bit_iff bit_or_iff)
  qed
qed

lemma take_bit_ucast_back:
  "ucast (take_bit 24 (ucast (t :: 32 word) :: u256)) = (take_bit 24 t :: 32 word)"
  by (rule bit_word_eqI) (auto simp: bit_unsigned_iff bit_take_bit_iff)

lemma read_v2_reserves_packed:
  assumes "unat r0 < 2 ^ 112" "unat r1 < 2 ^ 112"
  shows "read_v2_reserves (update_slot d pool V2_RESERVES_SLOT (pack_reserves r0 r1 ts) db) pool
           = Some (r0, r1)"
  unfolding read_v2_reserves_def slot_of_update_slot Let_def and_low_mask
  using unpack_reserves [OF assms] by simp

lemma read_v3_slot0_packed:
  assumes "unat sqrt_price < 2 ^ 160" "- (2 ^ 23) \<le> sint tick" "sint tick < 2 ^ 23"
  shows "read_v3_slot0 (update_slot d pool V3_SLOT0 (pack_slot0 sqrt_price tick rest) db) pool
           = Some (sqrt_price, tick)"
  unfolding read_v3_slot0_def slot_of_update_slot Let_def and_low_mask and_ffffff
  using unpack_slot0 [OF assms(1), of tick rest] sign_extend_24 [OF assms(2,3)]
  by (simp add: Let_def take_bit_ucast_back split: if_splits)

section \<open>Slot keys\<close>

lemma length_i256_bytes [simp]: "length (i256_bytes v) = 32"
  by (simp add: i256_bytes_def)

lemma drop_i256_bytes: "drop 28 (i256_bytes v) = be_bytes 4 v"
  by (simp add: i256_bytes_def)

lemma i256_bytes_inj: "i256_bytes v = i256_bytes w \<longleftrightarrow> v = w"
  using be_bytes_inj [of 4 v w] by (auto dest: arg_cong [of _ _ "drop 28"] simp: drop_i256_bytes)

text \<open>The 64 bytes hashed for a slot determine the tick (or word position) and the mapping base.\<close>

lemma slot_preimage_inj:
  fixes b c :: u64
  shows "i256_bytes v @ be_bytes 32 (ucast b :: u256) = i256_bytes w @ be_bytes 32 (ucast c :: u256)
           \<longleftrightarrow> v = w \<and> b = c"
proof -
  have "be_bytes 32 (ucast b :: u256) = be_bytes 32 (ucast c :: u256) \<Longrightarrow> b = c"
    using be_bytes_inj [of 32 "ucast b :: u256" "ucast c"]
    by (simp add: word_unat_eq_iff unat_ucast_up)
  then show ?thesis by (auto simp: i256_bytes_inj)
qed

lemma scast_16_32_inj: "(scast (x :: 16 word) :: 32 word) = scast y \<longleftrightarrow> x = y"
proof
  have low: "ucast (scast z :: 32 word) = z" for z :: "16 word"
    by (rule bit_word_eqI) (auto simp: bit_unsigned_iff bit_signed_iff)
  assume "(scast x :: 32 word) = scast y"
  then show "x = y" by (metis low)
qed simp

section \<open>Batches of writes\<close>

lemma fold_update_slots:
  "slot_of (fold (\<lambda>(slot, value). update_slot d a slot value) slots db) b t =
     (if b = a then (case map_of (rev slots) t of Some v \<Rightarrow> Some v | None \<Rightarrow> slot_of db b t)
      else slot_of db b t)"
  by (induction slots arbitrary: db) (auto simp: map_add_def split: option.split)

lemma store_results_slot:
  "slot_of (store_results d rs db) a s =
     (case map_of (rev rs) (a, s) of Some v \<Rightarrow> Some v | None \<Rightarrow> slot_of db a s)"
  unfolding store_results_def
  by (induction rs arbitrary: db) (auto simp: map_add_def split: option.split)

lemma tracked_fold_update [simp]:
  "db_tracked_pools (fold (\<lambda>(slot, value). update_slot d a slot value) slots db) = db_tracked_pools db"
  by (induction slots arbitrary: db) auto

lemma tracked_apply_account_diffs [simp]:
  "db_tracked_pools (apply_account_diffs d ad db) = db_tracked_pools db"
  by (cases ad) (simp add: apply_account_diffs_def)

lemma apply_account_diffs_slot:
  "slot_of (apply_account_diffs d (a, slots) db) b t =
     (if b = a \<and> a \<in> db_tracked_pools db
      then (case map_of (rev slots) t of Some v \<Rightarrow> Some v | None \<Rightarrow> slot_of db b t)
      else slot_of db b t)"
  by (auto simp: apply_account_diffs_def fold_update_slots)

lemma apply_state_diffs_slot:
  assumes "distinct (map fst diffs)"
  shows "slot_of (apply_state_diffs d diffs db) b t =
     (if b \<in> db_tracked_pools db
      then (case map_of diffs b of
              None \<Rightarrow> slot_of db b t
            | Some slots \<Rightarrow> (case map_of (rev slots) t of Some v \<Rightarrow> Some v | None \<Rightarrow> slot_of db b t))
      else slot_of db b t)"
  using assms unfolding apply_state_diffs_def
proof (induction diffs arbitrary: db)
  case (Cons ad diffs)
  obtain a slots where ad: "ad = (a, slots)" by (cases ad)
  then have "map_of diffs a = None" using Cons.prems by (simp add: map_of_eq_None_iff)
  then show ?case
    using Cons by (auto simp: ad apply_account_diffs_slot split: option.split)
qed simp

subsection \<open>Commits\<close>

lemma fold_commit_slots:
  "acct_storage
     (fold (\<lambda>(slot, changed, value) acct. if changed then put_slot slot value Custom acct else acct)
        slots acct) t =
   (case map_of (rev (map (\<lambda>(s, c, v). (s, v)) (filter (\<lambda>(s, c, v). c) slots))) t of
      Some v \<Rightarrow> Some \<lparr> slot_value = v, slot_insertion = Custom \<rparr>
    | None \<Rightarrow> acct_storage acct t)"
  by (induction slots arbitrary: acct) (auto simp: put_slot_def map_add_def split: option.split)

definition changed_slots :: "evm_account \<Rightarrow> (u256 \<times> u256) list" where
  "changed_slots ea = map (\<lambda>(s, c, v). (s, v)) (filter (\<lambda>(s, c, v). c) (ea_storage ea))"

lemma commit_account_slot:
  "slot_of (commit_account d (a, ea) db) b t =
     (if b = a \<and> \<not> ea_is_empty ea
      then (case map_of (rev (changed_slots ea)) t of Some v \<Rightarrow> Some v | None \<Rightarrow> slot_of db b t)
      else slot_of db b t)"
  by (auto simp: commit_account_def slot_of_def put_account_def account_or_def changed_slots_def
      Let_def fold_commit_slots split: option.split)

lemma commit_slot:
  assumes "distinct (map fst changes)"
  shows "slot_of (commit d changes db) b t =
     (case map_of changes b of
        None \<Rightarrow> slot_of db b t
      | Some ea \<Rightarrow>
          if ea_is_empty ea then slot_of db b t
          else (case map_of (rev (changed_slots ea)) t of Some v \<Rightarrow> Some v | None \<Rightarrow> slot_of db b t))"
  using assms unfolding commit_def
proof (induction changes arbitrary: db)
  case (Cons ad changes)
  obtain a ea where ad: "ad = (a, ea)" by (cases ad)
  then have "map_of changes a = None" using Cons.prems by (simp add: map_of_eq_None_iff)
  then show ?case
    using Cons by (auto simp: ad commit_account_slot split: option.split)
qed simp

subsection \<open>Prefetching\<close>

text \<open>A prefetch may fill slots that were missing; it never changes one that was there.\<close>

definition db_extends :: "block_state_db \<Rightarrow> block_state_db \<Rightarrow> bool" where
  "db_extends db db' \<longleftrightarrow> (\<forall>a s v. slot_of db a s = Some v \<longrightarrow> slot_of db' a s = Some v)"

lemma db_extends_refl [simp]: "db_extends db db"
  by (simp add: db_extends_def)

lemma db_extends_trans: "db_extends db db1 \<Longrightarrow> db_extends db1 db2 \<Longrightarrow> db_extends db db2"
  by (simp add: db_extends_def)

lemma store_results_extends:
  assumes "\<forall>((a, s), v) \<in> set rs. slot_of db a s = None"
  shows "db_extends db (store_results d rs db)"
  using assms by (fastforce simp: db_extends_def store_results_slot dest: map_of_SomeD split: option.split)

lemma fetch_latest_key: "fetch_latest env k = Some r \<Longrightarrow> fst r = k"
  by (auto simp: fetch_latest_def)

lemma fetched_keys: "map (fetch_latest env) ks = map Some rs \<Longrightarrow> map fst rs = ks"
proof (induction ks arbitrary: rs)
  case (Cons k ks)
  then show ?case by (cases rs) (auto dest: fetch_latest_key)
qed simp

lemma missing_slots_iff:
  "(a, s) \<in> set (missing_slots db slots pools) \<longleftrightarrow> a \<in> set pools \<and> s \<in> set slots \<and> slot_of db a s = None"
  by (auto simp: missing_slots_def is_cached_iff)

lemma map_of_rev_Some_iff: "(\<exists>v. map_of (rev rs) k = Some v) \<longleftrightarrow> k \<in> fst ` set rs"
  by (metis map_of_eq_None_iff not_None_eq set_rev)

lemma prefetch_v3_slots_cases:
  assumes "prefetch_v3_slots env arrive pools db = Some db'" "\<And>xs. set (arrive xs) = set xs"
  shows "db_extends db db'"
    and "a \<in> set pools \<Longrightarrow> s \<in> {V3_SLOT0, V3_SLOT0_OVERFLOW, V3_LIQUIDITY_SLOT, V3_LIQUIDITY_SLOT_PANCAKE}
           \<Longrightarrow> slot_of db' a s \<noteq> None"
proof -
  let ?m = "missing_slots db [V3_SLOT0, V3_SLOT0_OVERFLOW, V3_LIQUIDITY_SLOT, V3_LIQUIDITY_SLOT_PANCAKE] pools"
  obtain rs where rs: "map (fetch_latest env) (arrive ?m) = map Some rs"
      and db': "db' = store_results (env_default_info env) rs db"
    using assms(1) by (auto simp: prefetch_v3_slots_def those_eq_Some_iff split: bind_splits)
  have keys: "fst ` set rs = set ?m"
    using fetched_keys [OF rs] assms(2) [of ?m] by (metis list.set_map)
  have "slot_of db b t = None" if "((b, t), v) \<in> set rs" for b t v
  proof -
    have "(b, t) \<in> fst ` set rs" using that by force
    then show ?thesis unfolding keys by (simp add: missing_slots_iff)
  qed
  then show "db_extends db db'"
    unfolding db' by (intro store_results_extends) auto
  show "slot_of db' a s \<noteq> None"
    if "a \<in> set pools" "s \<in> {V3_SLOT0, V3_SLOT0_OVERFLOW, V3_LIQUIDITY_SLOT, V3_LIQUIDITY_SLOT_PANCAKE}"
    using that map_of_rev_Some_iff [of rs "(a, s)"] unfolding keys
    by (auto simp: db' store_results_slot missing_slots_iff split: option.split)
qed

lemma fetches_total:
  assumes "hex_decode_ok (env_hex_decode env)"
  shows "\<exists>rs. those (map (fetch_latest env) ks) = Some rs"
    and "\<exists>rs. those (map (fetch_bitmap env) bs) = Some rs"
proof -
  have answered: "fetch_latest env k \<noteq> None" for k
    using parse_storage_answer_total [OF assms] by (auto simp: fetch_latest_def)
  then show "\<exists>rs. those (map (fetch_latest env) ks) = Some rs"
    by (intro those_total) (simp del: not_None_eq)
  show "\<exists>rs. those (map (fetch_bitmap env) bs) = Some rs"
    using answered by (intro those_total) (simp add: fetch_bitmap_def del: not_None_eq)
qed

lemma prefetch_v3_slots_total:
  assumes "hex_decode_ok (env_hex_decode env)"
  shows "\<exists>db'. prefetch_v3_slots env arrive pools db = Some db'"
proof -
  obtain f where "\<And>ks. those (map (fetch_latest env) ks) = Some (f ks)"
    using fetches_total(1) [OF assms] by metis
  then show ?thesis by (simp add: prefetch_v3_slots_def)
qed

lemma tick_data_total:
  assumes "hex_decode_ok (env_hex_decode env)"
  shows "\<exists>db'. prefetch_v3_tick_data env arrive_bm arrive_ticks v3_pools db = Some db'"
proof -
  obtain f g where "\<And>ks. those (map (fetch_latest env) ks) = Some (f ks)"
      "\<And>bs. those (map (fetch_bitmap env) bs) = Some (g bs)"
    using fetches_total [OF assms] by metis
  then show ?thesis by (simp add: prefetch_v3_tick_data_def prefetch_ticks_def Let_def)
qed

lemma fetched_batch:
  assumes "map (fetch_latest env) (arrive req) = map Some rs" "set (arrive req) = set req"
    and "\<forall>(a, t) \<in> set req. slot_of db a t = None"
  shows "db_extends db (store_results d rs db)"
proof -
  have "(a, t) \<in> set req" if "((a, t), v) \<in> set rs" for a t v
    using fetched_keys [OF assms(1)] assms(2) that by (metis fst_conv imageI list.set_map)
  then show ?thesis using assms(3) by (intro store_results_extends) fast
qed

lemma prefetch_ticks_extends:
  assumes "prefetch_ticks env arrive spacing bm db = Some db'" "\<And>xs. set (arrive xs) = set xs"
  shows "db_extends db db'"
proof -
  let ?req = "tick_batch (env_keccak env) spacing db bm"
  have "\<forall>(a, t) \<in> set ?req. slot_of db a t = None"
    by (auto simp: tick_batch_def tick_requests_def is_cached_iff Let_def split: if_splits option.splits)
  then show ?thesis
    using assms fetched_batch [of env arrive ?req _ db]
    by (auto simp: prefetch_ticks_def Let_def those_eq_Some_iff split: if_splits bind_splits)
qed

lemma store_bitmaps_extends:
  assumes "map (fetch_bitmap env) (arrive req) = map Some rs" "set (arrive req) = set req"
    and missing: "\<forall>(a, w, t) \<in> set req. slot_of db a t = None"
  shows "db_extends db (store_bitmaps d rs db)"
proof -
  have "r \<in> set req" if "(r, v) \<in> set rs" for r v
  proof -
    have "Some (r, v) \<in> set (map (fetch_bitmap env) (arrive req))" unfolding assms(1) using that by simp
    then obtain q where "q \<in> set (arrive req)" "fetch_bitmap env q = Some (r, v)"
      by (metis (no_types, lifting) imageE list.set_map)
    then show ?thesis unfolding assms(2) by (auto simp: fetch_bitmap_def)
  qed
  then show ?thesis
    using missing unfolding store_bitmaps_def by (intro store_results_extends) fastforce
qed

lemma tick_data_extends:
  assumes "prefetch_v3_tick_data env arrive_bm arrive_ticks v3_pools db = Some db'"
    and "\<And>xs. set (arrive_bm xs) = set xs" "\<And>xs. set (arrive_ticks xs) = set xs"
  shows "db_extends db db'"
proof -
  define db1 where "db1 = register_pancake v3_pools db"
  let ?req = "bitmap_batch (env_keccak env) db1 v3_pools"
  have reg: "db_extends db db1" by (simp add: db_extends_def db1_def)
  have miss: "\<forall>(a, w, t) \<in> set ?req. slot_of db1 a t = None"
    by (auto simp: bitmap_batch_def bitmap_requests_def is_cached_iff Let_def split: if_splits option.splits)
  have "db_extends db1 (store_bitmaps d rs db1)"
    if "map (fetch_bitmap env) (arrive_bm ?req) = map Some rs" for rs d
    by (rule store_bitmaps_extends [of env arrive_bm ?req rs db1 d, OF that assms(2) miss])
  note bitmaps = this
  consider (none) "db' = db1"
    | (some) sp rs where "map (fetch_bitmap env) (arrive_bm ?req) = map Some rs"
        "prefetch_ticks env arrive_ticks sp rs (store_bitmaps (env_default_info env) rs db1) = Some db'"
    using assms(1)
    by (auto simp: prefetch_v3_tick_data_def Let_def db1_def [symmetric] those_eq_Some_iff
        split: if_splits bind_splits)
  then have "db_extends db1 db'"
  proof cases
    case some
    from bitmaps [OF some(1)] prefetch_ticks_extends [OF some(2) assms(3)]
    show ?thesis by (rule db_extends_trans)
  qed simp
  with reg show ?thesis by (rule db_extends_trans)
qed

text \<open>An endpoint that never answers, for the examples.\<close>

definition silent_env :: chain_env where
  "silent_env = \<lparr> env_rpc = (\<lambda>_. None), env_hex_decode = (\<lambda>_. None), env_keccak = from_be_bytes,
     env_u256_from_hex = (\<lambda>_. None),
     env_default_info = \<lparr> ai_balance = 0, ai_nonce = 0, ai_code_hash = 0, ai_code = None \<rparr> \<rparr>"

section \<open>Properties\<close>

text \<open>
  Packed state round trip: the reserves read from the storage word of a V2 pair, and the price
  and the signed tick read from a V3 pool's \<open>slot0\<close>, are the packed ones, whatever else the word holds.
\<close>

lemma packed_state_roundtrip:
  assumes "unat r0 < 2 ^ 112" "unat r1 < 2 ^ 112"
    and "unat sqrt_price < 2 ^ 160" "- (2 ^ 23) \<le> sint tick" "sint tick < 2 ^ 23"
  shows "read_v2_reserves (update_slot d pool V2_RESERVES_SLOT (pack_reserves r0 r1 ts) db) pool
           = Some (r0, r1) \<and>
         read_v3_slot0 (update_slot d pool V3_SLOT0 (pack_slot0 sqrt_price tick rest) db) pool
           = Some (sqrt_price, tick)"
  using read_v2_reserves_packed [OF assms(1,2)] read_v3_slot0_packed [OF assms(3-5)] by blast

text \<open>
  C17. Storage reads of the EVM through \<open>BlockStateDB\<close>: with an endpoint that answers at most 64
  digits every sequence of reads returns; and a sequence once read gives the same answers from the
  cache, under any endpoint, without changing the database.
\<close>

theorem state_db_reads_repeatable:
  assumes "storage_answers_ok env"
  shows "\<exists>vs db'. read_all (\<lambda>env db (a, i). db_storage env a i db) env db ks = Some (vs, db') \<and>
           (\<forall>env'. read_all (\<lambda>env db (a, i). db_storage env a i db) env' db' ks = Some (vs, db')) \<and>
           map (\<lambda>(a, i). slot_of db' a i) ks = map Some vs"
proof -
  obtain vs db' where r: "read_all (\<lambda>env db (a, i). db_storage env a i db) env db ks = Some (vs, db')"
    using state_cache.read_all_total [OF assms, of db ks] by fastforce
  then show ?thesis
    using state_cache.read_all_repeatable [OF r] state_cache.read_all_cached(1) [OF r] by blast
qed

theorem state_db_reads_repeatable_witness:
  "\<exists>vs db'. read_all (\<lambda>env db (a, i). db_storage env a i db) silent_env (state_db_new 1) [(1, 8), (2, 0)]
     = Some (vs, db')"
proof -
  have "storage_answers_ok silent_env"
    by (simp add: storage_answers_ok_def silent_env_def hex_decode_ok_def)
  from state_db_reads_repeatable [OF this] show ?thesis by blast
qed

text \<open>
  The storage keys of ticks and bitmap words: the bytes hashed for two (position, mapping base)
  pairs are equal only if the pairs are. Sign extension does not merge negative and positive ticks,
  and the tick and bitmap mappings of the UniswapV3 and PancakeSwapV3 layouts do not overlap.
\<close>

lemma slot_keys_distinct:
  fixes t u :: "32 word" and b c :: u64
  shows "i256_bytes t @ be_bytes 32 (ucast b :: u256) = i256_bytes u @ be_bytes 32 (ucast c :: u256)
           \<longleftrightarrow> t = u \<and> b = c"
  by (rule slot_preimage_inj)

text \<open>
  C8. Applying a block's state diffs writes exactly the diffed slots of the tracked pools: every
  other slot of a tracked pool, and everything of an address that is not tracked, keeps its value.
\<close>

theorem apply_state_diffs_exact:
  assumes "distinct (map fst diffs)" "\<forall>(a, slots) \<in> set diffs. distinct (map fst slots)"
  shows "slot_of (apply_state_diffs d diffs db) b t =
     (if b \<in> db_tracked_pools db
      then (case map_of diffs b of
              None \<Rightarrow> slot_of db b t
            | Some slots \<Rightarrow> (case map_of slots t of Some v \<Rightarrow> Some v | None \<Rightarrow> slot_of db b t))
      else slot_of db b t)"
proof -
  have "map_of (rev slots) = map_of slots" if "map_of diffs b = Some slots" for slots
    using assms(2) map_of_SomeD [OF that] by (intro map_of_rev_distinct) auto
  then show ?thesis
    by (simp add: apply_state_diffs_slot [OF assms(1)] split: option.split)
qed

theorem apply_state_diffs_exact_witness:
  "slot_of (apply_state_diffs (env_default_info silent_env) [(1, [(8, 42)]), (2, [(8, 43)])] (track_pool 1 (state_db_new 5))) 1 8 = Some 42"
  using apply_state_diffs_exact [of "[(1, [(8, 42)]), (2, [(8, 43)])]" "env_default_info silent_env" "track_pool 1 (state_db_new 5)" 1 8]
  by (simp add: track_pool_def)

text \<open>
  C18. The V3 prefetchers return (their parsing never panics) and only add: no slot that was cached
  changes its value, in whatever order the concurrent answers arrive. They leave \<open>slot0\<close>, its
  overflow and both liquidity slots of every pool cached.
\<close>

theorem prefetch_only_adds:
  assumes "hex_decode_ok (env_hex_decode env)"
    and "\<And>xs. set (arrive xs) = set xs" "\<And>xs. set (arrive_bm xs) = set xs"
  shows "\<exists>db1 db2. prefetch_v3_slots env arrive pools db = Some db1 \<and>
           prefetch_v3_tick_data env arrive_bm arrive v3_pools db1 = Some db2 \<and>
           db_extends db db1 \<and> db_extends db1 db2 \<and>
           (\<forall>a \<in> set pools. \<forall>s \<in> {V3_SLOT0, V3_SLOT0_OVERFLOW, V3_LIQUIDITY_SLOT, V3_LIQUIDITY_SLOT_PANCAKE}.
              slot_of db1 a s \<noteq> None)"
proof -
  obtain db1 where db1: "prefetch_v3_slots env arrive pools db = Some db1"
    using prefetch_v3_slots_total [OF assms(1)] by blast
  obtain db2 where "prefetch_v3_tick_data env arrive_bm arrive v3_pools db1 = Some db2"
    using tick_data_total [OF assms(1)] by blast
  then show ?thesis
    using db1 prefetch_v3_slots_cases [OF db1 assms(2)] tick_data_extends [OF _ assms(3,2)] by blast
qed

theorem prefetch_only_adds_witness:
  "\<exists>db1. prefetch_v3_slots silent_env rev [3, 4] (state_db_new 1) = Some db1 \<and>
     slot_of db1 4 V3_SLOT0 \<noteq> None"
  using prefetch_only_adds [of silent_env rev rev "[3, 4]" "state_db_new 1" "[]"]
  by (auto simp: silent_env_def hex_decode_ok_def)

end
