(* ===== verification/SwapCurve.thy ===== *)
theory SwapCurve
  imports ArbPrelude
begin

text \<open>
  The contract of a swap curve. The estimator, the quoters and the validators of the program do not
  care which AMM quotes a hop: they rely on a quote that never pays out more than the
  constant-product curve allows. The locale states that contract once; the V2 curve
  (\<open>calculation/v2.rs\<close>), the volatile Aerodrome curve (\<open>calculation/aerodrome.rs\<close>) and the equal
  weight Balancer curve (\<open>calculation/balancer.rs\<close>) are its providers, in the theories that model
  them. \<open>ok a ri ro\<close> is the range in which the provider's 256-bit products do not wrap.
\<close>

text \<open>A fee taken from the input first leaves the quote below the curve of the whole input.\<close>

lemma fee_first_curve_bound:
  assumes "v * (ri + p) \<le> p * (ro::nat)" "p \<le> a" "0 < ri"
  shows "v * (ri + a) \<le> a * ro"
proof -
  have "v * (ri + p) \<le> ro * (ri + p)"
    using assms(1) by (simp add: algebra_simps)
  then have "v \<le> ro" using assms(3) by (simp only: mult_le_cancel2)
  then have "v * (a - p) \<le> ro * (a - p)" by (rule mult_le_mono1)
  with assms(1) have "v * (ri + p) + v * (a - p) \<le> p * ro + ro * (a - p)"
    by (rule add_mono)
  then show ?thesis
    using assms(2) by (simp add: algebra_simps diff_mult_distrib2)
qed

locale swap_curve =
  fixes out :: "u256 \<Rightarrow> u256 \<Rightarrow> u256 \<Rightarrow> u256 run"
    and ok :: "u256 \<Rightarrow> u256 \<Rightarrow> u256 \<Rightarrow> bool"
  assumes ok_returns: "ok a ri ro \<Longrightarrow> \<exists>v. out a ri ro = Some v"
    and ok_reserve: "ok a ri ro \<Longrightarrow> 0 < unat ri"
    and ok_curve: "ok a ri ro \<Longrightarrow> out a ri ro = Some v \<Longrightarrow>
                   unat v * (unat ri + unat a) \<le> unat a * unat ro"
begin

lemma out_le_reserve:
  assumes "ok a ri ro" "out a ri ro = Some v"
  shows "unat v \<le> unat ro"
proof -
  have "unat v * (unat ri + unat a) \<le> unat ro * (unat ri + unat a)"
    using ok_curve [OF assms] by (simp add: distrib_left mult.commute)
  then show ?thesis
    using ok_reserve [OF assms(1)] by (simp only: mult_le_cancel2)
qed

lemma out_less_reserve:
  assumes "ok a ri ro" "out a ri ro = Some v" "ro \<noteq> 0"
  shows "unat v < unat ro"
proof (rule ccontr)
  assume "\<not> unat v < unat ro"
  then have "unat ro * (unat ri + unat a) \<le> unat v * (unat ri + unat a)"
    by simp
  also have "\<dots> \<le> unat a * unat ro"
    by (rule ok_curve [OF assms(1,2)])
  finally have "unat ro * unat ri = 0"
    by (simp add: algebra_simps)
  then show False
    using ok_reserve [OF assms(1)] assms(3) by (simp add: word_zero_iff_unat)
qed

text \<open>The product of the reserves never falls: the pool is never drained by a quote.\<close>

lemma product_grows:
  assumes "ok a ri ro" "out a ri ro = Some v"
  shows "unat ri * unat ro \<le> (unat ri + unat a) * (unat ro - unat v)"
  using ok_curve [OF assms] out_le_reserve [OF assms]
  by (simp add: algebra_simps diff_mult_distrib2 le_diff_conv2 mult_le_mono)

lemma out_below_spot:
  assumes "ok a ri ro" "out a ri ro = Some v"
  shows "unat v * unat ri \<le> unat a * unat ro"
  using ok_curve [OF assms] by (simp add: algebra_simps)

text \<open>Selling the proceeds back into the moved pool never returns more than was put in.\<close>

lemma round_trip_no_profit:
  assumes there: "ok a ri ro" "out a ri ro = Some v"
    and sum: "unat ri + unat a < 2 ^ 256" and "ro \<noteq> 0"
    and home: "ok v (ro - v) (ri + a)" "out v (ro - v) (ri + a) = Some b"
  shows "b \<le> a"
proof -
  have le: "unat v \<le> unat ro"
    by (rule out_le_reserve [OF there])
  have "unat (ro - v) + unat v = unat ro"
    using le by (simp add: unat_sub_exact word_le_nat_alt)
  moreover have "unat (ri + a) = unat ri + unat a"
    using sum by (simp add: unat_add_exact)
  ultimately have "unat b * unat ro \<le> unat v * (unat ri + unat a)"
    using ok_curve [OF home] by simp
  also have "\<dots> \<le> unat a * unat ro"
    by (rule ok_curve [OF there])
  finally have "unat b * unat ro \<le> unat a * unat ro" .
  moreover have "0 < unat ro"
    using \<open>ro \<noteq> 0\<close> by (rule word_pos_unat)
  ultimately have "unat b \<le> unat a" by (simp only: mult_le_cancel2)
  then show ?thesis by (simp add: word_le_nat_alt)
qed

end

text \<open>
  A provider whose quote also grows with the input: selling more never brings less. This is what
  makes a bracketed search over the input meaningful.
\<close>

locale monotone_curve = swap_curve +
  assumes ok_mono: "ok a ri ro \<Longrightarrow> ok b ri ro \<Longrightarrow> a \<le> b \<Longrightarrow>
                    out a ri ro = Some v \<Longrightarrow> out b ri ro = Some w \<Longrightarrow> v \<le> w"
begin

lemma quote_reflects_less:
  assumes "ok a ri ro" "ok b ri ro" "out a ri ro = Some v" "out b ri ro = Some w" "v < w"
  shows "a < b"
proof (rule ccontr)
  assume "\<not> a < b"
  then have "w \<le> v"
    using ok_mono [OF assms(2,1) _ assms(4,3)] by simp
  then show False using \<open>v < w\<close> by simp
qed

end

end
