(* ===== verification/CalcV2.thy ===== *)
theory CalcV2
  imports SwapCurve
begin

text \<open>
  \<open>src/calculation/v2.rs\<close>: the constant-product curve with a fee factor over 10000, its inverse,
  the two rate estimators, the square-root starting point and the Newton integer square root.
  The lemmas give the exact natural-number meaning of the 256-bit formulas where no product wraps,
  that the curve is a \<open>monotone_curve\<close>, that the inverse is sound and within one unit of minimal,
  and that the Newton loop ends and returns the integer square root for every input but the maximal
  one, on which it panics.
\<close>

section \<open>Operations\<close>

definition get_amount_out_v2 :: "u256 \<Rightarrow> u256 \<Rightarrow> u256 \<Rightarrow> u64 \<Rightarrow> u256" where
  "get_amount_out_v2 amount_in reserve_in reserve_out fee_factor =
    (if amount_in = 0 \<or> reserve_in = 0 \<or> reserve_out = 0 then 0
     else
       let amount_in_with_fee = amount_in * ucast fee_factor;
           numerator = amount_in_with_fee * reserve_out;
           denominator = reserve_in * 10000 + amount_in_with_fee
       in if denominator = 0 then 0 else numerator div denominator)"

definition get_amount_in_v2 :: "u256 \<Rightarrow> u256 \<Rightarrow> u256 \<Rightarrow> u64 \<Rightarrow> u256" where
  "get_amount_in_v2 amount_out reserve_in reserve_out fee_factor =
    (if amount_out = 0 \<or> reserve_in = 0 \<or> reserve_out \<le> amount_out then - 1
     else
       let numerator = reserve_in * amount_out * 10000;
           denominator = (reserve_out - amount_out) * ucast fee_factor
       in if denominator = 0 then - 1 else numerator div denominator + 1)"

definition v2_scale :: u256 where
  "v2_scale = 1000000000000000000"

definition v2_rate_1e18 :: "u256 \<Rightarrow> u256 \<Rightarrow> u256 \<Rightarrow> u64 \<Rightarrow> u256" where
  "v2_rate_1e18 amount_in reserve_in reserve_out fee_factor =
    (let amount_out = get_amount_out_v2 amount_in reserve_in reserve_out fee_factor
     in if amount_in = 0 then 0 else (amount_out * v2_scale) div amount_in)"

text \<open>The divisor is \<open>reserve_in * 10000\<close> mod \<open>2 ^ 256\<close>, which a reserve \<open>\<noteq> 0\<close> does not keep from 0.\<close>

definition v2_marginal_rate_1e18 :: "u256 \<Rightarrow> u256 \<Rightarrow> u64 \<Rightarrow> u256 run" where
  "v2_marginal_rate_1e18 reserve_in reserve_out fee_factor =
    (if reserve_in = 0 then Some 0
     else div_run (ucast fee_factor * reserve_out * v2_scale) (reserve_in * 10000))"

function isqrt_loop :: "u256 \<Rightarrow> u256 \<Rightarrow> u256 \<Rightarrow> u256 run" where
  "isqrt_loop n x y =
    (if y < x then do { q \<leftarrow> div_run n y; isqrt_loop n y (shr (y + q) 1) } else Some x)"
  by pat_completeness auto

termination
  by (relation "measure (\<lambda>(n, x, y). unat x)") (auto simp: word_less_nat_alt)

declare isqrt_loop.simps [simp del]

definition isqrt :: "u256 \<Rightarrow> u256 run" where
  "isqrt n = (if n = 0 then Some 0 else isqrt_loop n n (shr (n + 1) 1))"

definition optimal_v2_input :: "u256 \<Rightarrow> u256 \<Rightarrow> u64 \<Rightarrow> u256 run" where
  "optimal_v2_input reserve_in reserve_out fee_factor =
    do {
      let product = reserve_in * reserve_out * ucast fee_factor;
      sqrt_prod \<leftarrow> isqrt (product div 10000);
      Some (if reserve_in < sqrt_prod then sqrt_prod - reserve_in else 0)
    }"

section \<open>The exact range\<close>

text \<open>
  \<open>v2_ok\<close>: fee at most 100%, and the three products of the formula fit in 256 bits. Pairs keep
  their reserves in 112 bits, which is enough (\<open>v2_ok_112\<close>).
\<close>

definition v2_ok :: "u64 \<Rightarrow> u256 \<Rightarrow> u256 \<Rightarrow> u256 \<Rightarrow> bool" where
  "v2_ok f a ri ro \<longleftrightarrow>
     ri \<noteq> 0 \<and> unat f \<le> 10000 \<and>
     unat ri * 10000 + unat a * unat f < 2 ^ 256 \<and> unat a * unat f * unat ro < 2 ^ 256"

lemma unat_fee [simp]: "unat (ucast (f :: u64) :: u256) = unat f"
  by (rule unat_ucast_up) simp

lemma v2_ok_112:
  assumes "ri \<noteq> 0" "unat f \<le> 10000" "unat a < 2 ^ 112" "unat ri < 2 ^ 112" "unat ro < 2 ^ 112"
  shows "v2_ok f a ri ro"
proof -
  have a: "unat a * unat f \<le> 2 ^ 112 * 10000"
    using assms by (intro mult_le_mono) auto
  have "unat a * unat f * unat ro \<le> (2 ^ 112 * 10000) * 2 ^ 112"
    using a assms by (intro mult_le_mono) auto
  moreover have "unat ri * 10000 \<le> 2 ^ 112 * 10000"
    using assms by (intro mult_le_mono) auto
  ultimately show ?thesis
    using a assms by (simp add: v2_ok_def)
qed

lemma unat_get_amount_out_v2:
  assumes "v2_ok f a ri ro"
  shows "unat (get_amount_out_v2 a ri ro f) =
         (unat a * unat f * unat ro) div (unat ri * 10000 + unat a * unat f)"
proof (cases "a = 0 \<or> ro = 0")
  case True
  then show ?thesis by (auto simp: get_amount_out_v2_def)
next
  case False
  have af: "unat (a * ucast f) = unat a * unat f"
    and num: "unat (a * ucast f * ro) = unat a * unat f * unat ro"
    and rk: "unat (ri * 10000) = unat ri * 10000"
    and den: "unat (ri * 10000 + a * ucast f) = unat ri * 10000 + unat a * unat f"
  proof -
    have "0 < unat ro" using False by (simp add: word_pos_unat)
    then have "unat a * unat f \<le> unat a * unat f * unat ro" by simp
    also have "\<dots> < 2 ^ 256" using assms by (simp add: v2_ok_def)
    finally show 1: "unat (a * ucast f) = unat a * unat f" by (simp add: unat_mult_exact)
    show "unat (a * ucast f * ro) = unat a * unat f * unat ro"
      using assms 1 by (simp add: v2_ok_def unat_mult_exact)
    show 2: "unat (ri * 10000) = unat ri * 10000"
      using assms by (simp add: v2_ok_def unat_mult_exact)
    show "unat (ri * 10000 + a * ucast f) = unat ri * 10000 + unat a * unat f"
      using assms 1 2 by (simp add: v2_ok_def unat_add_exact)
  qed
  have "0 < unat ri" using assms by (simp add: v2_ok_def word_pos_unat)
  then have "ri * 10000 + a * ucast f \<noteq> 0"
    by (simp add: word_zero_iff_unat den)
  then show ?thesis
    using False assms
    by (simp add: get_amount_out_v2_def v2_ok_def Let_def unat_div_distrib num den)
qed

section \<open>The curve and its contract\<close>

lemma fee_curve_bound:
  assumes v: "v * (ri * 10000 + a * f) \<le> a * f * (ro::nat)" and f: "f \<le> 10000" "0 < f"
  shows "v * (ri + a) \<le> a * ro"
proof -
  have "f * (10000 * (v * (ri + a))) = 10000 * (v * (f * (ri + a)))"
    by simp
  also have "\<dots> \<le> 10000 * (v * (ri * 10000 + a * f))"
  proof -
    have "f * ri \<le> 10000 * ri" using f by simp
    then have "f * (ri + a) \<le> ri * 10000 + a * f" by (simp add: algebra_simps)
    then show ?thesis by simp
  qed
  also have "\<dots> \<le> 10000 * (a * f * ro)"
    using v by simp
  also have "\<dots> = f * (10000 * (a * ro))"
    by simp
  finally show ?thesis
    using f(2) by simp
qed

lemma v2_curve:
  assumes "v2_ok f a ri ro"
  shows "unat (get_amount_out_v2 a ri ro f) * (unat ri + unat a) \<le> unat a * unat ro"
proof (cases "unat f = 0")
  case True
  then show ?thesis by (simp add: unat_get_amount_out_v2 [OF assms])
next
  case False
  have "unat f \<le> 10000" using assms by (simp add: v2_ok_def)
  then show ?thesis
    unfolding unat_get_amount_out_v2 [OF assms]
    using fee_curve_bound [OF div_mult_le_nat] False by blast
qed

lemma v2_mono_nat:
  assumes "(a::nat) \<le> b" "0 < r"
  shows "(a * f * ro) div (r + a * f) \<le> (b * f * ro) div (r + b * f)"
proof -
  let ?v = "(a * f * ro) div (r + a * f)"
  have le: "a * f \<le> b * f" using assms by simp
  have v: "?v * (r + a * f) \<le> a * f * ro" by simp
  have "?v * (r + a * f) \<le> ro * (r + a * f)"
    by (rule le_trans [OF v]) (simp add: algebra_simps)
  then have vr: "?v \<le> ro" using assms(2) by (simp only: mult_le_cancel2)
  have "?v * (r + b * f) = ?v * (r + a * f) + ?v * (b * f - a * f)"
    using le by (simp add: distrib_left [symmetric])
  also have "\<dots> \<le> a * f * ro + ro * (b * f - a * f)"
    by (intro add_mono v mult_le_mono1 vr)
  also have "\<dots> = b * f * ro"
    using le by (simp add: algebra_simps diff_mult_distrib2)
  finally show ?thesis
    using assms(2) by (simp add: le_div_iff_mult_le_nat)
qed

lemma v2_mono:
  assumes "v2_ok f a ri ro" "v2_ok f b ri ro" "a \<le> b"
  shows "get_amount_out_v2 a ri ro f \<le> get_amount_out_v2 b ri ro f"
  using assms v2_mono_nat [of "unat a" "unat b" "unat ri * 10000" "unat f" "unat ro"]
  by (simp add: word_le_nat_alt unat_get_amount_out_v2 v2_ok_def word_pos_unat)

interpretation v2: monotone_curve
  "\<lambda>a ri ro. Some (get_amount_out_v2 a ri ro f)" "v2_ok f" for f
proof unfold_locales
  fix a ri ro v
  assume "v2_ok f a ri ro"
  then show "0 < unat ri" by (simp add: v2_ok_def word_pos_unat)
  assume "Some (get_amount_out_v2 a ri ro f) = Some v"
  then show "unat v * (unat ri + unat a) \<le> unat a * unat ro"
    using v2_curve [OF \<open>v2_ok f a ri ro\<close>] by simp
qed (auto intro: v2_mono)

section \<open>The inverse\<close>

lemma unat_get_amount_in_v2:
  assumes "o1 \<noteq> 0" "ri \<noteq> 0" "o1 < ro" "f \<noteq> 0" "unat f \<le> 10000"
    and "unat o1 < 2 ^ 112" "unat ri < 2 ^ 112" "unat ro < 2 ^ 112"
  shows "unat (get_amount_in_v2 o1 ri ro f) =
         (unat ri * unat o1 * 10000) div ((unat ro - unat o1) * unat f) + 1"
proof -
  have le: "unat (ro - o1) = unat ro - unat o1" and lt: "unat o1 < unat ro"
    using assms(3) by (simp_all only: unat_sub_exact order_less_imp_le word_less_nat_alt)
  have "unat ri * unat o1 \<le> 2 ^ 112 * 2 ^ 112"
    using assms by (intro mult_le_mono) auto
  moreover from this have p: "unat (ri * o1) = unat ri * unat o1"
    by (simp add: unat_mult_exact)
  ultimately have "unat (ri * o1) * unat (10000 :: u256) < 2 ^ LENGTH(256)"
    unfolding p by (simp add: mult.commute)
  from unat_mult_exact [OF this] have n: "unat (ri * o1 * 10000) = unat ri * unat o1 * 10000"
    by (simp add: p)
  note prod = \<open>unat ri * unat o1 \<le> 2 ^ 112 * 2 ^ 112\<close>
  have "(unat ro - unat o1) * unat f \<le> 2 ^ 112 * 10000"
    using assms by (intro mult_le_mono) auto
  then have d: "unat ((ro - o1) * ucast f) = (unat ro - unat o1) * unat f"
    by (simp add: unat_mult_exact le)
  have "0 < (unat ro - unat o1) * unat f"
    using lt assms(4) by (simp add: word_pos_unat)
  then have nz: "(ro - o1) * ucast f \<noteq> 0"
    by (simp add: word_zero_iff_unat d)
  have q: "unat (ri * o1 * 10000 div ((ro - o1) * ucast f)) =
           (unat ri * unat o1 * 10000) div ((unat ro - unat o1) * unat f)"
    by (simp add: unat_div_distrib n d)
  have "\<dots> \<le> unat ri * unat o1 * 10000" by (rule div_le_dividend)
  also have "\<dots> < 2 ^ 256 - 1" using prod by (simp add: mult.commute)
  finally have "unat (ri * o1 * 10000 div ((ro - o1) * ucast f)) + unat (1 :: u256) < 2 ^ LENGTH(256)"
    by (simp add: q)
  then have "unat (ri * o1 * 10000 div ((ro - o1) * ucast f) + 1) =
             unat (ri * o1 * 10000 div ((ro - o1) * ucast f)) + 1"
    by (subst unat_add_exact) simp_all
  moreover have "\<not> ro \<le> o1" using assms(3) by (simp add: not_le)
  ultimately show ?thesis
    using assms(1,2) nz by (simp add: get_amount_in_v2_def Let_def q)
qed

lemma v2_inverse_sound:
  assumes "o1 \<noteq> 0" "ri \<noteq> 0" "o1 < ro" "f \<noteq> 0" "unat f \<le> 10000"
    and "unat o1 < 2 ^ 112" "unat ri < 2 ^ 112" "unat ro < 2 ^ 112"
    and small: "unat (get_amount_in_v2 o1 ri ro f) < 2 ^ 112"
  shows "o1 \<le> get_amount_out_v2 (get_amount_in_v2 o1 ri ro f) ri ro f"
proof -
  let ?i = "get_amount_in_v2 o1 ri ro f"
  let ?N = "unat ri * unat o1 * 10000" and ?D = "(unat ro - unat o1) * unat f"
  have lt: "unat o1 < unat ro" using assms(3) by (simp add: word_less_nat_alt)
  have D: "0 < ?D" using lt assms(4) by (simp add: word_pos_unat)
  have i: "unat ?i = ?N div ?D + 1" using assms by (intro unat_get_amount_in_v2) auto
  have "?N \<le> unat ?i * ?D"
    using less_succ_div_nat [OF D, of ?N] unfolding i by simp
  then have "unat o1 * (unat ri * 10000 + unat ?i * unat f) \<le>
             unat ?i * unat f * (unat ro - unat o1) + unat ?i * unat f * unat o1"
    by (simp add: algebra_simps)
  also have "\<dots> = unat ?i * unat f * unat ro"
    using lt by (simp add: distrib_left [symmetric])
  finally have "unat o1 * (unat ri * 10000 + unat ?i * unat f) \<le> unat ?i * unat f * unat ro" .
  moreover have "0 < unat ri" using assms(2) by (rule word_pos_unat)
  moreover have "v2_ok f ?i ri ro" using assms by (intro v2_ok_112) auto
  ultimately show ?thesis
    by (simp add: word_le_nat_alt unat_get_amount_out_v2 le_div_iff_mult_le_nat)
qed

lemma v2_inverse_near_minimal:
  assumes "o1 \<noteq> 0" "ri \<noteq> 0" "o1 < ro" "f \<noteq> 0" "unat f \<le> 10000"
    and "unat o1 < 2 ^ 112" "unat ri < 2 ^ 112" "unat ro < 2 ^ 112" "unat a < 2 ^ 112"
    and enough: "o1 \<le> get_amount_out_v2 a ri ro f"
  shows "unat (get_amount_in_v2 o1 ri ro f) \<le> unat a + 1"
proof -
  let ?N = "unat ri * unat o1 * 10000" and ?D = "(unat ro - unat o1) * unat f"
  have lt: "unat o1 < unat ro" using assms(3) by (simp add: word_less_nat_alt)
  have D: "0 < ?D" using lt assms(4) by (simp add: word_pos_unat)
  have ok: "v2_ok f a ri ro" using assms by (intro v2_ok_112) auto
  have "0 < unat ri" using assms(2) by (rule word_pos_unat)
  then have "unat o1 * (unat ri * 10000 + unat a * unat f) \<le> unat a * unat f * unat ro"
    using enough
    by (simp add: word_le_nat_alt unat_get_amount_out_v2 [OF ok] le_div_iff_mult_le_nat)
  then have "?N \<le> unat a * ?D"
    using lt by (simp add: algebra_simps diff_mult_distrib2 le_diff_conv2)
  then have "?N div ?D \<le> unat a"
    using D by (metis div_le_mono nonzero_mult_div_cancel_right not_gr_zero)
  then show ?thesis
    using unat_get_amount_in_v2 [OF assms(1-8)] by simp
qed

section \<open>The Newton square root\<close>

text \<open>One Newton step from any positive \<open>x\<close> lands at or above the integer root.\<close>

lemma newton_step_above_root:
  assumes "0 < (x::nat)"
  shows "n < ((x + n div x) div 2 + 1) ^ 2"
proof -
  define q where "q = n div x"
  define y where "y = (x + q) div 2"
  have n: "n < x * (q + 1)"
    using less_succ_div_nat [OF assms, of n] by (simp add: q_def mult.commute)
  have "x + q + 1 \<le> 2 * (y + 1)"
    by (simp add: y_def)
  then have sq: "(x + q + 1) ^ 2 \<le> 4 * (y + 1) ^ 2"
    by (metis power_mono zero_le power_mult_distrib power2_eq_square numeral_Bit0 mult_2)
  have "int (4 * (x * (q + 1))) \<le> int ((x + q + 1) ^ 2)"
  proof -
    have "0 \<le> (int x - int (q + 1)) ^ 2" by simp
    then show ?thesis by (simp add: power2_eq_square algebra_simps)
  qed
  then have "4 * (x * (q + 1)) \<le> (x + q + 1) ^ 2" by linarith
  with n sq have "4 * n < 4 * (y + 1) ^ 2" by linarith
  then show ?thesis by (simp add: y_def q_def)
qed

text \<open>Above the root the quotient is small, so the sum of a step never wraps.\<close>

lemma newton_sum_small:
  assumes "n < (y + 1) ^ 2" "y < 2 ^ 255" "n < (2::nat) ^ 256"
  shows "y + n div y < 2 ^ 256"
proof (cases "y < 2 ^ 128")
  case True
  have "n \<le> (y + 2) * y"
    using assms(1) by (simp add: power2_eq_square algebra_simps)
  then have "n div y \<le> y + 2"
    using div_le_mono [of n "(y + 2) * y" y] by (cases "y = 0") simp_all
  then show ?thesis using True by simp
next
  case False
  have "n div y \<le> n div 2 ^ 128"
    using False by (intro div_le_mono2) auto
  also have "\<dots> < 2 ^ 128"
    using assms(3) by (simp add: div_less_iff_less_mult)
  finally show ?thesis using assms(2) by simp
qed

lemma isqrt_loop_correct:
  assumes "0 < unat x" "unat x \<le> unat n" "unat n < (unat x + 1) ^ 2"
    and "unat y < 2 ^ 255"
    and "unat y = (unat x + unat n div unat x) div 2"
  shows "\<exists>s. isqrt_loop n x y = Some s \<and> unat s ^ 2 \<le> unat n \<and> unat n < (unat s + 1) ^ 2"
  using assms
proof (induction n x y rule: isqrt_loop.induct)
  case (1 n x y)
  show ?case
  proof (cases "y < x")
    case False
    have "unat x \<le> (unat x + unat n div unat x) div 2"
      using False 1(6) by (simp add: word_less_nat_alt not_less)
    then have "unat x \<le> unat n div unat x" by simp
    then have "unat x * unat x \<le> unat n"
      using 1(2) by (simp add: le_div_iff_mult_le_nat)
    then show ?thesis
      using False 1(4) by (subst isqrt_loop.simps) (simp add: power2_eq_square)
  next
    case True
    have "1 \<le> unat n div unat x"
      using 1(2,3) by (simp add: le_div_iff_mult_le_nat)
    then have y0: "0 < unat y" using 1(2,6) by simp
    have lt: "unat y < unat x" using True by (simp add: word_less_nat_alt)
    have root: "unat n < (unat y + 1) ^ 2"
      unfolding 1(6) by (rule newton_step_above_root [OF 1(2)])
    have n: "unat n < 2 ^ 256" using unat_less [of n] by simp
    have sum: "unat y + unat n div unat y < 2 ^ 256"
      by (rule newton_sum_small [OF root 1(5) n])
    have "unat (n div y) = unat n div unat y" by (rule unat_div_distrib)
    then have "unat (shr (y + n div y) 1) = (unat y + unat n div unat y) div 2"
      using sum by (simp add: unat_shr unat_add_exact)
    moreover have "y \<noteq> 0" using y0 by (simp add: word_zero_iff_unat)
    ultimately show ?thesis
      using 1(1) [OF True _ _ _ root] y0 lt 1(3) sum
      by (subst isqrt_loop.simps) (simp add: True div_run_def)
  qed
qed

lemma isqrt_correct:
  assumes "n \<noteq> - 1"
  shows "\<exists>s. isqrt n = Some s \<and> unat s ^ 2 \<le> unat n \<and> unat n < (unat s + 1) ^ 2"
proof (cases "n = 0")
  case True
  then show ?thesis by (simp add: isqrt_def)
next
  case False
  have "unat n \<noteq> 2 ^ 256 - 1"
    using assms unat_minus_one_max [where 'a = 256] by (simp add: word_unat_eq_iff)
  then have small: "unat n + 1 < 2 ^ 256" using unat_less [of n] by simp
  then have y: "unat (shr (n + 1) 1) = (unat n + 1) div 2"
    by (simp add: unat_shr unat_add_exact)
  moreover have "unat n < (unat n + 1) ^ 2"
    by (simp add: power2_eq_square)
  ultimately show ?thesis
    using False small word_pos_unat [OF False]
    unfolding isqrt_def by (simp only: if_False) (rule isqrt_loop_correct, simp_all)
qed

lemma isqrt_max_panics: "isqrt (- 1) = None"
proof -
  have "(0 :: u256) < - 1" by (simp add: word_less_nat_alt unat_minus_one_max)
  then show ?thesis
    by (simp add: isqrt_def isqrt_loop.simps [of "- 1" "- 1"] div_run_def)
qed

section \<open>Properties\<close>

text \<open>
  C5. For V2 pairs (112-bit reserves, a fee factor of at most 10000) a quote stays strictly below
  the output reserve and never lowers the product of the reserves.
\<close>

theorem v2_quote_keeps_product:
  assumes "reserve_in \<noteq> 0" "reserve_out \<noteq> 0" "unat fee_factor \<le> 10000"
    and "unat amount_in < 2 ^ 112" "unat reserve_in < 2 ^ 112" "unat reserve_out < 2 ^ 112"
  shows "get_amount_out_v2 amount_in reserve_in reserve_out fee_factor < reserve_out \<and>
         unat reserve_in * unat reserve_out \<le>
           (unat reserve_in + unat amount_in) *
           (unat reserve_out - unat (get_amount_out_v2 amount_in reserve_in reserve_out fee_factor))"
proof -
  have ok: "v2_ok fee_factor amount_in reserve_in reserve_out"
    using assms by (intro v2_ok_112) auto
  then show ?thesis
    using v2.out_less_reserve [OF ok refl assms(2)] v2.product_grows [OF ok refl]
    by (simp add: word_less_nat_alt)
qed

theorem v2_quote_keeps_product_witness:
  "get_amount_out_v2 1000 1000000 2000000 9970 < 2000000"
  using v2_quote_keeps_product [of 1000000 2000000 9970 1000] by simp

text \<open>
  C25. The inverse quote is sound and nearly minimal: feeding the computed input back into the curve
  yields at least the requested output, and no input that yields the requested output is smaller by
  more than one unit.
\<close>

theorem v2_inverse_correct:
  assumes "amount_out \<noteq> 0" "reserve_in \<noteq> 0" "amount_out < reserve_out"
    and "fee_factor \<noteq> 0" "unat fee_factor \<le> 10000"
    and "unat amount_out < 2 ^ 112" "unat reserve_in < 2 ^ 112" "unat reserve_out < 2 ^ 112"
    and "unat (get_amount_in_v2 amount_out reserve_in reserve_out fee_factor) < 2 ^ 112"
  shows "amount_out \<le> get_amount_out_v2 (get_amount_in_v2 amount_out reserve_in reserve_out fee_factor)
                        reserve_in reserve_out fee_factor \<and>
         (\<forall>a. unat a < 2 ^ 112 \<longrightarrow> amount_out \<le> get_amount_out_v2 a reserve_in reserve_out fee_factor
           \<longrightarrow> unat (get_amount_in_v2 amount_out reserve_in reserve_out fee_factor) \<le> unat a + 1)"
  using assms v2_inverse_sound v2_inverse_near_minimal by auto

theorem v2_inverse_correct_witness:
  "(1500 :: u256) \<le> get_amount_out_v2 (get_amount_in_v2 1500 1000000 2000000 9970) 1000000 2000000 9970"
  using v2_inverse_correct [of 1500 1000000 2000000 9970] by (simp add: get_amount_in_v2_def)

text \<open>
  C26. The Newton loop of \<open>isqrt\<close> ends for every input. It panics on \<open>U256::MAX\<close> only, where the
  initial \<open>x + 1\<close> wraps to 0 and the loop divides by it; on every other input the result is the
  integer square root.
\<close>

theorem isqrt_is_integer_root:
  "case isqrt n of
     None \<Rightarrow> n = - 1
   | Some s \<Rightarrow> n \<noteq> - 1 \<and> unat s ^ 2 \<le> unat n \<and> unat n < (unat s + 1) ^ 2"
  by (cases "n = - 1") (use isqrt_max_panics isqrt_correct in force)+

end
