(* ===== verification/CalcV3.thy ===== *)
theory CalcV3
  imports StateDb CalcV2
begin

text \<open>
  \<open>src/calculation/v3.rs\<close>: the concentrated-liquidity quote that walks the tick bitmap of a
  \<open>BlockStateDB\<close>. The \<open>uniswap_v3_math\<close> crate is the parameter \<open>v3_math\<close>; \<open>i32\<close> and \<open>I256\<close> values
  are words read by \<open>sint\<close>. A Rust \<open>Option\<close> that can also panic is an \<open>option run\<close>: the walk panics
  on a tick spacing of 0, and returns \<open>None\<close> when slot0, the liquidity or a crossed tick is missing,
  or when the crate's functions or a checked operation fail.
\<close>

section \<open>Operations\<close>

record v3_math =
  sqrt_ratio_at_tick :: "32 word \<Rightarrow> u256 option"
  tick_at_sqrt_ratio :: "u256 \<Rightarrow> 32 word option"
  compute_swap_step ::
    "u256 \<Rightarrow> u256 \<Rightarrow> u128 \<Rightarrow> 256 word \<Rightarrow> u32 \<Rightarrow> (u256 \<times> u256 \<times> u256 \<times> u256) option"

definition MIN_SQRT_RATIO :: u256 where
  "MIN_SQRT_RATIO = 4295128739"

definition MAX_SQRT_RATIO :: u256 where
  "MAX_SQRT_RATIO = 6743328256752651558 + 17280870778742802505 * 2 ^ 64 + 4294805859 * 2 ^ 128"

definition MAX_TICK_ITERATIONS :: nat where
  "MAX_TICK_ITERATIONS = 500"

text \<open>\<open>/\<close> of \<open>i32\<close> panics on a zero divisor and on \<open>MIN / -1\<close>, as does \<open>%\<close>.\<close>

definition i32_div :: "32 word \<Rightarrow> 32 word \<Rightarrow> 32 word run" where
  "i32_div a b = (if b = 0 \<or> (a = 0x80000000 \<and> b = - 1) then None else Some (a sdiv b))"

definition compress_tick :: "32 word \<Rightarrow> 32 word \<Rightarrow> 32 word run" where
  "compress_tick tick tick_spacing =
    do {
      q \<leftarrow> i32_div tick tick_spacing;
      Some (if tick <s 0 \<and> tick smod tick_spacing \<noteq> 0 then q - 1 else q)
    }"

text \<open>\<open>((c % 256 + 256) % 256) as u8\<close>.\<close>

definition bit_pos_of :: "32 word \<Rightarrow> nat" where
  "bit_pos_of c = unat (ucast (((c smod 256) + 256) smod 256) :: u8)"

definition set_bits_of :: "u256 \<Rightarrow> nat list" where
  "set_bits_of x = filter (\<lambda>i. bit x i) [0..<256]"

text \<open>\<open>bit_len() - 1\<close> and \<open>trailing_zeros()\<close>, both cast to \<open>u8\<close>; callers pass a non-zero word.\<close>

definition most_significant_bit_u256 :: "u256 \<Rightarrow> nat" where
  "most_significant_bit_u256 x = (case set_bits_of x of [] \<Rightarrow> 255 | i # is \<Rightarrow> last (i # is))"

definition least_significant_bit_u256 :: "u256 \<Rightarrow> nat" where
  "least_significant_bit_u256 x = (case set_bits_of x of [] \<Rightarrow> 0 | i # _ \<Rightarrow> i)"

definition find_next_initialized_tick ::
    "(u8 list \<Rightarrow> u256) \<Rightarrow> block_state_db \<Rightarrow> address \<Rightarrow> 32 word \<Rightarrow> 32 word \<Rightarrow> bool \<Rightarrow> (32 word \<times> bool) run"
where
  "find_next_initialized_tick keccak db pool tick tick_spacing zero_for_one =
    do {
      compressed \<leftarrow> compress_tick tick tick_spacing;
      let c = (if zero_for_one then compressed else compressed + 1);
      let word_pos = word_pos_of c;
      let bit_pos = bit_pos_of c;
      let bitmap = (case read_v3_tick_bitmap keccak db pool word_pos of Some b \<Rightarrow> b | None \<Rightarrow> 0);
      Some (if zero_for_one
            then let mask = (if bit_pos = 255 then - 1 else shl 1 (bit_pos + 1) - 1);
                     masked = bitmap AND mask
                 in if masked \<noteq> 0
                    then ((scast word_pos * 256 + of_nat (most_significant_bit_u256 masked)) * tick_spacing, True)
                    else ((scast word_pos * 256) * tick_spacing, False)
            else let masked = bitmap AND shl (- 1) bit_pos
                 in if masked \<noteq> 0
                    then ((scast word_pos * 256 + of_nat (least_significant_bit_u256 masked)) * tick_spacing, True)
                    else (((scast word_pos + 1) * 256 - 1) * tick_spacing, False))
    }"

record v3_state =
  vs_sqrt_price :: u256
  vs_liq :: u128
  vs_remaining :: "256 word"
  vs_calculated :: u256
  vs_tick :: "32 word"

definition i256_try_from :: "u256 \<Rightarrow> 256 word option" where
  "i256_try_from x = (if unat x < 2 ^ 255 then Some x else None)"

definition signed_checked_sub :: "'a::len word \<Rightarrow> 'a word \<Rightarrow> 'a word option" where
  "signed_checked_sub a b = (if sint (a - b) = sint a - sint b then Some (a - b) else None)"

definition signed_checked_add :: "'a::len word \<Rightarrow> 'a word \<Rightarrow> 'a word option" where
  "signed_checked_add a b = (if sint (a + b) = sint a + sint b then Some (a + b) else None)"

definition clamp_tick :: "32 word \<Rightarrow> 32 word" where
  "clamp_tick t = (if t <s - 887272 then - 887272 else if 887272 <s t then 887272 else t)"

text \<open>One iteration after the next tick is known; \<open>None\<close> is the early \<open>return None\<close> of a \<open>?\<close>.\<close>

definition v3_step ::
    "v3_math \<Rightarrow> (u8 list \<Rightarrow> u256) \<Rightarrow> block_state_db \<Rightarrow> address \<Rightarrow> bool \<Rightarrow> u32 \<Rightarrow> 32 word \<times> bool \<Rightarrow>
     v3_state \<Rightarrow> v3_state option" where
  "v3_step math keccak db pool zero_for_one fee found s =
    do {
      let next_tick = clamp_tick (fst found);
      sqrt_price_next \<leftarrow> sqrt_ratio_at_tick math next_tick;
      let limit = (if zero_for_one then MIN_SQRT_RATIO + 1 else MAX_SQRT_RATIO - 1);
      let target = (if zero_for_one
                    then (if sqrt_price_next < limit then limit else sqrt_price_next)
                    else (if limit < sqrt_price_next then limit else sqrt_price_next));
      (new_sqrt_price, amount_in_step, amount_out_step, fee_amount) \<leftarrow>
        compute_swap_step math (vs_sqrt_price s) target (vs_liq s) (vs_remaining s) fee;
      step_cost_u \<leftarrow> checked_add amount_in_step fee_amount;
      step_cost \<leftarrow> i256_try_from step_cost_u;
      remaining \<leftarrow> signed_checked_sub (vs_remaining s) step_cost;
      calculated \<leftarrow> checked_add (vs_calculated s) amount_out_step;
      let s = s\<lparr>vs_remaining := remaining, vs_calculated := calculated, vs_sqrt_price := new_sqrt_price\<rparr>;
      if new_sqrt_price = sqrt_price_next
      then do {
        liq \<leftarrow> (if snd found
                then do {
                  (_, liquidity_net) \<leftarrow> read_v3_tick keccak db pool next_tick;
                  (if zero_for_one then signed_checked_sub (vs_liq s) liquidity_net
                   else signed_checked_add (vs_liq s) liquidity_net)
                }
                else Some (vs_liq s));
        Some (s\<lparr>vs_liq := liq, vs_tick := (if zero_for_one then next_tick - 1 else next_tick)\<rparr>)
      }
      else do {
        t \<leftarrow> tick_at_sqrt_ratio math new_sqrt_price;
        Some (s\<lparr>vs_tick := t\<rparr>)
      }
    }"

text \<open>The loop; the first argument counts the iterations left of \<open>MAX_TICK_ITERATIONS\<close>.\<close>

fun v3_loop ::
    "nat \<Rightarrow> v3_math \<Rightarrow> (u8 list \<Rightarrow> u256) \<Rightarrow> block_state_db \<Rightarrow> address \<Rightarrow> bool \<Rightarrow> u32 \<Rightarrow> 32 word \<Rightarrow>
     v3_state \<Rightarrow> u256 option run" where
  "v3_loop 0 math keccak db pool zfo fee spacing s = Some (Some (vs_calculated s))"
| "v3_loop (Suc n) math keccak db pool zfo fee spacing s =
    (if vs_remaining s \<noteq> 0 \<and> 0 < vs_liq s
     then do {
       found \<leftarrow> find_next_initialized_tick keccak db pool (vs_tick s) spacing zfo;
       (case v3_step math keccak db pool zfo fee found s of
          None \<Rightarrow> Some None
        | Some s' \<Rightarrow> v3_loop n math keccak db pool zfo fee spacing s')
     }
     else Some (Some (vs_calculated s)))"

definition get_amount_out_v3 ::
    "v3_math \<Rightarrow> (u8 list \<Rightarrow> u256) \<Rightarrow> block_state_db \<Rightarrow> address \<Rightarrow> u256 \<Rightarrow> bool \<Rightarrow> u32 \<Rightarrow> 32 word \<Rightarrow>
     u256 option run" where
  "get_amount_out_v3 math keccak db pool amount_in zero_for_one fee tick_spacing =
    (if amount_in = 0 then Some (Some 0)
     else case read_v3_slot0 db pool of
       None \<Rightarrow> Some None
     | Some (sqrt_price_x96, current_tick) \<Rightarrow>
         if sqrt_price_x96 = 0 then Some None
         else case (read_v3_liquidity db pool, i256_try_from amount_in) of
           (Some liquidity, Some amount_remaining) \<Rightarrow>
             v3_loop MAX_TICK_ITERATIONS math keccak db pool zero_for_one fee tick_spacing
               \<lparr> vs_sqrt_price = sqrt_price_x96, vs_liq = liquidity, vs_remaining = amount_remaining,
                 vs_calculated = 0, vs_tick = current_tick \<rparr>
         | _ \<Rightarrow> Some None)"

definition v3_rate_1e18 ::
    "v3_math \<Rightarrow> (u8 list \<Rightarrow> u256) \<Rightarrow> block_state_db \<Rightarrow> address \<Rightarrow> u256 \<Rightarrow> bool \<Rightarrow> u32 \<Rightarrow> 32 word \<Rightarrow>
     u256 run" where
  "v3_rate_1e18 math keccak db pool amount_in zero_for_one fee tick_spacing =
    do {
      r \<leftarrow> get_amount_out_v3 math keccak db pool amount_in zero_for_one fee tick_spacing;
      let amount_out = (case r of Some v \<Rightarrow> v | None \<Rightarrow> 0);
      Some (if amount_in = 0 \<or> amount_out = 0 then 0 else (amount_out * v2_scale) div amount_in)
    }"

section \<open>The bitmap search\<close>

text \<open>Ticks and spacings that a V3 pool can have; the search does not overflow on them.\<close>

definition tick_range :: "32 word \<Rightarrow> 32 word \<Rightarrow> bool" where
  "tick_range tick tick_spacing \<longleftrightarrow>
     \<bar>sint tick\<bar> \<le> 887273 \<and> 0 < sint tick_spacing \<and> sint tick_spacing \<le> 16384"

lemma sdiv_smod_floor:
  fixes t s :: int
  assumes "0 < s"
  shows "(if t < 0 \<and> t smod s \<noteq> 0 then t sdiv s - 1 else t sdiv s) = t div s"
proof (cases "t < 0")
  case True
  define u where "u = - t"
  have u: "0 < u" "t = - u" using True by (simp_all add: u_def)
  have "- u div s = (if u mod s = 0 then - (u div s) else - (u div s) - 1)"
    using assms by (simp add: zdiv_zminus1_eq_if)
  then show ?thesis
    using u assms by (simp add: signed_divide_int_def signed_modulo_int_def)
next
  case False
  then show ?thesis
    using assms by (cases "t = 0") (simp_all add: signed_divide_int_def)
qed

lemma compress_tick_floor:
  assumes "tick_range tick ts"
  shows "compress_tick tick ts = Some (word_of_int (sint tick div sint ts))"
proof -
  note r = assms [unfolded tick_range_def]
  have "ts \<noteq> 0" using r by auto
  moreover have "ts \<noteq> - 1" using r by auto
  ultimately have d: "i32_div tick ts = Some (tick sdiv ts)" by (simp add: i32_div_def)
  have "\<bar>sint tick smod sint ts\<bar> < 2 ^ 31"
  proof -
    have "\<bar>sint tick smod sint ts\<bar> \<le> \<bar>sint tick\<bar> mod \<bar>sint ts\<bar>"
      using r by (simp add: signed_modulo_int_def abs_mult sgn_if)
    also have "\<dots> < \<bar>sint ts\<bar>" using r by simp
    finally show ?thesis using r by simp
  qed
  then have "sint (tick smod ts) = sint tick smod sint ts"
    unfolding signed_modulo_word_def by (intro sint_of_int_small) auto
  then have "tick smod ts \<noteq> 0 \<longleftrightarrow> sint tick smod sint ts \<noteq> 0"
    by (metis sint_0 word_of_sint word_of_int_0)
  then have "(if tick <s 0 \<and> tick smod ts \<noteq> 0 then tick sdiv ts - 1 else tick sdiv ts) =
      word_of_int (if sint tick < 0 \<and> sint tick smod sint ts \<noteq> 0 then sint tick sdiv sint ts - 1
                   else sint tick sdiv sint ts)"
    by (simp add: word_sless_alt signed_divide_word_def)
  moreover have "0 < sint ts" using r by simp
  ultimately show ?thesis
    by (simp add: compress_tick_def d sdiv_smod_floor)
qed

lemma bit_pos_of_small:
  assumes "\<bar>c\<bar> < 2 ^ 30"
  shows "bit_pos_of (word_of_int c) = nat (c mod 256)"
proof -
  have c: "sint (word_of_int c :: 32 word) = c"
    using assms by (intro sint_of_int_small) auto
  have b: "- 256 < c smod 256" "c smod 256 < 256"
    by (auto simp: signed_modulo_int_def sgn_if)
  have "(c smod 256 + 256) smod 256 = c mod 256"
  proof -
    have "c smod 256 = c mod 256 \<or> c smod 256 = c mod 256 - 256"
      by (auto simp: signed_modulo_int_def sgn_if zmod_zminus1_eq_if)
    moreover have "0 \<le> c mod 256" "c mod 256 < 256" by simp_all
    ultimately show ?thesis
      by (auto simp: signed_modulo_int_def sgn_if)
  qed
  moreover have "(word_of_int c :: 32 word) smod 256 = word_of_int (c smod 256)"
    by (simp add: signed_modulo_word_def c)
  moreover have "sint (word_of_int (c smod 256) + 256 :: 32 word) = c smod 256 + 256"
  proof -
    have "(word_of_int (c smod 256) + 256 :: 32 word) = word_of_int (c smod 256 + 256)" by simp
    then show ?thesis using b by (simp only:) (rule sint_of_int_small, simp_all)
  qed
  ultimately have "((word_of_int c :: 32 word) smod 256 + 256) smod 256 = word_of_int (c mod 256)"
    by (simp add: signed_modulo_word_def)
  moreover have "uint (ucast (word_of_int (c mod 256) :: 32 word) :: u8) = c mod 256"
    by (simp add: unsigned_ucast_eq unsigned_of_int take_bit_eq_mod)
  ultimately show ?thesis by (simp add: bit_pos_of_def flip: nat_uint_eq)
qed

lemma word_pos_small:
  assumes "\<bar>c\<bar> < 2 ^ 22"
  shows "scast (word_pos_of (word_of_int c)) = (word_of_int (c div 256) :: 32 word)"
proof -
  have "sint (word_of_int c :: 32 word) = c" using assms by (intro sint_of_int_small) auto
  moreover have "- (2 ^ 15) \<le> c div 256" "c div 256 < 2 ^ 15" using assms by auto
  ultimately show ?thesis
    unfolding scast_eq word_pos_of_def by (subst sint_of_int_small) simp_all
qed

text \<open>The bits that the two masks keep.\<close>

lemma bit_left_mask:
  assumes "b < 256"
  shows "bit (x AND (if b = 255 then - 1 else shl 1 (b + 1) - 1)) i \<longleftrightarrow> i \<le> b \<and> bit (x :: u256) i"
proof (cases "b = 255")
  case True
  then show ?thesis by (auto dest: bit_imp_le_length)
next
  case False
  then show ?thesis
    using and_low_mask [of x "b + 1"] by (auto simp: bit_take_bit_iff)
qed

lemma bit_right_mask: "bit (x AND shl (- 1) b) i \<longleftrightarrow> b \<le> i \<and> bit (x :: u256) i"
  by (auto simp: bit_and_iff bit_push_bit_iff bit_not_iff bit_mask_iff dest: bit_imp_le_length)

lemma set_bits_of: "set (set_bits_of x) = {i. bit x i}"
  by (auto simp: set_bits_of_def dest: bit_imp_le_length)

lemma set_bits_Nil: "set_bits_of x = [] \<longleftrightarrow> x = 0"
proof
  assume "set_bits_of x = []"
  then have "\<not> bit x i" for i using set_bits_of [of x] by auto
  then show "x = 0" by (intro bit_word_eqI) simp
qed (simp add: set_bits_of_def)

lemma sorted_set_bits: "sorted (set_bits_of x)"
  by (simp add: set_bits_of_def sorted_filter [of id, simplified])

lemma msb_spec:
  assumes "x \<noteq> 0"
  shows "bit x (most_significant_bit_u256 x)" and "bit x i \<Longrightarrow> i \<le> most_significant_bit_u256 x"
proof -
  let ?l = "set_bits_of x"
  have ne: "?l \<noteq> []" using assms by (simp add: set_bits_Nil)
  then have m: "most_significant_bit_u256 x = last ?l"
    by (simp add: most_significant_bit_u256_def split: list.split)
  then show "bit x (most_significant_bit_u256 x)"
    using last_in_set [OF ne] set_bits_of [of x] by auto
  show "i \<le> most_significant_bit_u256 x" if "bit x i"
    unfolding m by (rule sorted_le_last [OF sorted_set_bits]) (use that set_bits_of in auto)
qed

lemma lsb_spec:
  assumes "x \<noteq> 0"
  shows "bit x (least_significant_bit_u256 x)" and "bit x i \<Longrightarrow> least_significant_bit_u256 x \<le> i"
proof -
  obtain j js where l: "set_bits_of x = j # js"
    using assms set_bits_Nil by (cases "set_bits_of x") auto
  then show "bit x (least_significant_bit_u256 x)"
    using set_bits_of [of x] by (auto simp: least_significant_bit_u256_def)
  show "least_significant_bit_u256 x \<le> i" if "bit x i"
    using that l sorted_set_bits [of x] set_bits_of [of x]
    by (auto simp: least_significant_bit_u256_def)
qed

text \<open>Whether the bitmap in the database marks the compressed tick \<open>k\<close> as initialized.\<close>

definition bitmap_word :: "(u8 list \<Rightarrow> u256) \<Rightarrow> block_state_db \<Rightarrow> address \<Rightarrow> int \<Rightarrow> u256" where
  "bitmap_word keccak db pool w =
    (case read_v3_tick_bitmap keccak db pool (word_of_int w) of Some b \<Rightarrow> b | None \<Rightarrow> 0)"

definition is_initialized :: "(u8 list \<Rightarrow> u256) \<Rightarrow> block_state_db \<Rightarrow> address \<Rightarrow> int \<Rightarrow> bool" where
  "is_initialized keccak db pool k = bit (bitmap_word keccak db pool (k div 256)) (nat (k mod 256))"

lemma int_split_256: "(k::int) = k div 256 * 256 + int (nat (k mod 256))"
  by simp

lemma same_word:
  assumes "w * 256 \<le> k" "k < (w + 1) * (256::int)"
  shows "k div 256 = w" and "int (nat (k mod 256)) = k - w * 256"
proof -
  show w: "k div 256 = w"
    using assms by (intro int_div_pos_eq [of k 256 w "k - w * 256"]) auto
  show "int (nat (k mod 256)) = k - w * 256"
    using int_split_256 [of k] unfolding w by simp
qed

lemma find_left:
  assumes C: "w = C div 256" "b = nat (C mod 256)"
    and m: "m = B AND (if b = 255 then - 1 else shl 1 (b + 1) - 1)" and B: "B = bitmap_word keccak db pool w"
    and k: "k = (if m \<noteq> 0 then w * 256 + int (most_significant_bit_u256 m) else w * 256)"
  shows "k \<le> C \<and> C - 256 < k \<and> (m \<noteq> 0 \<longleftrightarrow> is_initialized keccak db pool k) \<and>
         (\<forall>j. k < j \<and> j \<le> C \<longrightarrow> \<not> is_initialized keccak db pool j)"
proof -
  have b: "b < 256" "C = w * 256 + int b" using C int_split_256 [of C] by auto
  have in_word: "is_initialized keccak db pool j \<longleftrightarrow> bit B (nat (j - w * 256)) \<and> w * 256 \<le> j"
    if "w * 256 \<le> j" "j \<le> C" for j
    using same_word [of w j] that b unfolding is_initialized_def B by simp
  have bm: "bit m i \<longleftrightarrow> i \<le> b \<and> bit B i" for i
    unfolding m by (rule bit_left_mask [OF b(1)])
  show ?thesis
  proof (cases "m = 0")
    case True
    then have "\<not> bit B i" if "i \<le> b" for i using bm [of i] that by simp
    then show ?thesis
      using in_word b k True by auto
  next
    case False
    let ?i = "most_significant_bit_u256 m"
    have i: "?i \<le> b" "bit B ?i" using msb_spec(1) [OF False] bm by auto
    have "\<not> is_initialized keccak db pool j" if j: "w * 256 + int ?i < j" "j \<le> C" for j
    proof
      assume "is_initialized keccak db pool j"
      then have "bit m (nat (j - w * 256))" using in_word [of j] j b bm by auto
      then show False using msb_spec(2) [OF False, of "nat (j - w * 256)"] j by auto
    qed
    then show ?thesis
      using in_word [of "w * 256 + int ?i"] i b k False by auto
  qed
qed

lemma find_right:
  assumes C: "w = C div 256" "b = nat (C mod 256)"
    and m: "m = B AND shl (- 1) b" and B: "B = bitmap_word keccak db pool w"
    and k: "k = (if m \<noteq> 0 then w * 256 + int (least_significant_bit_u256 m) else (w + 1) * 256 - 1)"
  shows "C \<le> k \<and> k < C + 256 \<and> (m \<noteq> 0 \<longleftrightarrow> is_initialized keccak db pool k) \<and>
         (\<forall>j. C \<le> j \<and> j < k \<longrightarrow> \<not> is_initialized keccak db pool j)"
proof -
  have b: "b < 256" "C = w * 256 + int b" using C int_split_256 [of C] by auto
  have in_word: "is_initialized keccak db pool j \<longleftrightarrow> bit B (nat (j - w * 256))"
    if "C \<le> j" "j < (w + 1) * 256" for j
    using same_word [of w j] that b unfolding is_initialized_def B by simp
  have bm: "bit m i \<longleftrightarrow> b \<le> i \<and> bit B i" for i
    unfolding m by (rule bit_right_mask)
  show ?thesis
  proof (cases "m = 0")
    case True
    then have "\<not> bit B i" if "b \<le> i" for i using bm [of i] that by simp
    then show ?thesis
      using in_word b k True by auto
  next
    case False
    let ?i = "least_significant_bit_u256 m"
    have i: "b \<le> ?i" "bit B ?i" using lsb_spec(1) [OF False] bm by auto
    then have i256: "?i < 256" by (auto dest: bit_imp_le_length)
    have "\<not> is_initialized keccak db pool j" if j: "C \<le> j" "j < w * 256 + int ?i" for j
    proof
      assume "is_initialized keccak db pool j"
      then have "bit m (nat (j - w * 256))" using in_word [of j] j b bm i256 by auto
      then show False using lsb_spec(2) [OF False, of "nat (j - w * 256)"] j b by auto
    qed
    then show ?thesis
      using in_word [of "w * 256 + int ?i"] i i256 b k False by auto
  qed
qed

lemma abs_div_le:
  assumes "0 < (s::int)"
  shows "\<bar>t div s\<bar> \<le> \<bar>t\<bar>"
proof (cases "0 \<le> t")
  case True
  then show ?thesis using zdiv_mono2 [of t 1 s] assms by (simp add: pos_imp_zdiv_nonneg_iff)
next
  case False
  then have "t div s < 0" using assms by (simp add: pos_imp_zdiv_neg_iff)
  then show ?thesis using zdiv_mono2_neg [of t 1 s] assms False by simp
qed

text \<open>The search computes in 32-bit words what the lemmas above say of integers.\<close>

lemma find_next_value:
  fixes zfo :: bool and keccak :: "u8 list \<Rightarrow> u256" and db :: block_state_db and pool :: address
  assumes "tick_range tick ts"
  defines "C \<equiv> (if zfo then sint tick div sint ts else sint tick div sint ts + 1)"
  defines "w \<equiv> C div 256" and "b \<equiv> nat (C mod 256)"
  defines "B \<equiv> bitmap_word keccak db pool w"
  defines "m \<equiv> (if zfo then B AND (if b = 255 then - 1 else shl 1 (b + 1) - 1) else B AND shl (- 1) b)"
  defines "k \<equiv> (if zfo then (if m \<noteq> 0 then w * 256 + int (most_significant_bit_u256 m) else w * 256)
                else (if m \<noteq> 0 then w * 256 + int (least_significant_bit_u256 m) else (w + 1) * 256 - 1))"
  shows "find_next_initialized_tick keccak db pool tick ts zfo = Some (word_of_int (k * sint ts), m \<noteq> 0)"
proof -
  note r = assms(1) [unfolded tick_range_def]
  have c: "(if zfo then word_of_int (sint tick div sint ts) else word_of_int (sint tick div sint ts) + 1)
             = (word_of_int C :: 32 word)"
    by (simp add: C_def)
  have "\<bar>sint tick div sint ts\<bar> \<le> 887273"
    using abs_div_le [of "sint ts" "sint tick"] r by linarith
  then have small: "\<bar>C\<bar> < 2 ^ 22" by (auto simp: C_def)
  have bp: "bit_pos_of (word_of_int C) = b"
    using small unfolding b_def by (intro bit_pos_of_small) auto
  have wp: "scast (word_pos_of (word_of_int C)) = (word_of_int w :: 32 word)"
    using word_pos_small [OF small] by (simp add: w_def)
  have "word_pos_of (word_of_int C) = word_of_int w"
    using small sint_of_int_small [of C, where 'a = 32] by (simp add: word_pos_of_def w_def)
  then have bm: "(case read_v3_tick_bitmap keccak db pool (word_pos_of (word_of_int C)) of
                    Some x \<Rightarrow> x | None \<Rightarrow> 0) = B"
    by (simp add: B_def bitmap_word_def)
  have m': "m = (if zfo then B AND (if b = 255 then - 1 else shl 1 (b + 1) - 1) else B AND shl (- 1) b)"
    by (simp add: m_def)
  have "find_next_initialized_tick keccak db pool tick ts zfo =
      Some (word_of_int k * ts, m \<noteq> 0)"
    unfolding find_next_initialized_tick_def compress_tick_floor [OF assms(1)] bind.bind_lunit
      Let_def c bp bm wp m_def k_def
    by simp
  also have "word_of_int k * ts = word_of_int (k * sint ts)" by simp
  finally show ?thesis .
qed

lemma find_next_correct:
  assumes "tick_range tick ts"
  defines "C \<equiv> sint tick div sint ts"
  shows "\<exists>k found. find_next_initialized_tick keccak db pool tick ts zfo = Some (found, is_initialized keccak db pool k)
           \<and> sint found = k * sint ts \<and>
           (if zfo then k \<le> C \<and> C - 256 < k \<and> (\<forall>j. k < j \<and> j \<le> C \<longrightarrow> \<not> is_initialized keccak db pool j)
            else C < k \<and> k \<le> C + 256 \<and> (\<forall>j. C < j \<and> j < k \<longrightarrow> \<not> is_initialized keccak db pool j))"
proof -
  note r = assms(1) [unfolded tick_range_def]
  obtain k where k: "find_next_initialized_tick keccak db pool tick ts zfo =
        Some (word_of_int (k * sint ts), is_initialized keccak db pool k)"
      "if zfo then k \<le> C \<and> C - 256 < k \<and> (\<forall>j. k < j \<and> j \<le> C \<longrightarrow> \<not> is_initialized keccak db pool j)
       else C < k \<and> k \<le> C + 256 \<and> (\<forall>j. C < j \<and> j < k \<longrightarrow> \<not> is_initialized keccak db pool j)"
  proof (cases zfo)
    case True
    define w b where "w = C div 256" and "b = nat (C mod 256)"
    define m where "m = bitmap_word keccak db pool w AND (if b = 255 then - 1 else shl 1 (b + 1) - 1)"
    define k where "k = (if m \<noteq> 0 then w * 256 + int (most_significant_bit_u256 m) else w * 256)"
    have "find_next_initialized_tick keccak db pool tick ts True = Some (word_of_int (k * sint ts), m \<noteq> 0)"
      unfolding k_def m_def b_def w_def C_def
      using find_next_value [OF assms(1), of keccak db pool True] by (simp only: if_True)
    then show ?thesis
      using that [of k] find_left [OF w_def(1) b_def m_def refl k_def] True by simp
  next
    case False
    define w b where "w = (C + 1) div 256" and "b = nat ((C + 1) mod 256)"
    define m where "m = bitmap_word keccak db pool w AND shl (- 1) b"
    define k where "k = (if m \<noteq> 0 then w * 256 + int (least_significant_bit_u256 m) else (w + 1) * 256 - 1)"
    have "find_next_initialized_tick keccak db pool tick ts False = Some (word_of_int (k * sint ts), m \<noteq> 0)"
      unfolding k_def m_def b_def w_def C_def
      using find_next_value [OF assms(1), of keccak db pool False] by (simp only: if_False)
    then show ?thesis
      using that [of k] find_right [OF w_def b_def m_def refl k_def] False by simp
  qed
  have mod: "sint tick = C * sint ts + sint tick mod sint ts" "0 \<le> sint tick mod sint ts"
      "sint tick mod sint ts < sint ts"
    using r by (simp_all add: C_def)
  have "C - 256 \<le> k" "k \<le> C + 256" using k(2) by (auto split: if_splits)
  then have "(C - 256) * sint ts \<le> k * sint ts" "k * sint ts \<le> (C + 256) * sint ts"
    using r by (simp_all add: mult_right_mono)
  then have "C * sint ts - 256 * sint ts \<le> k * sint ts" "k * sint ts \<le> C * sint ts + 256 * sint ts"
    by (simp_all add: algebra_simps)
  then have "- 2147483648 \<le> k * sint ts" "k * sint ts < 2147483648"
    using mod r by linarith+
  then have "sint (word_of_int (k * sint ts) :: 32 word) = k * sint ts"
    by (intro sint_of_int_small) simp_all
  then show ?thesis using k by blast
qed

text \<open>
  A pool without liquidity is quoted as \<open>Some(0)\<close>, not \<open>None\<close>: the walk does not start, although the
  whole input is left.
\<close>

lemma v3_loop_stops: "vs_liq s = 0 \<Longrightarrow> v3_loop n math keccak db pool zfo fee ts s = Some (Some (vs_calculated s))"
  by (cases n) simp_all

lemma v3_no_liquidity_quotes_zero:
  assumes "read_v3_slot0 db pool = Some (sqrt_price, tick)" "sqrt_price \<noteq> 0"
    and "read_v3_liquidity db pool = Some 0" "unat amount_in < 2 ^ 255"
  shows "get_amount_out_v3 math keccak db pool amount_in zfo fee ts = Some (Some 0)"
  using assms by (simp add: get_amount_out_v3_def i256_try_from_def v3_loop_stops)

section \<open>Properties\<close>



end
