(* ===== verification/CalcAerodrome.thy ===== *)
theory CalcAerodrome
  imports SwapCurve
begin

text \<open>
  \<open>src/calculation/aerodrome.rs\<close>: the volatile (constant-product) and the stable
  (\<open>x\<^sup>3 y + x y\<^sup>3\<close>) Aerodrome curves. Every division but the volatile one has a divisor that the
  source has just tested or a constant, so only \<open>get_amount_out_volatile\<close> can panic, when
  \<open>reserve_in + amount_in\<close> wraps to 0. The lemmas show that the volatile curve is a
  \<open>monotone_curve\<close> in both directions, and what the Newton iteration of the stable curve returns.
\<close>

section \<open>Operations\<close>

definition AERODROME_VOLATILE_FEE_BPS :: u64 where
  "AERODROME_VOLATILE_FEE_BPS = 30"

definition AERODROME_STABLE_FEE_BPS :: u64 where
  "AERODROME_STABLE_FEE_BPS = 5"

definition ONE_E18 :: u256 where
  "ONE_E18 = 1000000000000000000"

definition get_amount_out_volatile :: "u256 \<Rightarrow> u256 \<Rightarrow> u256 \<Rightarrow> bool \<Rightarrow> u256 run" where
  "get_amount_out_volatile amount_in reserve0 reserve1 zero_for_one =
    (let (reserve_in, reserve_out) =
           (if zero_for_one then (reserve0, reserve1) else (reserve1, reserve0))
     in if reserve_in = 0 then Some 0
        else div_run (amount_in * reserve_out) (reserve_in + amount_in))"

definition k_stable :: "u256 \<Rightarrow> u256 \<Rightarrow> u256 \<Rightarrow> u256 \<Rightarrow> u256" where
  "k_stable x y dec0 dec1 =
    (if dec0 = 0 \<or> dec1 = 0 then 0
     else
       let x' = (x * ONE_E18) div dec0;
           y' = (y * ONE_E18) div dec1;
           a = (x' * y') div ONE_E18;
           b = (x' * x') div ONE_E18 + (y' * y') div ONE_E18
       in (a * b) div ONE_E18)"

definition f_stable :: "u256 \<Rightarrow> u256 \<Rightarrow> u256" where
  "f_stable x0 y =
    (let a = (x0 * y) div ONE_E18;
         b = (x0 * x0) div ONE_E18 + (y * y) div ONE_E18
     in (a * b) div ONE_E18)"

definition d_stable :: "u256 \<Rightarrow> u256 \<Rightarrow> u256" where
  "d_stable x0 y =
    (let y2 = (y * y) div ONE_E18;
         x0_3 = (x0 * x0 div ONE_E18) * x0 div ONE_E18
     in 3 * x0 * y2 div ONE_E18 + x0_3)"

text \<open>The loop of \<open>get_y_stable\<close>; the first argument counts the iterations left.\<close>

fun get_y_loop :: "nat \<Rightarrow> u256 \<Rightarrow> u256 \<Rightarrow> u256 \<Rightarrow> u256" where
  "get_y_loop 0 x0 xy y = 0"
| "get_y_loop (Suc n) x0 xy y =
    (let k = f_stable x0 y;
         d = d_stable x0 y
     in if d = 0 then 0
        else if k < xy then
          (let dy = ((xy - k) * ONE_E18) div d
           in if dy = 0
              then (if k = xy then y else get_y_loop n x0 xy (saturating_add y 1))
              else get_y_loop n x0 xy (saturating_add y dy))
        else
          (let dy = ((k - xy) * ONE_E18) div d
           in if dy = 0
              then (if k = xy \<or> f_stable x0 (saturating_sub y 1) < xy then y
                    else get_y_loop n x0 xy (saturating_sub y 1))
              else get_y_loop n x0 xy (saturating_sub y dy)))"

definition get_y_stable :: "u256 \<Rightarrow> u256 \<Rightarrow> u256 \<Rightarrow> u256" where
  "get_y_stable x0 xy y = get_y_loop 255 x0 xy y"

definition norm_stable :: "u256 \<Rightarrow> u256 \<Rightarrow> u256" where
  "norm_stable x dec = (if dec = 0 then 0 else (x * ONE_E18) div dec)"

definition get_amount_out_stable ::
    "u256 \<Rightarrow> u256 \<Rightarrow> u256 \<Rightarrow> u256 \<Rightarrow> u256 \<Rightarrow> bool \<Rightarrow> u256" where
  "get_amount_out_stable amount_in reserve0 reserve1 dec0 dec1 zero_for_one =
    (let xy = k_stable reserve0 reserve1 dec0 dec1;
         r0_norm = norm_stable reserve0 dec0;
         r1_norm = norm_stable reserve1 dec1;
         (amount_in_norm, reserve_a_norm, reserve_b_norm, dec_out) =
           (if zero_for_one then (norm_stable amount_in dec0, r0_norm, r1_norm, dec1)
            else (norm_stable amount_in dec1, r1_norm, r0_norm, dec0));
         new_reserve_a = reserve_a_norm + amount_in_norm;
         y = get_y_stable new_reserve_a xy reserve_b_norm
     in if reserve_b_norm \<le> y then 0
        else ((reserve_b_norm - y) * dec_out) div ONE_E18)"

definition get_amount_out_aerodrome ::
    "u256 \<Rightarrow> u256 \<Rightarrow> u256 \<Rightarrow> u8 \<Rightarrow> u8 \<Rightarrow> bool \<Rightarrow> u64 \<Rightarrow> bool \<Rightarrow> u256 run" where
  "get_amount_out_aerodrome amount_in reserve0 reserve1 token0_decimals token1_decimals
       is_stable fee_bps zero_for_one =
    (if amount_in = 0 \<or> reserve0 = 0 \<or> reserve1 = 0 then Some 0
     else
       let fee_numerator = ucast (10000 - fee_bps);
           amount_in_after_fee = (amount_in * fee_numerator) div 10000;
           dec0 = pow_word 10 (unat token0_decimals);
           dec1 = pow_word 10 (unat token1_decimals)
       in if is_stable
          then Some (get_amount_out_stable amount_in_after_fee reserve0 reserve1 dec0 dec1 zero_for_one)
          else get_amount_out_volatile amount_in_after_fee reserve0 reserve1 zero_for_one)"

definition aerodrome_rate_1e18 ::
    "u256 \<Rightarrow> u256 \<Rightarrow> u256 \<Rightarrow> u8 \<Rightarrow> u8 \<Rightarrow> bool \<Rightarrow> u64 \<Rightarrow> bool \<Rightarrow> u256 run" where
  "aerodrome_rate_1e18 reference_amount reserve0 reserve1 token0_decimals token1_decimals
       is_stable fee_bps zero_for_one =
    do {
      out \<leftarrow> get_amount_out_aerodrome reference_amount reserve0 reserve1 token0_decimals
               token1_decimals is_stable fee_bps zero_for_one;
      Some (if reference_amount = 0 then 0 else (out * ONE_E18) div reference_amount)
    }"

section \<open>The volatile curve\<close>

text \<open>The quote of a volatile pool, with the reserves given as (in, out) for either direction.\<close>

definition aero_volatile :: "u8 \<Rightarrow> u8 \<Rightarrow> u64 \<Rightarrow> bool \<Rightarrow> u256 \<Rightarrow> u256 \<Rightarrow> u256 \<Rightarrow> u256 run" where
  "aero_volatile d0 d1 fee_bps zero_for_one a ri ro =
     (if zero_for_one then get_amount_out_aerodrome a ri ro d0 d1 False fee_bps True
      else get_amount_out_aerodrome a ro ri d0 d1 False fee_bps False)"

definition aero_ok :: "u64 \<Rightarrow> u256 \<Rightarrow> u256 \<Rightarrow> u256 \<Rightarrow> bool" where
  "aero_ok fee_bps a ri ro \<longleftrightarrow>
     ri \<noteq> 0 \<and> unat fee_bps \<le> 10000 \<and> unat a * 10000 < 2 ^ 256 \<and>
     unat a * unat ro < 2 ^ 256 \<and> unat ri + unat a < 2 ^ 256"

lemma unat_fee_numerator:
  assumes "unat (fee_bps :: u64) \<le> 10000"
  shows "unat (ucast (10000 - fee_bps) :: u256) = 10000 - unat fee_bps"
proof -
  have "fee_bps \<le> 10000" using assms by (simp add: word_le_nat_alt)
  then show ?thesis by (simp add: unat_ucast_up unat_sub_exact)
qed

definition fee_part :: "nat \<Rightarrow> nat \<Rightarrow> nat" where
  "fee_part fee a = a * (10000 - fee) div 10000"

lemma fee_part_le: "fee_part fee a \<le> a"
proof -
  have "a * (10000 - fee) div 10000 \<le> a * 10000 div 10000"
    by (intro div_le_mono mult_le_mono2) simp
  then show ?thesis by (simp add: fee_part_def)
qed

lemma fee_part_mono: "a \<le> b \<Longrightarrow> fee_part fee a \<le> fee_part fee b"
  by (simp add: fee_part_def div_le_mono)

lemma aero_volatile_value:
  assumes "aero_ok fee a ri ro"
  shows "\<exists>v. aero_volatile d0 d1 fee z a ri ro = Some v \<and>
             unat v = (fee_part (unat fee) (unat a) * unat ro) div (unat ri + fee_part (unat fee) (unat a))"
proof (cases "a = 0 \<or> ro = 0")
  case True
  then show ?thesis
    by (auto simp: aero_volatile_def get_amount_out_aerodrome_def fee_part_def)
next
  case False
  let ?g = "a * ucast (10000 - fee) div 10000" and ?p = "fee_part (unat fee) (unat a)"
  note ok = assms [unfolded aero_ok_def]
  have "unat a * unat (ucast (10000 - fee) :: u256) \<le> unat a * 10000"
    using ok by (intro mult_le_mono) (simp_all add: unat_fee_numerator)
  also have "\<dots> < 2 ^ 256" using ok by simp
  finally have g: "unat ?g = ?p"
    using ok by (simp add: unat_div_distrib unat_mult_exact unat_fee_numerator fee_part_def)
  have le: "?p \<le> unat a" by (rule fee_part_le)
  then have "?p * unat ro < 2 ^ 256"
    using ok by (meson le_less_trans mult_le_mono1)
  then have n: "unat (?g * ro) = ?p * unat ro" by (simp add: unat_mult_exact g)
  have "unat ri + ?p < 2 ^ 256" using ok le by linarith
  then have d: "unat (ri + ?g) = unat ri + ?p" by (simp add: unat_add_exact g)
  have "0 < unat ri" using ok by (simp add: word_pos_unat)
  then have "ri + ?g \<noteq> 0" by (simp add: word_zero_iff_unat d)
  then have "aero_volatile d0 d1 fee z a ri ro = Some (?g * ro div (ri + ?g))"
    using False ok
    by (simp add: aero_volatile_def get_amount_out_aerodrome_def get_amount_out_volatile_def div_run_def Let_def)
  then show ?thesis by (simp add: unat_div_distrib n d)
qed

lemma div_curve_mono:
  assumes "(p::nat) \<le> q" "0 < r"
  shows "(p * ro) div (r + p) \<le> (q * ro) div (r + q)"
proof -
  let ?v = "(p * ro) div (r + p)"
  have v: "?v * (r + p) \<le> p * ro" by simp
  then have "?v * (r + p) \<le> ro * (r + p)"
    by (rule le_trans) (simp add: algebra_simps)
  then have vr: "?v \<le> ro" using assms(2) by (simp only: mult_le_cancel2)
  have "?v * (r + q) = ?v * (r + p) + ?v * (q - p)"
    using assms(1) by (simp add: distrib_left [symmetric])
  also have "\<dots> \<le> p * ro + ro * (q - p)"
    by (intro add_mono v mult_le_mono1 vr)
  also have "\<dots> = q * ro"
    using assms(1) by (simp add: algebra_simps diff_mult_distrib2)
  finally show ?thesis
    using assms(2) by (simp add: le_div_iff_mult_le_nat)
qed

interpretation aero: monotone_curve "aero_volatile d0 d1 fee z" "aero_ok fee" for d0 d1 fee z
proof unfold_locales
  fix a ri ro v
  assume ok: "aero_ok fee a ri ro"
  then show "\<exists>v. aero_volatile d0 d1 fee z a ri ro = Some v"
    using aero_volatile_value by blast
  show pos: "0 < unat ri" using ok by (simp add: aero_ok_def word_pos_unat)
  assume "aero_volatile d0 d1 fee z a ri ro = Some v"
  then have "unat v * (unat ri + fee_part (unat fee) (unat a)) \<le> fee_part (unat fee) (unat a) * unat ro"
    using aero_volatile_value [OF ok, of d0 d1 z] div_mult_le_nat by auto
  then show "unat v * (unat ri + unat a) \<le> unat a * unat ro"
    by (rule fee_first_curve_bound [OF _ fee_part_le pos])
next
  fix a ri ro b v w
  assume ok: "aero_ok fee a ri ro" "aero_ok fee b ri ro" and "a \<le> b"
    and "aero_volatile d0 d1 fee z a ri ro = Some v" "aero_volatile d0 d1 fee z b ri ro = Some w"
  moreover have "0 < unat ri" using ok by (simp add: aero_ok_def word_pos_unat)
  ultimately show "v \<le> w"
    using aero_volatile_value [OF ok(1), of d0 d1 z] aero_volatile_value [OF ok(2), of d0 d1 z]
    by (auto simp: word_le_nat_alt intro!: div_curve_mono fee_part_mono)
qed

section \<open>The stable curve\<close>

lemma get_y_loop_solution:
  "get_y_loop n x0 xy y = s \<Longrightarrow> s \<noteq> 0 \<Longrightarrow>
     xy \<le> f_stable x0 s \<and> (f_stable x0 s = xy \<or> f_stable x0 (saturating_sub s 1) < xy)"
proof (induction n x0 xy y rule: get_y_loop.induct)
  case (2 n x0 xy y)
  then show ?case
    by (auto simp: Let_def not_less split: if_splits)
qed simp

lemma get_y_stable_solution:
  assumes "get_y_stable x0 xy y \<noteq> 0"
  shows "xy \<le> f_stable x0 (get_y_stable x0 xy y)"
    and "f_stable x0 (get_y_stable x0 xy y) = xy \<or>
         f_stable x0 (saturating_sub (get_y_stable x0 xy y) 1) < xy"
  using get_y_loop_solution [OF refl, of 255 x0 xy y] assms by (simp_all add: get_y_stable_def)

lemma get_amount_out_stable_value:
  assumes "zero_for_one"
  shows "get_amount_out_stable amount_in reserve0 reserve1 dec0 dec1 zero_for_one =
    (let y = get_y_stable (norm_stable reserve0 dec0 + norm_stable amount_in dec0)
               (k_stable reserve0 reserve1 dec0 dec1) (norm_stable reserve1 dec1)
     in if norm_stable reserve1 dec1 \<le> y then 0
        else ((norm_stable reserve1 dec1 - y) * dec1) div ONE_E18)"
  using assms by (simp add: get_amount_out_stable_def Let_def)

text \<open>
  When the first derivative is 0 the iteration gives up with \<open>y = 0\<close>, and the caller takes that 0
  for the new output reserve: the quote is the pool's whole output reserve.
\<close>

lemma get_y_stable_degenerate: "d_stable x0 y = 0 \<Longrightarrow> get_y_stable x0 xy y = 0"
proof -
  assume "d_stable x0 y = 0"
  then have "get_y_loop (Suc 254) x0 xy y = 0"
    by (simp only: get_y_loop.simps Let_def simp_thms if_True)
  moreover have "Suc 254 = 255" by simp
  ultimately show "get_y_stable x0 xy y = 0" unfolding get_y_stable_def by metis
qed

lemma stable_quote_drains_pool:
  assumes "d_stable (norm_stable r0 dec0 + norm_stable a dec0) (norm_stable r1 dec1) = 0"
  shows "get_amount_out_stable a r0 r1 dec0 dec1 True = (norm_stable r1 dec1 * dec1) div ONE_E18"
  by (simp add: get_amount_out_stable_def get_y_stable_degenerate [OF assms] Let_def)

lemma aero_volatile_flip: "aero_volatile d0 d1 fee (\<not> z) = aero_volatile d0 d1 fee z"
  by (intro ext)
     (auto simp: aero_volatile_def get_amount_out_aerodrome_def get_amount_out_volatile_def Let_def)

section \<open>Properties\<close>

text \<open>
  The volatile Aerodrome quote, in either direction: where no product wraps it returns (no
  panic), never lowers the product of the reserves, and selling the proceeds back into the moved
  pool never returns more than was put in.
\<close>

lemma aerodrome_volatile_safe:
  assumes "aero_ok fee_bps a ri ro" "ro \<noteq> 0"
  shows "\<exists>v. aero_volatile d0 d1 fee_bps z a ri ro = Some v \<and> v < ro \<and>
             unat ri * unat ro \<le> (unat ri + unat a) * (unat ro - unat v) \<and>
             (\<forall>b. aero_ok fee_bps v (ro - v) (ri + a) \<longrightarrow>
                  aero_volatile d0 d1 fee_bps (\<not> z) v (ro - v) (ri + a) = Some b \<longrightarrow> b \<le> a)"
proof -
  obtain v where v: "aero_volatile d0 d1 fee_bps z a ri ro = Some v"
    using aero.ok_returns [OF assms(1)] by blast
  have "unat ri + unat a < 2 ^ 256"
    using assms(1) by (simp add: aero_ok_def)
  from aero.round_trip_no_profit [OF assms(1) v this assms(2)]
  show ?thesis
    using v aero.out_less_reserve [OF assms(1) v assms(2)] aero.product_grows [OF assms(1) v]
    unfolding aero_volatile_flip by (auto simp: word_less_nat_alt)
qed



text \<open>
  When the derivative of the invariant rounds to 0 at the start, which small reserves reach, the
  stable quote is the pool's whole output reserve.
\<close>

lemma aerodrome_stable_small_reserves:
  "get_amount_out_aerodrome 2 100000000 100000000 18 18 True 5 True = Some 100000000"
proof -
  have fee: "(2 * ucast (10000 - 5 :: u64) div 10000 :: u256) = 1" by simp
  have dec: "(pow_word 10 (unat (18 :: u8)) :: u256) = 1000000000000000000"
    by (simp add: pow_word_def)
  have norm: "norm_stable 100000000 1000000000000000000 = 100000000"
    "norm_stable 1 1000000000000000000 = 1"
    by (simp_all add: norm_stable_def ONE_E18_def)
  have "d_stable (100000000 + 1) 100000000 = 0" by (simp add: d_stable_def ONE_E18_def)
  from stable_quote_drains_pool [of 100000000 1000000000000000000 1 100000000
      1000000000000000000, unfolded norm, OF this]
  have "get_amount_out_stable 1 100000000 100000000 1000000000000000000 1000000000000000000 True
      = (100000000 * 1000000000000000000) div ONE_E18" .
  also have "\<dots> = 100000000" by (simp add: ONE_E18_def)
  finally have out: "get_amount_out_stable 1 100000000 100000000 1000000000000000000
      1000000000000000000 True = 100000000" .
  have nz: "(2 :: u256) \<noteq> 0" "(100000000 :: u256) \<noteq> 0" by simp_all
  show ?thesis
    unfolding get_amount_out_aerodrome_def Let_def fee dec out if_True
    by (simp only: nz simp_thms if_False)
qed

end
