(* ===== verification/Rates.thy ===== *)
theory Rates
  imports CalcV3 CalcAerodrome PoolTypes
begin

text \<open>
  \<open>src/calculation/rates.rs\<close>: the rate estimator that ranks paths before they are simulated. Rates
  are fixed-point numbers with 18 decimals in a map keyed by pool and direction. The V3 updates call
  the tick walk of CalcV3 and share its parameters; a panic there (a tick spacing of 0) or in the
  volatile Aerodrome curve is a panic of the update.
\<close>

section \<open>Helpers\<close>

definition RATE_SCALE :: u256 where
  "RATE_SCALE = 1000000000000000000"

definition decimal_reference :: "u8 \<Rightarrow> u256" where
  "decimal_reference decimals = pow_word 10 (unat decimals)"

definition normalized_rate :: "u256 \<Rightarrow> u8 \<Rightarrow> u256" where
  "normalized_rate amount_out out_decimals =
    (let dec = decimal_reference out_decimals
     in if dec = 0 \<or> amount_out = 0 then 0
        else case checked_mul amount_out RATE_SCALE of
          Some scaled \<Rightarrow> scaled div dec
        | None \<Rightarrow>
            (let shifted_a = shr amount_out 64; sdec = shr dec 64
             in if sdec = 0 then 0 else shifted_a * RATE_SCALE div sdec))"

definition mul_div :: "u256 \<Rightarrow> u256 \<Rightarrow> u256 \<Rightarrow> u256" where
  "mul_div a b d =
    (if d = 0 then 0
     else case checked_mul a b of
       Some product \<Rightarrow> product div d
     | None \<Rightarrow>
         (let shifted_a = shr a 64; shifted_d = shr d 64
          in if shifted_d = 0 then - 1 else (shifted_a * b) div shifted_d))"

section \<open>The estimator\<close>

record rate_estimator =
  est_rates :: "(address \<times> bool) \<rightharpoonup> u256"
  est_weth_prices :: "address \<rightharpoonup> u256"

definition estimator_new :: rate_estimator where
  "estimator_new = \<lparr> est_rates = Map.empty, est_weth_prices = Map.empty \<rparr>"

definition put_rate :: "address \<Rightarrow> bool \<Rightarrow> u256 \<Rightarrow> rate_estimator \<Rightarrow> rate_estimator" where
  "put_rate pool dir rate est = est\<lparr>est_rates := (est_rates est)((pool, dir) \<mapsto> rate)\<rparr>"

definition update_v2_rate ::
    "block_state_db \<Rightarrow> address \<Rightarrow> u8 \<Rightarrow> u8 \<Rightarrow> u64 \<Rightarrow> rate_estimator \<Rightarrow> rate_estimator" where
  "update_v2_rate db pool decimals0 decimals1 fee_factor est =
    (case read_v2_reserves db pool of
       None \<Rightarrow> est
     | Some (reserve0, reserve1) \<Rightarrow>
         if reserve0 = 0 \<or> reserve1 = 0 then est
         else
           let out_0to1 = get_amount_out_v2 (decimal_reference decimals0) reserve0 reserve1 fee_factor;
               est = put_rate pool True (normalized_rate out_0to1 decimals1) est;
               out_1to0 = get_amount_out_v2 (decimal_reference decimals1) reserve1 reserve0 fee_factor
           in put_rate pool False (normalized_rate out_1to0 decimals0) est)"

definition update_v3_rate ::
    "v3_math \<Rightarrow> (u8 list \<Rightarrow> u256) \<Rightarrow> block_state_db \<Rightarrow> address \<Rightarrow> u8 \<Rightarrow> u8 \<Rightarrow> u32 \<Rightarrow> 32 word \<Rightarrow>
     rate_estimator \<Rightarrow> rate_estimator run" where
  "update_v3_rate math keccak db pool decimals0 decimals1 fee tick_spacing est =
    do {
      r \<leftarrow> get_amount_out_v3 math keccak db pool (decimal_reference decimals0) True fee tick_spacing;
      let est = (case r of
                   Some out \<Rightarrow> if out \<noteq> 0 then put_rate pool True (normalized_rate out decimals1) est else est
                 | None \<Rightarrow> est);
      r \<leftarrow> get_amount_out_v3 math keccak db pool (decimal_reference decimals1) False fee tick_spacing;
      Some (case r of
              Some out \<Rightarrow> if out \<noteq> 0 then put_rate pool False (normalized_rate out decimals0) est else est
            | None \<Rightarrow> est)
    }"

definition update_exotic_passthrough :: "address \<Rightarrow> rate_estimator \<Rightarrow> rate_estimator" where
  "update_exotic_passthrough pool est = put_rate pool False RATE_SCALE (put_rate pool True RATE_SCALE est)"

definition update_v3_passthrough_with_fee :: "address \<Rightarrow> u32 \<Rightarrow> rate_estimator \<Rightarrow> rate_estimator" where
  "update_v3_passthrough_with_fee pool fee est =
    (let fee_u64 = ucast fee :: u64;
         discounted = (if fee_u64 < 1000000
                       then RATE_SCALE * ucast (1000000 - fee_u64) div 1000000 else 0)
     in put_rate pool False discounted (put_rate pool True discounted est))"

text \<open>One direction of the spot rate: a checked multiplication, a scaling, both twice, then the fee.\<close>

definition spot_fee_num :: "u32 \<Rightarrow> u256" where
  "spot_fee_num fee = ucast (saturating_sub 1000000 (ucast (min fee 999999)) :: u64)"

definition spot_store ::
    "address \<Rightarrow> bool \<Rightarrow> u256 \<Rightarrow> u32 \<Rightarrow> u8 \<Rightarrow> rate_estimator \<Rightarrow> rate_estimator" where
  "spot_store pool dir raw_out fee out_decimals est =
    (let out_after_fee = raw_out * spot_fee_num fee div 1000000;
         rate = normalized_rate out_after_fee out_decimals
     in if rate \<noteq> 0 then put_rate pool dir rate est else est)"

definition update_v3_spot_rate ::
    "block_state_db \<Rightarrow> address \<Rightarrow> u8 \<Rightarrow> u8 \<Rightarrow> u32 \<Rightarrow> rate_estimator \<Rightarrow> rate_estimator" where
  "update_v3_spot_rate db pool decimals0 decimals1 fee est =
    (case read_v3_slot0 db pool of
       None \<Rightarrow> est
     | Some (sqrt_price, _) \<Rightarrow>
         if sqrt_price = 0 then est
         else
           let q96 = shl 1 96 :: u256;
               est = (case checked_mul (decimal_reference decimals0) sqrt_price of
                        None \<Rightarrow> est
                      | Some step1 \<Rightarrow>
                          (case checked_mul (shr step1 96) sqrt_price of
                             None \<Rightarrow> est
                           | Some step2 \<Rightarrow> spot_store pool True (shr step2 96) fee decimals1 est))
           in (case checked_mul (decimal_reference decimals1) q96 of
                 None \<Rightarrow> est
               | Some step1 \<Rightarrow>
                   (case checked_mul (step1 div sqrt_price) q96 of
                      None \<Rightarrow> est
                    | Some step2 \<Rightarrow> spot_store pool False (step2 div sqrt_price) fee decimals0 est)))"

definition update_aerodrome_rate ::
    "block_state_db \<Rightarrow> address \<Rightarrow> u8 \<Rightarrow> u8 \<Rightarrow> bool \<Rightarrow> u64 \<Rightarrow> rate_estimator \<Rightarrow> rate_estimator run" where
  "update_aerodrome_rate db pool decimals0 decimals1 is_stable fee_bps est =
    (case read_v2_reserves db pool of
       None \<Rightarrow> Some est
     | Some (reserve0, reserve1) \<Rightarrow>
         if reserve0 = 0 \<or> reserve1 = 0 then Some est
         else do {
           out_0to1 \<leftarrow> get_amount_out_aerodrome (decimal_reference decimals0) reserve0 reserve1
                         decimals0 decimals1 is_stable fee_bps True;
           let est = put_rate pool True (normalized_rate out_0to1 decimals1) est;
           out_1to0 \<leftarrow> get_amount_out_aerodrome (decimal_reference decimals1) reserve0 reserve1
                         decimals0 decimals1 is_stable fee_bps False;
           Some (put_rate pool False (normalized_rate out_1to0 decimals0) est)
         })"

text \<open>Seeding, first the rates of every pool in order, then the WETH prices.\<close>

definition seed_pool ::
    "v3_math \<Rightarrow> (u8 list \<Rightarrow> u256) \<Rightarrow> block_state_db \<Rightarrow> raw_pool \<Rightarrow> rate_estimator \<Rightarrow> rate_estimator run"
where
  "seed_pool math keccak db p est =
    (if is_v3 (rp_protocol p)
     then update_v3_rate math keccak db (rp_address p) (rp_decimals0 p) (rp_decimals1 p)
            (rp_fee p) (rp_tick_spacing p) est
     else if rp_protocol p = Aerodrome
     then update_aerodrome_rate db (rp_address p) (rp_decimals0 p) (rp_decimals1 p)
            (rp_tick_spacing p = 0) (ucast (rp_fee p)) est
     else if is_exotic (rp_protocol p) then Some (update_exotic_passthrough (rp_address p) est)
     else Some (update_v2_rate db (rp_address p) (rp_decimals0 p) (rp_decimals1 p)
                  (csv_fee_factor (rp_protocol p) (rp_fee p)) est))"

definition seed_weth_price :: "address \<Rightarrow> raw_pool \<Rightarrow> rate_estimator \<Rightarrow> rate_estimator" where
  "seed_weth_price weth p est =
    (let pick = (if rp_token0 p = weth then Some (rp_token1 p, False)
                 else if rp_token1 p = weth then Some (rp_token0 p, True)
                 else None)
     in case pick of
          None \<Rightarrow> est
        | Some (other_token, dir) \<Rightarrow>
            (case est_rates est (rp_address p, dir) of
               None \<Rightarrow> est
             | Some rate \<Rightarrow>
                 if rate \<noteq> 0 \<and> est_weth_prices est other_token = None
                 then est\<lparr>est_weth_prices := (est_weth_prices est)(other_token \<mapsto> rate)\<rparr>
                 else est))"

fun seed_rates ::
    "v3_math \<Rightarrow> (u8 list \<Rightarrow> u256) \<Rightarrow> block_state_db \<Rightarrow> raw_pool list \<Rightarrow> rate_estimator \<Rightarrow> rate_estimator run"
where
  "seed_rates math keccak db [] est = Some est"
| "seed_rates math keccak db (p # ps) est =
    do { est \<leftarrow> seed_pool math keccak db p est; seed_rates math keccak db ps est }"

definition seed_from_raw_pools ::
    "v3_math \<Rightarrow> (u8 list \<Rightarrow> u256) \<Rightarrow> raw_pool list \<Rightarrow> address \<Rightarrow> block_state_db \<Rightarrow> rate_estimator \<Rightarrow>
     rate_estimator run" where
  "seed_from_raw_pools math keccak pools weth db est =
    do { est \<leftarrow> seed_rates math keccak db pools est; Some (fold (seed_weth_price weth) pools est) }"

text \<open>Path evaluation: the loop over the steps, with its two early returns.\<close>

definition step_rate :: "rate_estimator \<Rightarrow> swap_step \<Rightarrow> u256" where
  "step_rate est s =
    (case est_rates est (st_pool_address s, zero_for_one s) of Some r \<Rightarrow> r | None \<Rightarrow> 0)"

fun evaluate_steps :: "rate_estimator \<Rightarrow> u256 \<Rightarrow> swap_step list \<Rightarrow> u256" where
  "evaluate_steps est cumulative [] = cumulative"
| "evaluate_steps est cumulative (s # ss) =
    (let rate = step_rate est s
     in if rate = 0 then 0
        else let cumulative = mul_div cumulative rate RATE_SCALE
             in if cumulative = 0 then 0 else evaluate_steps est cumulative ss)"

definition evaluate_path :: "rate_estimator \<Rightarrow> swap_path \<Rightarrow> u256" where
  "evaluate_path est p = evaluate_steps est RATE_SCALE (path_steps p)"

definition is_profitable :: "rate_estimator \<Rightarrow> swap_path \<Rightarrow> bool" where
  "is_profitable est p = (RATE_SCALE < evaluate_path est p)"

definition expected_profit_rate :: "rate_estimator \<Rightarrow> swap_path \<Rightarrow> u256" where
  "expected_profit_rate est p =
    (let rate = evaluate_path est p in if RATE_SCALE < rate then rate - RATE_SCALE else 0)"

definition weth_price_of :: "rate_estimator \<Rightarrow> address \<Rightarrow> u256 option" where
  "weth_price_of est token = est_weth_prices est token"

definition weth_value_of :: "rate_estimator \<Rightarrow> address \<Rightarrow> u256 \<Rightarrow> u8 \<Rightarrow> u256 option" where
  "weth_value_of est token amount decimals =
    do {
      price \<leftarrow> weth_price_of est token;
      let ref_unit = decimal_reference decimals;
      if ref_unit = 0 then None else Some (mul_div amount price ref_unit)
    }"

definition est_invalidate_pool :: "address \<Rightarrow> rate_estimator \<Rightarrow> rate_estimator" where
  "est_invalidate_pool pool est =
    est\<lparr>est_rates := (est_rates est)((pool, True) := None, (pool, False) := None)\<rparr>"

definition est_pool_count :: "rate_estimator \<Rightarrow> nat" where
  "est_pool_count est = card (dom (est_rates est))"

definition est_clear :: "rate_estimator \<Rightarrow> rate_estimator" where
  "est_clear est = \<lparr> est_rates = Map.empty, est_weth_prices = Map.empty \<rparr>"

section \<open>Path evaluation on natural numbers\<close>

text \<open>One step on natural numbers: exact, or saturated at \<open>U256::MAX\<close> when the product overflows.\<close>

definition nat_rate_step :: "nat \<Rightarrow> nat \<Rightarrow> nat" where
  "nat_rate_step acc r = (if acc * r < 2 ^ 256 then acc * r div 10 ^ 18 else 2 ^ 256 - 1)"

definition path_rates :: "rate_estimator \<Rightarrow> swap_path \<Rightarrow> nat list" where
  "path_rates est p = map (\<lambda>s. unat (step_rate est s)) (path_steps p)"

lemma unat_RATE_SCALE [simp]: "unat RATE_SCALE = 10 ^ 18"
  by (simp add: RATE_SCALE_def)

lemma RATE_SCALE_neq_0 [simp]: "RATE_SCALE \<noteq> 0"
  by (simp add: RATE_SCALE_def)

lemma unat_mul_div_scale: "unat (mul_div a b RATE_SCALE) = nat_rate_step (unat a) (unat b)"
proof (cases "unat a * unat b < 2 ^ 256")
  case True
  then show ?thesis
    by (simp add: mul_div_def nat_rate_step_def checked_mul_def unat_div_distrib unat_mult_exact)
next
  case False
  have "shr RATE_SCALE 64 = 0" by (simp add: word_zero_iff_unat unat_shr)
  then show ?thesis
    using False unat_minus_one_max [where 'a = 256]
    by (simp add: mul_div_def nat_rate_step_def checked_mul_def)
qed

lemma nat_rate_step_zero [simp]: "nat_rate_step 0 r = 0" "nat_rate_step a 0 = 0"
  by (simp_all add: nat_rate_step_def)

lemma foldl_rate_zero [simp]: "foldl nat_rate_step 0 rs = 0"
  by (induction rs) simp_all

lemma unat_evaluate_steps:
  "unat (evaluate_steps est c ss) = foldl nat_rate_step (unat c) (map (\<lambda>s. unat (step_rate est s)) ss)"
proof (induction ss arbitrary: c)
  case (Cons s ss)
  let ?r = "step_rate est s"
  have zero: "mul_div c ?r RATE_SCALE = 0 \<longleftrightarrow> nat_rate_step (unat c) (unat ?r) = 0"
    by (simp add: word_zero_iff_unat unat_mul_div_scale)
  show ?case
    by (auto simp: Let_def zero Cons unat_mul_div_scale)
qed simp

lemma unat_evaluate_path: "unat (evaluate_path est p) = foldl nat_rate_step (10 ^ 18) (path_rates est p)"
  by (simp add: evaluate_path_def path_rates_def unat_evaluate_steps)

lemma nat_rate_step_mono:
  assumes "a \<le> b" "r \<le> q" "a < 2 ^ 256"
  shows "nat_rate_step a r \<le> nat_rate_step b q"
proof -
  have "a * r \<le> b * q" using assms by (simp add: mult_le_mono)
  moreover have "a * r div 10 ^ 18 < 2 ^ 256" if "a * r < 2 ^ 256"
    using that by (meson div_le_dividend le_less_trans)
  ultimately show ?thesis
    by (auto simp: nat_rate_step_def div_le_mono)
qed

lemma nat_rate_step_bound: "nat_rate_step a r < 2 ^ 256"
  using le_less_trans [OF div_le_dividend, of "a * r" "2 ^ 256" "10 ^ 18"] by (simp add: nat_rate_step_def)

lemma foldl_rate_mono:
  assumes "list_all2 (\<le>) rs qs" "a \<le> b" "a < 2 ^ 256"
  shows "foldl nat_rate_step a rs \<le> foldl nat_rate_step b qs"
  using assms
proof (induction rs qs arbitrary: a b rule: list_all2_induct)
  case (Cons r rs q qs)
  then show ?case using nat_rate_step_mono nat_rate_step_bound by simp
qed simp

lemma foldl_rate_losing:
  assumes "\<forall>r \<in> set rs. r \<le> 10 ^ 18" "a \<le> 10 ^ 18"
  shows "foldl nat_rate_step a rs \<le> a"
  using assms
proof (induction rs arbitrary: a)
  case (Cons r rs)
  have le: "a * r \<le> a * 10 ^ 18" using Cons.prems by simp
  also have "\<dots> \<le> 10 ^ 18 * 10 ^ 18" using Cons.prems by simp
  finally have "a * r < 2 ^ 256" by simp
  then have "nat_rate_step a r \<le> a"
    using div_le_mono [OF le, of "10 ^ 18"] by (simp add: nat_rate_step_def)
  moreover from this have "nat_rate_step a r \<le> 10 ^ 18" using Cons.prems by simp
  ultimately show ?case using Cons.IH [of "nat_rate_step a r"] Cons.prems by simp
qed simp

section \<open>What an update touches\<close>

text \<open>Every update writes rates of its own pool only and leaves the WETH prices alone.\<close>

definition only_pool :: "address \<Rightarrow> rate_estimator \<Rightarrow> rate_estimator \<Rightarrow> bool" where
  "only_pool pool est est' \<longleftrightarrow>
     est_weth_prices est' = est_weth_prices est \<and>
     (\<forall>q dir. q \<noteq> pool \<longrightarrow> est_rates est' (q, dir) = est_rates est (q, dir))"

lemma only_pool_refl [simp]: "only_pool pool est est"
  by (simp add: only_pool_def)

lemma only_pool_trans: "only_pool pool a b \<Longrightarrow> only_pool pool b c \<Longrightarrow> only_pool pool a c"
  by (simp add: only_pool_def)

lemma only_pool_put_rate [simp]: "only_pool pool est (put_rate pool dir r est)"
  by (simp add: only_pool_def put_rate_def)

lemma only_pool_put_rates [simp]: "only_pool pool est (put_rate pool dir r (put_rate pool dir' r' est))"
  by (simp add: only_pool_def put_rate_def)

lemma only_pool_put_rate_after: "only_pool pool est est' \<Longrightarrow> only_pool pool est (put_rate pool dir r est')"
  by (auto simp: only_pool_def put_rate_def)

lemma only_pool_v2: "only_pool pool est (update_v2_rate db pool d0 d1 f est)"
  by (simp add: update_v2_rate_def Let_def split: option.split)

lemma only_pool_exotic: "only_pool pool est (update_exotic_passthrough pool est)"
  by (simp add: update_exotic_passthrough_def)

lemma only_pool_fee: "only_pool pool est (update_v3_passthrough_with_fee pool fee est)"
  by (simp add: update_v3_passthrough_with_fee_def Let_def)

lemma only_pool_spot: "only_pool pool est (update_v3_spot_rate db pool d0 d1 fee est)"
  by (auto simp: update_v3_spot_rate_def spot_store_def Let_def only_pool_put_rate_after split: option.split)

lemma only_pool_aerodrome:
  "update_aerodrome_rate db pool d0 d1 st fee est = Some est' \<Longrightarrow> only_pool pool est est'"
  by (auto simp: update_aerodrome_rate_def split: option.splits if_splits bind_splits)

lemma only_pool_v3:
  "update_v3_rate math keccak db pool d0 d1 fee ts est = Some est' \<Longrightarrow> only_pool pool est est'"
  by (auto simp: update_v3_rate_def Let_def only_pool_put_rate_after
      split: option.splits if_splits bind_splits)

lemmas only_pool_updates =
  only_pool_v2 only_pool_exotic only_pool_fee only_pool_spot only_pool_aerodrome only_pool_v3

lemma only_pool_seed: "seed_pool math keccak db p est = Some est' \<Longrightarrow> only_pool (rp_address p) est est'"
  by (auto simp: seed_pool_def split: if_splits intro: only_pool_updates)

lemma only_pool_invalidate: "only_pool pool est (est_invalidate_pool pool est)"
  by (simp add: only_pool_def est_invalidate_pool_def)

section \<open>A round trip through one V2 pool\<close>

lemma unat_normalized_rate:
  assumes "unat out < 2 ^ 112" "decimal_reference d \<noteq> 0"
  shows "unat (normalized_rate out d) = unat out * 10 ^ 18 div unat (decimal_reference d)"
proof -
  have "unat out * 10 ^ 18 < 2 ^ 256" using assms(1) by simp
  then show ?thesis
    using assms(2)
    by (auto simp: normalized_rate_def Let_def checked_mul_def unat_div_distrib unat_mult_exact)
qed

lemma decimal_reference_neq_0 [simp]: "decimal_reference d \<noteq> 0"
proof -
  have "unat d < 256" using unat_less [of d] by simp
  then show ?thesis unfolding decimal_reference_def by (rule pow_ten_neq_0)
qed

lemma read_reserves_small:
  assumes "read_v2_reserves db pool = Some (r0, r1)"
  shows "unat r0 < 2 ^ 112" and "unat r1 < 2 ^ 112"
proof -
  have small: "unat (take_bit 112 (x :: u256)) < 2 ^ 112" for x
    using take_bit_nat_less_exp [of 112 "unat x"] by (simp add: unsigned_take_bit_eq)
  show "unat r0 < 2 ^ 112" and "unat r1 < 2 ^ 112"
    using assms unfolding read_v2_reserves_def Let_def and_low_mask by (auto simp: small [simplified])
qed

lemma roundtrip_product:
  fixes o01 o10 a0 a1 r0 r1 :: nat
  assumes "o01 * (r0 + a0) \<le> a0 * r1" "o10 * (r1 + a1) \<le> a1 * r0" "0 < a0" "0 < a1"
  shows "o01 * o10 \<le> a0 * a1"
proof -
  have "(o01 * o10) * ((r0 + a0) * (r1 + a1)) = (o01 * (r0 + a0)) * (o10 * (r1 + a1))"
    by (simp add: mult.commute mult.left_commute)
  also have "\<dots> \<le> (a0 * r1) * (a1 * r0)" by (rule mult_le_mono [OF assms(1,2)])
  also have "\<dots> = (a0 * a1) * (r0 * r1)" by (simp add: mult.commute mult.left_commute)
  also have "\<dots> \<le> (a0 * a1) * ((r0 + a0) * (r1 + a1))" by (intro mult_le_mono) auto
  finally show ?thesis using assms(3,4) by (simp only: mult_le_cancel2) simp
qed

lemma roundtrip_rates:
  fixes o01 o10 a0 a1 k :: nat
  assumes "o01 * o10 \<le> a0 * a1" "0 < a0" "0 < a1"
  shows "(o01 * k div a1) * (o10 * k div a0) \<le> k * k"
proof -
  have "(o01 * k div a1) * (o10 * k div a0) * (a0 * a1) = (o01 * k div a1 * a1) * (o10 * k div a0 * a0)"
    by (simp add: mult.commute mult.left_commute)
  also have "\<dots> \<le> (o01 * k) * (o10 * k)" by (intro mult_le_mono div_mult_le_nat)
  also have "\<dots> = (o01 * o10) * (k * k)" by (simp add: mult.commute mult.left_commute)
  also have "\<dots> \<le> (a0 * a1) * (k * k)" using assms(1) by (rule mult_le_mono1)
  finally have "(o01 * k div a1) * (o10 * k div a0) * (a0 * a1) \<le> (k * k) * (a0 * a1)"
    by (simp add: mult.commute)
  then show ?thesis using assms(2,3) by (simp only: mult_le_cancel2) simp
qed

lemma v2_rates_roundtrip:
  assumes f: "unat f \<le> 10000"
    and r: "r0 \<noteq> 0" "r1 \<noteq> 0" "unat r0 < 2 ^ 112" "unat r1 < 2 ^ 112"
    and d: "unat (decimal_reference d0) < 2 ^ 112" "unat (decimal_reference d1) < 2 ^ 112"
  defines "R01 \<equiv> normalized_rate (get_amount_out_v2 (decimal_reference d0) r0 r1 f) d1"
    and "R10 \<equiv> normalized_rate (get_amount_out_v2 (decimal_reference d1) r1 r0 f) d0"
  shows "nat_rate_step (nat_rate_step (10 ^ 18) (unat R01)) (unat R10) \<le> 10 ^ 18"
proof -
  let ?o01 = "get_amount_out_v2 (decimal_reference d0) r0 r1 f"
  let ?o10 = "get_amount_out_v2 (decimal_reference d1) r1 r0 f"
  let ?a0 = "unat (decimal_reference d0)" and ?a1 = "unat (decimal_reference d1)"
  have ok: "v2_ok f (decimal_reference d0) r0 r1" "v2_ok f (decimal_reference d1) r1 r0"
    using assms by (auto intro: v2_ok_112)
  have pos: "0 < ?a0" "0 < ?a1" by (simp_all add: word_pos_unat)
  have prod: "unat ?o01 * unat ?o10 \<le> ?a0 * ?a1"
    by (rule roundtrip_product [OF v2_curve [OF ok(1)] v2_curve [OF ok(2)] pos])
  have small: "unat ?o01 < 2 ^ 112" "unat ?o10 < 2 ^ 112"
    using v2.out_le_reserve [OF ok(1) refl] v2.out_le_reserve [OF ok(2) refl] r by auto
  have R: "unat R01 = unat ?o01 * 10 ^ 18 div ?a1" "unat R10 = unat ?o10 * 10 ^ 18 div ?a0"
    unfolding R01_def R10_def using small by (simp_all add: unat_normalized_rate)
  have le: "unat R01 * unat R10 \<le> 10 ^ 18 * 10 ^ 18"
    unfolding R by (rule roundtrip_rates [OF prod pos])
  have "unat R01 \<le> unat ?o01 * 10 ^ 18" unfolding R by (rule div_le_dividend)
  then have "10 ^ 18 * unat R01 < 2 ^ 256" using small by simp
  then have "nat_rate_step (10 ^ 18) (unat R01) = unat R01" by (simp add: nat_rate_step_def)
  moreover have "unat R01 * unat R10 < 2 ^ 256" using le_less_trans [OF le] by simp
  ultimately show ?thesis
    using div_le_mono [OF le, of "10 ^ 18"] by (simp add: nat_rate_step_def)
qed

section \<open>Properties\<close>

text \<open>
  C22. Path evaluation refines exact arithmetic on natural numbers: the cumulative rate is the
  left-to-right product of the step rates (0 for a missing one), rounded down after every step, and
  saturated at \<open>U256::MAX\<close> from the first product that does not fit 256 bits. The early returns of
  the loop do not change the result.
\<close>

theorem evaluate_path_refines_nat:
  "unat (evaluate_path est p) = foldl nat_rate_step (10 ^ 18) (path_rates est p)"
  by (rule unat_evaluate_path)

text \<open>
  A path whose hops all lose (rates of at most 1) is never reported profitable, and reported
  profit is monotone: raising rates never lowers the cumulative rate.
\<close>

lemma evaluate_path_sound:
  "((\<forall>r \<in> set (path_rates est p). r \<le> 10 ^ 18) \<longrightarrow> \<not> is_profitable est p) \<and>
   (list_all2 (\<le>) (path_rates est p) (path_rates est' q) \<longrightarrow> evaluate_path est p \<le> evaluate_path est' q)"
  using foldl_rate_losing [of "path_rates est p" "10 ^ 18"]
    foldl_rate_mono [of "path_rates est p" "path_rates est' q" "10 ^ 18" "10 ^ 18"]
  by (simp add: is_profitable_def word_less_nat_alt word_le_nat_alt not_less unat_evaluate_path)

definition sample_step :: "address \<Rightarrow> address \<Rightarrow> address \<Rightarrow> swap_step" where
  "sample_step pool a b =
    \<lparr> st_pool_address = pool, st_token_in = a, st_token_out = b, st_protocol = UniswapV2, st_fee = 30 \<rparr>"

text \<open>
  Going through one V2 pool and back is never estimated profitable, whatever its reserves: the
  rates \<open>update_v2_rate\<close> stores for the two directions multiply to at most 1.
\<close>

lemma v2_roundtrip_not_profitable:
  assumes "read_v2_reserves db pool = Some (r0, r1)" "r0 \<noteq> 0" "r1 \<noteq> 0" "unat f \<le> 10000"
    and "unat (decimal_reference d0) < 2 ^ 112" "unat (decimal_reference d1) < 2 ^ 112"
    and "st_pool_address s1 = pool" "st_pool_address s2 = pool" "zero_for_one s1" "\<not> zero_for_one s2"
  shows "\<not> is_profitable (update_v2_rate db pool d0 d1 f est) \<lparr> path_steps = [s1, s2], path_hash = h \<rparr>"
  using v2_rates_roundtrip [OF assms(4,2,3) read_reserves_small [OF assms(1)] assms(5,6)] assms
  by (simp add: is_profitable_def word_less_nat_alt not_less unat_evaluate_path path_rates_def
      step_rate_def update_v2_rate_def put_rate_def Let_def)

text \<open>
  The overflow branch of \<open>mul_div\<close> shifts the divisor \<open>RATE_SCALE\<close>, which is below \<open>2 ^ 64\<close>, to 0 and
  returns \<open>U256::MAX\<close> although the exact quotient fits. A five-hop path whose exact cumulative rate
  is \<open>10 ^ 9\<close> (a loss of all but a billionth) is thereby reported as maximally profitable.
\<close>

lemma mul_div_overflow_is_max:
  "mul_div (10 ^ 40) (10 ^ 38) RATE_SCALE = - 1" "(10::nat) ^ 40 * 10 ^ 38 div 10 ^ 18 < 2 ^ 256"
proof -
  have "unat ((10 :: u256) ^ 40) = 10 ^ 40" "unat ((10 :: u256) ^ 38) = 10 ^ 38" by simp_all
  then have "unat (mul_div (10 ^ 40) (10 ^ 38) RATE_SCALE) = 2 ^ 256 - 1"
    unfolding unat_mul_div_scale nat_rate_step_def by simp
  then show "mul_div (10 ^ 40) (10 ^ 38) RATE_SCALE = - 1"
    using unat_minus_one_max [where 'a = 256] by (simp add: word_unat_eq_iff)
qed simp

lemma overflowed_path_rate:
  "foldl nat_rate_step (10 ^ 18) [10 ^ 40, 10 ^ 38, 10, 10, 10] = 2 ^ 256 - 1"
  "(10::nat) ^ 18 * 10 ^ 40 * 10 ^ 38 * 10 * 10 * 10 div (10 ^ 18) ^ 5 = 10 ^ 9"
  by (simp_all add: nat_rate_step_def)

end
