(* ===== verification/BlockCache.thy ===== *)
theory BlockCache
  imports ArbPrelude
begin

text \<open>
  The contract of the two caches of \<open>src/cache_v2.rs\<close>: entries are tagged with the block they were
  computed for, and \<open>fresh\<close> answers only for that block. The searcher relies on this contract; the
  caches are interpreted in theory CacheV2.
\<close>

locale block_cache =
  fixes entry :: "'c \<Rightarrow> 'k \<Rightarrow> ('v \<times> u64) option"
    and put :: "'k \<Rightarrow> 'v \<Rightarrow> u64 \<Rightarrow> 'c \<Rightarrow> 'c"
    and fresh :: "'c \<Rightarrow> 'k \<Rightarrow> u64 \<Rightarrow> 'v option"
    and wipe :: "'c \<Rightarrow> 'c"
  assumes entry_put: "entry (put k v b c) = (entry c)(k \<mapsto> (v, b))"
    and entry_wipe: "entry (wipe c) = Map.empty"
    and fresh_entry: "fresh c k b = (case entry c k of None \<Rightarrow> None
                                     | Some (v, b') \<Rightarrow> if b' = b then Some v else None)"
begin

lemma fresh_put:
  "fresh (put k v b c) k' b' = (if k' = k then (if b' = b then Some v else None) else fresh c k' b')"
  by (simp add: fresh_entry entry_put)

lemma fresh_wipe: "fresh (wipe c) k b = None"
  by (simp add: fresh_entry entry_wipe)

text \<open>A fresh answer is the value last put for the key, and was put for the same block.\<close>

lemma fresh_after_puts:
  "fresh (fold (\<lambda>(k, v, b). put k v b) ps c) k b =
     (case find (\<lambda>(k', _, _). k' = k) (rev ps) of
        None \<Rightarrow> fresh c k b
      | Some (_, v, b') \<Rightarrow> if b' = b then Some v else None)"
proof (induction ps rule: rev_induct)
  case (snoc p ps)
  obtain k' v b' where [simp]: "p = (k', v, b')" by (cases p) auto
  show ?case by (simp add: fresh_put snoc split: option.splits)
qed simp

text \<open>No entry of an older block is ever answered for a newer one.\<close>

lemma fresh_other_block:
  assumes "\<And>p. p \<in> set ps \<Longrightarrow> snd (snd p) \<noteq> b"
  shows "fresh (fold (\<lambda>(k, v, b). put k v b) ps (wipe c)) k b = None"
proof -
  have "snd (snd p) \<noteq> b" if "find (\<lambda>(k', _, _). k' = k) (rev ps) = Some p" for p
    using that assms by (auto simp: find_Some_iff) (metis nth_mem set_rev length_rev snd_conv)
  then show ?thesis by (auto simp: fresh_after_puts fresh_wipe split: option.splits)
qed

end

end
