(* ===== verification/CacheV2.thy ===== *)
theory CacheV2
  imports BlockCache
begin

text \<open>
  \<open>src/cache_v2.rs\<close>: the cache of swap results with its secondary index from pools to keys, and the
  cache of path rates. The \<open>DashMap\<close>s are maps; an operation is atomic here, the two maps of one
  \<open>insert\<close> or \<open>invalidate_pool\<close> are updated together.
\<close>

section \<open>The swap result cache\<close>

record cache_key =
  ck_pool :: address
  ck_amount_in :: u256
  ck_zero_for_one :: bool

record cache_value =
  cv_amount_out :: u256
  cv_block_number :: u64

record calc_cache =
  cc_map :: "cache_key \<rightharpoonup> cache_value"
  cc_pool_keys :: "address \<rightharpoonup> cache_key list"

definition calc_cache_new :: calc_cache where
  "calc_cache_new = \<lparr> cc_map = Map.empty, cc_pool_keys = Map.empty \<rparr>"

definition cache_get :: "calc_cache \<Rightarrow> cache_key \<Rightarrow> cache_value option" where
  "cache_get c k = cc_map c k"

definition cache_get_fresh :: "calc_cache \<Rightarrow> cache_key \<Rightarrow> u64 \<Rightarrow> u256 option" where
  "cache_get_fresh c k current_block =
    (case cc_map c k of
       None \<Rightarrow> None
     | Some v \<Rightarrow> if cv_block_number v = current_block then Some (cv_amount_out v) else None)"

definition cache_insert :: "cache_key \<Rightarrow> cache_value \<Rightarrow> calc_cache \<Rightarrow> calc_cache" where
  "cache_insert k v c =
    (let keys = (case cc_pool_keys c (ck_pool k) of None \<Rightarrow> [] | Some ks \<Rightarrow> ks)
     in c\<lparr>cc_pool_keys := (cc_pool_keys c)(ck_pool k \<mapsto> keys @ [k]), cc_map := (cc_map c)(k \<mapsto> v)\<rparr>)"

definition cache_amount_out :: "address \<Rightarrow> u256 \<Rightarrow> bool \<Rightarrow> u256 \<Rightarrow> u64 \<Rightarrow> calc_cache \<Rightarrow> calc_cache" where
  "cache_amount_out pool amount_in zfo amount_out block_number c =
    cache_insert \<lparr> ck_pool = pool, ck_amount_in = amount_in, ck_zero_for_one = zfo \<rparr>
      \<lparr> cv_amount_out = amount_out, cv_block_number = block_number \<rparr> c"

definition cache_invalidate_pool :: "address \<Rightarrow> calc_cache \<Rightarrow> calc_cache" where
  "cache_invalidate_pool pool c =
    (case cc_pool_keys c pool of
       None \<Rightarrow> c
     | Some keys \<Rightarrow>
         c\<lparr>cc_pool_keys := (cc_pool_keys c)(pool := None),
           cc_map := fold (\<lambda>k m. m(k := None)) keys (cc_map c)\<rparr>)"

definition cache_invalidate_pools :: "address list \<Rightarrow> calc_cache \<Rightarrow> calc_cache" where
  "cache_invalidate_pools pools c = fold cache_invalidate_pool pools c"

definition cache_clear :: "calc_cache \<Rightarrow> calc_cache" where
  "cache_clear c = c\<lparr>cc_map := Map.empty, cc_pool_keys := Map.empty\<rparr>"

definition cache_len :: "calc_cache \<Rightarrow> nat" where
  "cache_len c = card (dom (cc_map c))"

definition cache_is_empty :: "calc_cache \<Rightarrow> bool" where
  "cache_is_empty c \<longleftrightarrow> cc_map c = Map.empty"

definition cache_retain_fresh :: "u64 \<Rightarrow> calc_cache \<Rightarrow> calc_cache" where
  "cache_retain_fresh current_block c =
    c\<lparr>cc_map := (\<lambda>k. case cc_map c k of
                       None \<Rightarrow> None
                     | Some v \<Rightarrow> if cv_block_number v = current_block then Some v else None)\<rparr>"

section \<open>The path rate cache\<close>

type_synonym path_rate_cache = "u64 \<rightharpoonup> (u256 \<times> u64)"

definition rate_get_fresh :: "path_rate_cache \<Rightarrow> u64 \<Rightarrow> u64 \<Rightarrow> u256 option" where
  "rate_get_fresh c path_hash current_block =
    (case c path_hash of
       None \<Rightarrow> None
     | Some v \<Rightarrow> if snd v = current_block then Some (fst v) else None)"

definition rate_insert :: "u64 \<Rightarrow> u256 \<Rightarrow> u64 \<Rightarrow> path_rate_cache \<Rightarrow> path_rate_cache" where
  "rate_insert path_hash rate block_number c = c(path_hash \<mapsto> (rate, block_number))"

definition rate_clear :: "path_rate_cache \<Rightarrow> path_rate_cache" where
  "rate_clear c = Map.empty"

section \<open>Both are block caches\<close>

definition calc_entry :: "calc_cache \<Rightarrow> cache_key \<Rightarrow> (u256 \<times> u64) option" where
  "calc_entry c k = map_option (\<lambda>v. (cv_amount_out v, cv_block_number v)) (cache_get c k)"

definition calc_put :: "cache_key \<Rightarrow> u256 \<Rightarrow> u64 \<Rightarrow> calc_cache \<Rightarrow> calc_cache" where
  "calc_put k v b = cache_amount_out (ck_pool k) (ck_amount_in k) (ck_zero_for_one k) v b"

interpretation calc: block_cache calc_entry calc_put cache_get_fresh cache_clear
  by unfold_locales
     (auto simp: calc_entry_def calc_put_def cache_get_def cache_amount_out_def cache_insert_def
       cache_clear_def cache_get_fresh_def fun_eq_iff Let_def split: option.splits)

interpretation path_rate: block_cache "\<lambda>c. c" rate_insert rate_get_fresh rate_clear
  by unfold_locales
     (auto simp: rate_insert_def rate_get_fresh_def rate_clear_def split: option.splits)

section \<open>The index covers the map\<close>

text \<open>The caches that the operations can produce.\<close>

inductive reachable_cache :: "calc_cache \<Rightarrow> bool" where
  new: "reachable_cache calc_cache_new"
| ins: "reachable_cache c \<Longrightarrow> reachable_cache (cache_insert k v c)"
| inv: "reachable_cache c \<Longrightarrow> reachable_cache (cache_invalidate_pool p c)"
| clr: "reachable_cache c \<Longrightarrow> reachable_cache (cache_clear c)"
| ret: "reachable_cache c \<Longrightarrow> reachable_cache (cache_retain_fresh b c)"

definition index_ok :: "calc_cache \<Rightarrow> bool" where
  "index_ok c \<longleftrightarrow>
     (\<forall>k. cc_map c k \<noteq> None \<longrightarrow> (\<exists>ks. cc_pool_keys c (ck_pool k) = Some ks \<and> k \<in> set ks)) \<and>
     (\<forall>p ks. cc_pool_keys c p = Some ks \<longrightarrow> (\<forall>k \<in> set ks. ck_pool k = p))"

lemma index_ok_covers:
  "index_ok c \<Longrightarrow> cc_map c k \<noteq> None \<Longrightarrow> \<exists>ks. cc_pool_keys c (ck_pool k) = Some ks \<and> k \<in> set ks"
  by (simp add: index_ok_def)

lemma index_ok_keys: "index_ok c \<Longrightarrow> cc_pool_keys c p = Some ks \<Longrightarrow> k \<in> set ks \<Longrightarrow> ck_pool k = p"
  by (simp add: index_ok_def)

lemma fold_remove_keys: "fold (\<lambda>k m. m(k := None)) ks m = m |` (- set ks)"
  by (induction ks arbitrary: m) (auto simp: fun_eq_iff restrict_map_def)

lemma invalidate_pool_map:
  assumes "index_ok c"
  shows "cc_map (cache_invalidate_pool p c) = (\<lambda>k. if ck_pool k = p then None else cc_map c k)"
proof
  fix k
  note covers = index_ok_covers [OF assms, of k]
  show "cc_map (cache_invalidate_pool p c) k = (if ck_pool k = p then None else cc_map c k)"
  proof (cases "cc_pool_keys c p")
    case None
    then have "cc_map c k = None" if "ck_pool k = p" using covers that by (cases "cc_map c k") auto
    then show ?thesis using None by (simp add: cache_invalidate_pool_def)
  next
    case (Some ks)
    have eq: "cc_map (cache_invalidate_pool p c) k = (if k \<in> set ks then None else cc_map c k)"
      using Some by (simp add: cache_invalidate_pool_def fold_remove_keys restrict_map_def)
    have "k \<in> set ks" if "cc_map c k \<noteq> None" "ck_pool k = p" using covers [OF that(1)] that(2) Some by simp
    then show ?thesis unfolding eq using index_ok_keys [OF assms Some, of k] by (cases "cc_map c k") simp_all
  qed
qed

lemma index_ok_invalidate:
  assumes "index_ok c"
  shows "index_ok (cache_invalidate_pool p c)"
proof -
  have "cc_pool_keys (cache_invalidate_pool p c) = (cc_pool_keys c)(p := None)"
    by (auto simp: cache_invalidate_pool_def fun_eq_iff split: option.splits)
  then show ?thesis
    using index_ok_covers [OF assms] index_ok_keys [OF assms]
    unfolding index_ok_def invalidate_pool_map [OF assms] by simp
qed

lemma index_ok_insert:
  assumes "index_ok c"
  shows "index_ok (cache_insert k v c)"
proof -
  have "\<exists>ks. cc_pool_keys (cache_insert k v c) (ck_pool k') = Some ks \<and> k' \<in> set ks"
    if "cc_map (cache_insert k v c) k' \<noteq> None" for k'
    using index_ok_covers [OF assms, of k'] that
    by (cases "k' = k") (auto simp: cache_insert_def Let_def)
  moreover have "ck_pool k' = p" if "cc_pool_keys (cache_insert k v c) p = Some ks" "k' \<in> set ks" for p ks k'
    using index_ok_keys [OF assms, of p _ k'] that
    by (cases "p = ck_pool k"; cases "cc_pool_keys c (ck_pool k)") (auto simp: cache_insert_def Let_def)
  ultimately show ?thesis unfolding index_ok_def by blast
qed

lemma index_ok_retain:
  assumes "index_ok c"
  shows "index_ok (cache_retain_fresh b c)"
proof -
  have "cc_map c k \<noteq> None" if "cc_map (cache_retain_fresh b c) k \<noteq> None" for k
    using that by (auto simp: cache_retain_fresh_def split: option.splits)
  moreover have "cc_pool_keys (cache_retain_fresh b c) = cc_pool_keys c" by (simp add: cache_retain_fresh_def)
  ultimately show ?thesis
    using index_ok_covers [OF assms] index_ok_keys [OF assms] unfolding index_ok_def by metis
qed

lemma index_ok_reachable: "reachable_cache c \<Longrightarrow> index_ok c"
  by (induction rule: reachable_cache.induct)
     (auto simp: index_ok_insert index_ok_invalidate index_ok_retain, auto simp: index_ok_def calc_cache_new_def cache_clear_def)

lemma invalidate_pools_map:
  assumes "index_ok c"
  shows "cc_map (cache_invalidate_pools ps c) = (\<lambda>k. if ck_pool k \<in> set ps then None else cc_map c k)"
  using assms
proof (induction ps arbitrary: c)
  case (Cons p ps)
  then show ?case
    using invalidate_pool_map [OF Cons.prems, of p] index_ok_invalidate [OF Cons.prems, of p]
    by (auto simp: cache_invalidate_pools_def fun_eq_iff)
qed (simp add: cache_invalidate_pools_def)

text \<open>
  C24. In every cache the operations can produce, invalidating pools removes the entries of exactly
  those pools, in spite of the keys that overwritten or retained entries leave in the secondary index;
  and a fresh answer is the amount that was cached for the key in that block.
\<close>

theorem cache_invalidation_exact:
  assumes "reachable_cache c"
  shows "cache_get (cache_invalidate_pools ps c) k = (if ck_pool k \<in> set ps then None else cache_get c k) \<and>
         cache_get_fresh (cache_invalidate_pools ps (cache_amount_out p a d out b c)) k b' =
           (if ck_pool k \<in> set ps then None
            else if k = \<lparr> ck_pool = p, ck_amount_in = a, ck_zero_for_one = d \<rparr>
                 then (if b' = b then Some out else None)
                 else cache_get_fresh c k b')"
proof (rule conjI)
  have ok: "index_ok c" using assms by (rule index_ok_reachable)
  show "cache_get (cache_invalidate_pools ps c) k = (if ck_pool k \<in> set ps then None else cache_get c k)"
    by (simp add: cache_get_def invalidate_pools_map [OF ok])
  have "index_ok (cache_amount_out p a d out b c)"
    by (simp add: cache_amount_out_def index_ok_insert ok)
  then show "cache_get_fresh (cache_invalidate_pools ps (cache_amount_out p a d out b c)) k b' =
           (if ck_pool k \<in> set ps then None
            else if k = \<lparr> ck_pool = p, ck_amount_in = a, ck_zero_for_one = d \<rparr>
                 then (if b' = b then Some out else None)
                 else cache_get_fresh c k b')"
    by (auto simp: cache_get_fresh_def invalidate_pools_map cache_amount_out_def cache_insert_def Let_def)
qed

theorem cache_invalidation_exact_witness:
  "cache_get (cache_invalidate_pools [7] (cache_amount_out 7 100 True 99 5 calc_cache_new))
     \<lparr> ck_pool = 7, ck_amount_in = 100, ck_zero_for_one = True \<rparr> = None"
  using cache_invalidation_exact
    [OF reachable_cache.ins [OF reachable_cache.new], of "[7]" _ _ "\<lparr> ck_pool = 7, ck_amount_in = 100, ck_zero_for_one = True \<rparr>"]
  by (simp add: cache_amount_out_def)

end
