(* ===== verification/PipelineEvents.thy ===== *)
theory PipelineEvents
  imports SwapTypes
begin

text \<open>
  \<open>src/pipeline_events.rs\<close>: the messages between the workers of the pipeline.
\<close>

record arb_path =
  ap_path :: swap_path
  ap_expected_profit :: u256
  ap_gas_estimate :: u64
  ap_block_number :: u64

record valid_path =
  vp_arb :: arb_path
  vp_amount_in :: u256
  vp_amount_out :: u256
  vp_gas_cost :: u256
  vp_net_profit :: u256

record pools_touched =
  pt_block_number :: u64
  pt_touched_pools :: "address list"

datatype pipeline_event =
    NewBlock u64 u64 u64 u64 u64
  | PoolsTouchedEvent pools_touched
  | ArbPathEvent arb_path
  | ValidPathEvent valid_path

text \<open>The answer of \<open>try_send\<close> on a bounded channel.\<close>

datatype send_answer = Send_Ok | Send_Full | Send_Closed

end
