(* ===== verification/Searcher.thy ===== *)
theory Searcher
  imports Rates CacheV2 PipelineEvents "HOL-Library.Multiset"
begin

text \<open>
  \<open>src/searcher_pipeline.rs\<close>: the searcher worker. It keeps an index from pools to the paths through
  them, updates the rates of the touched pools, evaluates the affected paths and sends the profitable
  ones on. The random shuffle, the unstable sort, the iteration order of a \<open>HashSet\<close> and the
  uniswap functions are parameters. A poisoned lock (a panic in another worker) is not modelled, and
  rayon's parallel map is the map over the indices in order; logging and its counters are left out.
\<close>

section \<open>State\<close>

record searcher_config =
  sc_max_paths_per_block :: nat
  sc_searcher_gas_estimate :: u64

definition searcher_config_default :: searcher_config where
  "searcher_config_default = \<lparr> sc_max_paths_per_block = 50000, sc_searcher_gas_estimate = 250000 \<rparr>"

record searcher =
  sw_config :: searcher_config
  sw_pool_to_paths :: "address \<rightharpoonup> nat list"
  sw_all_paths :: "swap_path list"
  sw_pool_meta :: "address \<rightharpoonup> pool_meta"

definition searcher_new :: "searcher_config \<Rightarrow> searcher" where
  "searcher_new config =
    \<lparr> sw_config = config, sw_pool_to_paths = Map.empty, sw_all_paths = [], sw_pool_meta = Map.empty \<rparr>"

section \<open>Registration\<close>

definition push_index :: "nat \<Rightarrow> swap_step \<Rightarrow> (address \<rightharpoonup> nat list) \<Rightarrow> (address \<rightharpoonup> nat list)" where
  "push_index idx s m =
    m(st_pool_address s \<mapsto> (case m (st_pool_address s) of None \<Rightarrow> [] | Some l \<Rightarrow> l) @ [idx])"

definition register_paths :: "swap_path list \<Rightarrow> searcher \<Rightarrow> searcher" where
  "register_paths paths sw =
    sw\<lparr>sw_all_paths := paths,
       sw_pool_to_paths :=
         fold (\<lambda>(idx, path). fold (push_index idx) (path_steps path)) (enumerate 0 paths) Map.empty\<rparr>"

definition register_pool_meta :: "pool_meta list \<Rightarrow> searcher \<Rightarrow> searcher" where
  "register_pool_meta meta sw =
    sw\<lparr>sw_pool_meta := fold (\<lambda>m f. f(pm_address m \<mapsto> m)) meta (sw_pool_meta sw)\<rparr>"

section \<open>Rates of touched pools\<close>

definition update_pool_rate ::
    "v3_math \<Rightarrow> (u8 list \<Rightarrow> u256) \<Rightarrow> block_state_db \<Rightarrow> address \<Rightarrow> pool_meta \<Rightarrow> rate_estimator \<Rightarrow>
     rate_estimator run" where
  "update_pool_rate math keccak db pool m est =
    (let est = est_invalidate_pool pool est
     in if is_v3 (pm_protocol m) then do {
          let est = update_v3_spot_rate db pool (pm_decimals0 m) (pm_decimals1 m) (pm_fee m) est;
          est \<leftarrow> (if est_rates est (pool, True) = None
                  then update_v3_rate math keccak db pool (pm_decimals0 m) (pm_decimals1 m) (pm_fee m)
                         (pm_tick_spacing m) est
                  else Some est);
          Some (if est_rates est (pool, True) = None
                then update_v3_passthrough_with_fee pool (pm_fee m) est else est)
        }
        else if pm_protocol m = Aerodrome
        then update_aerodrome_rate db pool (pm_decimals0 m) (pm_decimals1 m) (pm_tick_spacing m = 0)
               (ucast (pm_fee m)) est
        else if is_exotic (pm_protocol m) then Some (update_exotic_passthrough pool est)
        else Some (update_v2_rate db pool (pm_decimals0 m) (pm_decimals1 m)
                     (csv_fee_factor (pm_protocol m) (pm_fee m)) est))"

fun update_rates_for_pools ::
    "v3_math \<Rightarrow> (u8 list \<Rightarrow> u256) \<Rightarrow> block_state_db \<Rightarrow> (address \<rightharpoonup> pool_meta) \<Rightarrow> address list \<Rightarrow>
     rate_estimator \<Rightarrow> rate_estimator run" where
  "update_rates_for_pools math keccak db meta [] est = Some est"
| "update_rates_for_pools math keccak db meta (pool # pools) est =
    do {
      est \<leftarrow> (case meta pool of None \<Rightarrow> Some est | Some m \<Rightarrow> update_pool_rate math keccak db pool m est);
      update_rates_for_pools math keccak db meta pools est
    }"

section \<open>Affected paths\<close>

definition add_unseen :: "nat \<Rightarrow> nat list \<Rightarrow> nat list" where
  "add_unseen idx indices = (if idx \<in> set indices then indices else indices @ [idx])"

definition collect_indices :: "searcher \<Rightarrow> address list \<Rightarrow> nat list" where
  "collect_indices sw pools =
    fold (\<lambda>pool indices. case sw_pool_to_paths sw pool of
            None \<Rightarrow> indices
          | Some path_indices \<Rightarrow> fold add_unseen path_indices indices) pools []"

definition get_affected_paths :: "(nat list \<Rightarrow> nat list) \<Rightarrow> searcher \<Rightarrow> address list \<Rightarrow> bool \<Rightarrow> nat list" where
  "get_affected_paths shuffle sw pools is_mempool_event =
    (let indices = collect_indices sw pools;
         indices = (if is_mempool_event then indices else shuffle indices)
     in take (sc_max_paths_per_block (sw_config sw)) indices)"

section \<open>Evaluation\<close>

definition hop_gas :: "swap_step list \<Rightarrow> u64" where
  "hop_gas steps = sum_list (map (\<lambda>s. if is_v3 (st_protocol s) then 80000 else 50000) steps)"

definition arb_of :: "u64 \<Rightarrow> swap_path \<Rightarrow> u256 \<Rightarrow> arb_path" where
  "arb_of block_number path rate =
    \<lparr> ap_path = path, ap_expected_profit = rate - RATE_SCALE,
      ap_gas_estimate = 60000 + hop_gas (path_steps path), ap_block_number = block_number \<rparr>"

text \<open>One index; \<open>None\<close> inside is a path that is filtered out, outside an index out of range.\<close>

definition evaluate_one ::
    "searcher \<Rightarrow> rate_estimator \<Rightarrow> u64 \<Rightarrow> nat \<Rightarrow> path_rate_cache \<Rightarrow> (arb_path option \<times> path_rate_cache) run"
where
  "evaluate_one sw est block_number idx cache =
    (if length (sw_all_paths sw) \<le> idx then None
     else
       let path = sw_all_paths sw ! idx;
           cached_loss = (case rate_get_fresh cache (path_hash path) block_number of
                            Some cached_rate \<Rightarrow> cached_rate < RATE_SCALE
                          | None \<Rightarrow> False)
       in if cached_loss then Some (None, cache)
          else let rate = evaluate_path est path;
                   cache = rate_insert (path_hash path) rate block_number cache
               in if rate = 0 then Some (None, cache)
                  else if rate < RATE_SCALE then Some (None, cache)
                  else Some (Some (arb_of block_number path rate), cache))"

fun evaluate_all ::
    "searcher \<Rightarrow> rate_estimator \<Rightarrow> u64 \<Rightarrow> nat list \<Rightarrow> path_rate_cache \<Rightarrow> (arb_path list \<times> path_rate_cache) run"
where
  "evaluate_all sw est block_number [] cache = Some ([], cache)"
| "evaluate_all sw est block_number (idx # idxs) cache =
    do {
      (r, cache) \<leftarrow> evaluate_one sw est block_number idx cache;
      (rs, cache) \<leftarrow> evaluate_all sw est block_number idxs cache;
      Some (case r of None \<Rightarrow> (rs, cache) | Some a \<Rightarrow> (a # rs, cache))
    }"

definition evaluate_paths_parallel ::
    "(arb_path list \<Rightarrow> arb_path list) \<Rightarrow> searcher \<Rightarrow> rate_estimator \<Rightarrow> nat list \<Rightarrow> u64 \<Rightarrow> path_rate_cache \<Rightarrow>
     (arb_path list \<times> path_rate_cache) run" where
  "evaluate_paths_parallel sort_desc sw est indices block_number cache =
    do {
      (results, cache) \<leftarrow> evaluate_all sw est block_number indices cache;
      Some (sort_desc results, cache)
    }"

section \<open>The loop\<close>

text \<open>
  An event with the database as it is when the searcher applies it: the state updater writes the
  database concurrently.
\<close>

type_synonym timed_event = "pools_touched \<times> block_state_db"

record search_env =
  en_math :: v3_math
  en_keccak :: "u8 list \<Rightarrow> u256"
  en_shuffle :: "nat list \<Rightarrow> nat list"
  en_set_order :: "address set \<Rightarrow> address list"
  en_sort_desc :: "arb_path list \<Rightarrow> arb_path list"

record search_loop =
  sl_latest_block :: u64
  sl_carry_forward :: "(address set \<times> u64) option"
  sl_shared_latest :: u64
  sl_est :: rate_estimator
  sl_cache :: path_rate_cache

text \<open>
  What one turn of the loop sees: the event received when there is no carry-forward (\<open>None\<close>: the
  channel is closed), the events drained before and after the evaluation, and the answers of the
  simulator channel.
\<close>

record turn =
  tu_recv :: "timed_event option"
  tu_pre :: "timed_event list"
  tu_post :: "timed_event list"
  tu_answers :: "nat \<Rightarrow> send_answer"

text \<open>Block number 0 marks a mempool event, which belongs to the next block.\<close>

definition event_block :: "u64 \<Rightarrow> pools_touched \<Rightarrow> u64" where
  "event_block latest_block ev =
    (if pt_block_number ev = 0 then saturating_add latest_block 1 else pt_block_number ev)"

definition next_latest :: "u64 \<Rightarrow> pools_touched \<Rightarrow> u64" where
  "next_latest latest_block ev =
    (if pt_block_number ev = 0 then latest_block else max latest_block (pt_block_number ev))"

text \<open>Draining: rates are updated, pools and blocks merged.\<close>

fun drain ::
    "search_env \<Rightarrow> searcher \<Rightarrow> timed_event list \<Rightarrow> u64 \<times> address set \<times> u64 \<times> rate_estimator \<Rightarrow>
     (u64 \<times> address set \<times> u64 \<times> rate_estimator) run" where
  "drain env sw [] acc = Some acc"
| "drain env sw ((ev, db) # evs) (latest, merged, final, est) =
    do {
      let next_block = event_block latest ev;
      est \<leftarrow> update_rates_for_pools (en_math env) (en_keccak env) db (sw_pool_meta sw) (pt_touched_pools ev) est;
      drain env sw evs
        (next_latest latest ev, merged \<union> set (pt_touched_pools ev), max final next_block, est)
    }"

text \<open>Non-blocking sends in order; a full channel drops the path, a closed one stops.\<close>

fun send_all :: "(nat \<Rightarrow> send_answer) \<Rightarrow> nat \<Rightarrow> arb_path list \<Rightarrow> arb_path list \<times> bool" where
  "send_all answers k [] = ([], True)"
| "send_all answers k (arb # arbs) =
    (case answers k of
       Send_Ok \<Rightarrow> (let (sent, alive) = send_all answers (Suc k) arbs in (arb # sent, alive))
     | Send_Full \<Rightarrow> send_all answers (Suc k) arbs
     | Send_Closed \<Rightarrow> ([], False))"

text \<open>The end of a turn: the next state, or the worker stops; with the paths that were sent.\<close>

datatype turn_result = Stop "arb_path list" | Continue search_loop "arb_path list"

definition start_turn ::
    "search_env \<Rightarrow> searcher \<Rightarrow> turn \<Rightarrow> search_loop \<Rightarrow>
     ((u64 \<times> address set \<times> u64 \<times> rate_estimator) \<times> bool) option run" where
  "start_turn env sw tu st =
    (case sl_carry_forward st of
       Some (pools, block) \<Rightarrow> Some (Some ((sl_latest_block st, pools, block, sl_est st), False))
     | None \<Rightarrow>
         (case tu_recv tu of
            None \<Rightarrow> Some None
          | Some (ev, db) \<Rightarrow> do {
              let is_mempool = (pt_block_number ev = 0);
              let block = event_block (sl_latest_block st) ev;
              est \<leftarrow> update_rates_for_pools (en_math env) (en_keccak env) db (sw_pool_meta sw)
                      (pt_touched_pools ev) (sl_est st);
              Some (Some ((next_latest (sl_latest_block st) ev, set (pt_touched_pools ev), block, est), is_mempool))
            }))"

definition searcher_turn ::
    "search_env \<Rightarrow> searcher \<Rightarrow> turn \<Rightarrow> search_loop \<Rightarrow> turn_result run" where
  "searcher_turn env sw tu st =
    do {
      start \<leftarrow> start_turn env sw tu st;
      (case start of
         None \<Rightarrow> Some (Stop [])
       | Some (acc, is_mempool_event) \<Rightarrow> do {
           (latest, merged_pools, final_block, est) \<leftarrow> drain env sw (tu_pre tu) acc;
           let shared = max (sl_shared_latest st) final_block;
           let merged_vec = en_set_order env merged_pools;
           let affected = get_affected_paths (en_shuffle env) sw merged_vec is_mempool_event;
           if affected = []
           then Some (Continue \<lparr> sl_latest_block = latest, sl_carry_forward = None, sl_shared_latest = shared,
                                 sl_est = est, sl_cache = sl_cache st \<rparr> [])
           else do {
             (results, cache) \<leftarrow>
               evaluate_paths_parallel (en_sort_desc env) sw est affected final_block (sl_cache st);
             let pre_final = final_block;
             (latest, post_merged, final_block, est) \<leftarrow> drain env sw (tu_post tu) (latest, {}, final_block, est);
             if tu_post tu \<noteq> [] \<and> pre_final < final_block
             then Some (Continue \<lparr> sl_latest_block = latest,
                                   sl_carry_forward = Some (set merged_vec \<union> post_merged, final_block),
                                   sl_shared_latest = shared, sl_est = est, sl_cache = cache \<rparr> [])
             else let (sent, alive) = send_all (tu_answers tu) 0 results
                  in Some (if alive
                           then Continue \<lparr> sl_latest_block = latest, sl_carry_forward = None,
                                           sl_shared_latest = shared, sl_est = est, sl_cache = cache \<rparr> sent
                           else Stop sent)
           }
         })
    }"

section \<open>Seeding at startup\<close>

text \<open>
  \<open>order\<close> lists the keys of \<open>pool_meta\<close> as the hash map iterates; \<open>rpc chunk\<close> is the answer to one
  batch, \<open>None\<close> when the request or its decoding fails, and an entry \<open>None\<close> has no result string.
\<close>

definition is_passthrough :: "pool_meta \<Rightarrow> bool" where
  "is_passthrough m \<longleftrightarrow> pm_is_v3 m \<or> is_exotic (pm_protocol m)"

definition seed_passthrough ::
    "block_state_db \<Rightarrow> (address \<rightharpoonup> pool_meta) \<Rightarrow> address \<Rightarrow> rate_estimator \<Rightarrow> rate_estimator" where
  "seed_passthrough db meta addr est =
    (case meta addr of
       None \<Rightarrow> update_exotic_passthrough addr est
     | Some m \<Rightarrow>
         if pm_is_v3 m
         then let before = est_pool_count est;
                  est = update_v3_spot_rate db addr (pm_decimals0 m) (pm_decimals1 m) (pm_fee m) est
              in if before < est_pool_count est then est
                 else if 0 < pm_fee m then update_v3_passthrough_with_fee addr (pm_fee m) est
                 else update_exotic_passthrough addr est
         else update_exotic_passthrough addr est)"

definition store_reserves ::
    "(string \<Rightarrow> u8 list option) \<Rightarrow> account_info \<Rightarrow> address \<times> string option \<Rightarrow> block_state_db \<Rightarrow> block_state_db"
where
  "store_reserves hex_decode default_info r db =
    (case snd r of
       None \<Rightarrow> db
     | Some s \<Rightarrow>
         (case hex_decode (pad64 (trim_0x s)) of
            None \<Rightarrow> db
          | Some bytes \<Rightarrow>
              (let val = from_be_bytes (take 32 bytes)
               in if val \<noteq> 0 then update_slot default_info (fst r) V2_RESERVES_SLOT val db else db)))"

definition seed_chunk ::
    "(string \<Rightarrow> u8 list option) \<Rightarrow> account_info \<Rightarrow> (address list \<Rightarrow> string option list option) \<Rightarrow>
     address list \<Rightarrow> block_state_db \<Rightarrow> block_state_db" where
  "seed_chunk hex_decode default_info rpc chunk db =
    (case rpc chunk of
       None \<Rightarrow> db
     | Some results \<Rightarrow> fold (store_reserves hex_decode default_info) (zip chunk results) db)"

definition seed_initial_rates ::
    "search_env \<Rightarrow> (string \<Rightarrow> u8 list option) \<Rightarrow> account_info \<Rightarrow>
     (address list \<Rightarrow> string option list option) \<Rightarrow> string \<Rightarrow> address list \<Rightarrow> searcher \<Rightarrow>
     block_state_db \<times> rate_estimator \<Rightarrow> (block_state_db \<times> rate_estimator) run" where
  "seed_initial_rates env hex_decode default_info rpc rpc_url order sw st =
    (if order = [] \<or> rpc_url = [] then Some st
     else
       let passthrough = (\<lambda>a. case sw_pool_meta sw a of None \<Rightarrow> False | Some m \<Rightarrow> is_passthrough m);
           passthrough_pools = filter passthrough order;
           slot8_pools = filter (\<lambda>a. \<not> passthrough a) order;
           (db, est) = st;
           est = fold (seed_passthrough db (sw_pool_meta sw)) passthrough_pools est;
           db = fold (seed_chunk hex_decode default_info rpc) (chunks_of 200 slot8_pools) db
       in do {
         est \<leftarrow> update_rates_for_pools (en_math env) (en_keccak env) db (sw_pool_meta sw) slot8_pools est;
         Some (db, est)
       })"

section \<open>The index and the affected paths\<close>

definition shuffle_ok :: "('a list \<Rightarrow> 'a list) \<Rightarrow> bool" where
  "shuffle_ok shuffle \<longleftrightarrow> (\<forall>xs. mset (shuffle xs) = mset xs)"

text \<open>The indices the map holds for a pool, with their order and duplicates forgotten.\<close>

definition index_set :: "(address \<rightharpoonup> nat list) \<Rightarrow> address \<Rightarrow> nat set" where
  "index_set m p = (case m p of None \<Rightarrow> {} | Some l \<Rightarrow> set l)"

lemma index_set_push:
  "index_set (push_index i s m) p = index_set m p \<union> (if st_pool_address s = p then {i} else {})"
  by (simp add: index_set_def push_index_def split: option.split)

lemma index_set_push_steps:
  "index_set (fold (push_index i) ss m) p = index_set m p \<union> (if p \<in> st_pool_address ` set ss then {i} else {})"
  by (induction ss arbitrary: m) (auto simp: index_set_push)

lemma index_set_register:
  "index_set (fold (\<lambda>(i, path). fold (push_index i) (path_steps path)) ips m) p =
     index_set m p \<union> {i. \<exists>path. (i, path) \<in> set ips \<and> contains_pool path p}"
  by (induction ips arbitrary: m,
      auto simp: index_set_push_steps contains_pool_def list_ex_iff split: if_splits, blast)

lemma index_set_registered:
  "index_set (sw_pool_to_paths (register_paths paths sw)) p =
     {i. i < length paths \<and> contains_pool (paths ! i) p}"
  by (auto simp: register_paths_def index_set_register in_set_enumerate_eq)
    (auto simp: index_set_def)

lemma add_unseen_fold:
  "set (fold add_unseen is acc) = set acc \<union> set is \<and> (distinct acc \<longrightarrow> distinct (fold add_unseen is acc))"
  by (induction "is" arbitrary: acc) (auto simp: add_unseen_def)

lemma collect_indices_from:
  "set (fold (\<lambda>pool indices. case m pool of None \<Rightarrow> indices | Some l \<Rightarrow> fold add_unseen l indices) pools acc)
     = set acc \<union> (\<Union>p \<in> set pools. index_set m p) \<and>
   (distinct acc \<longrightarrow>
     distinct (fold (\<lambda>pool indices. case m pool of None \<Rightarrow> indices | Some l \<Rightarrow> fold add_unseen l indices) pools acc))"
  by (induction pools arbitrary: acc) (auto simp: index_set_def add_unseen_fold split: option.split)

lemma collect_indices_set: "set (collect_indices sw pools) = (\<Union>p \<in> set pools. index_set (sw_pool_to_paths sw) p)"
  and collect_indices_distinct: "distinct (collect_indices sw pools)"
  using collect_indices_from [where acc = "[]"] by (simp_all add: collect_indices_def)

lemma affected_paths_list:
  assumes "shuffle_ok shuffle"
  obtains l where "get_affected_paths shuffle sw pools mp = take (sc_max_paths_per_block (sw_config sw)) l"
    "distinct l" "set l = (\<Union>p \<in> set pools. index_set (sw_pool_to_paths sw) p)"
proof
  let ?l = "if mp then collect_indices sw pools else shuffle (collect_indices sw pools)"
  show "get_affected_paths shuffle sw pools mp = take (sc_max_paths_per_block (sw_config sw)) ?l"
    by (simp add: get_affected_paths_def Let_def)
  have m: "mset (shuffle xs) = mset xs" for xs using assms by (simp add: shuffle_ok_def)
  show "distinct ?l" using m collect_indices_distinct mset_eq_imp_distinct_iff by fastforce
  show "set ?l = (\<Union>p \<in> set pools. index_set (sw_pool_to_paths sw) p)"
    using mset_eq_setD [OF m] by (simp add: collect_indices_set)
qed

text \<open>
  After registration the affected paths of a set of touched pools are distinct valid indices of
  paths through a touched pool, at most \<open>max_paths_per_block\<close>, and all such paths when they fit under
  that cap.
\<close>

lemma affected_paths_exact:
  assumes "shuffle_ok shuffle"
  shows "distinct (get_affected_paths shuffle (register_paths paths sw) pools mp) \<and>
    length (get_affected_paths shuffle (register_paths paths sw) pools mp) \<le> sc_max_paths_per_block (sw_config sw) \<and>
    set (get_affected_paths shuffle (register_paths paths sw) pools mp) \<subseteq>
      {i. i < length paths \<and> (\<exists>p \<in> set pools. contains_pool (paths ! i) p)} \<and>
    (card {i. i < length paths \<and> (\<exists>p \<in> set pools. contains_pool (paths ! i) p)} \<le> sc_max_paths_per_block (sw_config sw) \<longrightarrow>
      set (get_affected_paths shuffle (register_paths paths sw) pools mp) =
      {i. i < length paths \<and> (\<exists>p \<in> set pools. contains_pool (paths ! i) p)})"
proof -
  let ?sw = "register_paths paths sw" and ?cap = "sc_max_paths_per_block (sw_config sw)"
  let ?all = "{i. i < length paths \<and> (\<exists>p \<in> set pools. contains_pool (paths ! i) p)}"
  obtain l where l: "get_affected_paths shuffle ?sw pools mp = take (sc_max_paths_per_block (sw_config ?sw)) l"
      "distinct l" "set l = (\<Union>p \<in> set pools. index_set (sw_pool_to_paths ?sw) p)"
    using affected_paths_list [OF assms] .
  have cap: "sc_max_paths_per_block (sw_config ?sw) = ?cap" by (simp add: register_paths_def)
  have set: "set l = ?all" unfolding l(3) index_set_registered by auto
  have "length l = card ?all" using distinct_card [OF l(2)] set by simp
  then show ?thesis unfolding l(1) cap using l(2) set set_take_subset [of ?cap l] by auto
qed

definition sample_paths :: "swap_path list" where
  "sample_paths = [\<lparr> path_steps = [sample_step 9 1 2, sample_step 8 2 1], path_hash = 0 \<rparr>,
                   \<lparr> path_steps = [sample_step 7 1 2, sample_step 8 2 1], path_hash = 1 \<rparr>]"

section \<open>Rates follow the state\<close>

text \<open>Two estimators that agree on a pool still agree on it after an update of that pool.\<close>

definition agree :: "address \<Rightarrow> rate_estimator \<Rightarrow> rate_estimator \<Rightarrow> bool" where
  "agree pool a b \<longleftrightarrow> (\<forall>dir. est_rates a (pool, dir) = est_rates b (pool, dir))"

lemma agree_put: "agree pool a b \<Longrightarrow> agree pool (put_rate pool d r a) (put_rate pool d r b)"
  by (simp add: agree_def put_rate_def)

lemma agree_invalidate: "agree pool (est_invalidate_pool pool a) (est_invalidate_pool pool b)"
  by (simp add: agree_def est_invalidate_pool_def)

lemma agree_v2: "agree pool a b \<Longrightarrow> agree pool (update_v2_rate db pool d0 d1 f a) (update_v2_rate db pool d0 d1 f b)"
  by (simp add: update_v2_rate_def Let_def agree_put split: option.split)

lemma agree_exotic: "agree pool a b \<Longrightarrow> agree pool (update_exotic_passthrough pool a) (update_exotic_passthrough pool b)"
  by (simp add: update_exotic_passthrough_def agree_put)

lemma agree_fee: "agree pool a b \<Longrightarrow> agree pool (update_v3_passthrough_with_fee pool f a) (update_v3_passthrough_with_fee pool f b)"
  by (simp add: update_v3_passthrough_with_fee_def agree_put Let_def)

lemma agree_spot: "agree pool a b \<Longrightarrow> agree pool (update_v3_spot_rate db pool d0 d1 f a) (update_v3_spot_rate db pool d0 d1 f b)"
  by (auto simp: update_v3_spot_rate_def spot_store_def Let_def agree_put split: option.split)

lemma agree_v3:
  "agree pool a b \<Longrightarrow> rel_option (agree pool) (update_v3_rate math keccak db pool d0 d1 fee ts a)
                                                (update_v3_rate math keccak db pool d0 d1 fee ts b)"
  unfolding update_v3_rate_def
  by (cases "get_amount_out_v3 math keccak db pool (decimal_reference d0) True fee ts";
      cases "get_amount_out_v3 math keccak db pool (decimal_reference d1) False fee ts")
     (auto simp: agree_put Let_def split: option.splits)

lemma agree_aerodrome:
  "agree pool a b \<Longrightarrow> rel_option (agree pool) (update_aerodrome_rate db pool d0 d1 st fee a)
                                                (update_aerodrome_rate db pool d0 d1 st fee b)"
  by (auto simp: update_aerodrome_rate_def agree_put split: option.splits bind_splits)

lemma agree_bind:
  assumes "rel_option R x y" "\<And>a b. R a b \<Longrightarrow> S (f a) (g b)"
  shows "rel_option S (x \<bind> (\<lambda>a. Some (f a))) (y \<bind> (\<lambda>b. Some (g b)))"
  using assms by (cases x; cases y) auto

lemma agree_update_pool:
  "rel_option (agree pool) (update_pool_rate math keccak db pool m a) (update_pool_rate math keccak db pool m b)"
proof -
  let ?spot = "\<lambda>e. update_v3_spot_rate db pool (pm_decimals0 m) (pm_decimals1 m) (pm_fee m) (est_invalidate_pool pool e)"
  have spot: "agree pool (?spot a) (?spot b)" by (intro agree_spot agree_invalidate)
  then have eq: "est_rates (?spot a) (pool, True) = est_rates (?spot b) (pool, True)" by (simp add: agree_def)
  have v3: "rel_option (agree pool)
       (update_v3_rate math keccak db pool (pm_decimals0 m) (pm_decimals1 m) (pm_fee m) (pm_tick_spacing m) (?spot a))
       (update_v3_rate math keccak db pool (pm_decimals0 m) (pm_decimals1 m) (pm_fee m) (pm_tick_spacing m) (?spot b))"
    by (rule agree_v3 [OF spot])
  have fee: "agree pool
       (if est_rates x (pool, True) = None then update_v3_passthrough_with_fee pool (pm_fee m) x else x)
       (if est_rates y (pool, True) = None then update_v3_passthrough_with_fee pool (pm_fee m) y else y)"
    if "agree pool x y" for x y
    using that agree_fee [OF that] by (auto simp: agree_def)
  have v3_case: ?thesis if "is_v3 (pm_protocol m)"
  proof (cases "est_rates (?spot a) (pool, True)")
    case None
    then show ?thesis
      using that eq agree_bind [where S = "agree pool", OF v3, OF fee] unfolding update_pool_rate_def Let_def
      by simp
  next
    case (Some r)
    then show ?thesis using that eq spot unfolding update_pool_rate_def Let_def by simp
  qed
  show ?thesis
    using v3_case agree_invalidate [of pool a b]
    by (auto simp: update_pool_rate_def Let_def agree_aerodrome agree_exotic agree_v2)
qed

lemma only_pool_bind:
  assumes "x \<bind> (\<lambda>a. Some (f a)) = Some b" "\<And>a. x = Some a \<Longrightarrow> only_pool pool est a"
    and "\<And>a. only_pool pool a (f a)"
  shows "only_pool pool est b"
  using assms by (cases x) (auto intro: only_pool_trans)

lemma only_pool_update_pool:
  assumes "update_pool_rate math keccak db pool m est = Some est'"
  shows "only_pool pool est est'"
proof -
  let ?inv = "est_invalidate_pool pool est"
  let ?spot = "update_v3_spot_rate db pool (pm_decimals0 m) (pm_decimals1 m) (pm_fee m) ?inv"
  have spot: "only_pool pool ?inv ?spot" by (rule only_pool_spot)
  have "only_pool pool ?inv est'"
  proof (cases "is_v3 (pm_protocol m)")
    case True
    show ?thesis
    proof (rule only_pool_bind [where f = "\<lambda>e. if est_rates e (pool, True) = None
              then update_v3_passthrough_with_fee pool (pm_fee m) e else e"])
      show "(if est_rates ?spot (pool, True) = None
             then update_v3_rate math keccak db pool (pm_decimals0 m) (pm_decimals1 m) (pm_fee m) (pm_tick_spacing m) ?spot
             else Some ?spot) \<bind> (\<lambda>a. Some (if est_rates a (pool, True) = None
              then update_v3_passthrough_with_fee pool (pm_fee m) a else a)) = Some est'"
        using assms True by (simp add: update_pool_rate_def Let_def)
    qed (use spot in \<open>auto split: if_splits intro: only_pool_trans only_pool_v3 only_pool_fee\<close>)
  next
    case False
    then show ?thesis
      using assms by (auto simp: update_pool_rate_def Let_def split: if_splits intro: only_pool_updates)
  qed
  then show ?thesis by (rule only_pool_trans [OF only_pool_invalidate])
qed

text \<open>What a list of updates leaves alone, and what it determines.\<close>

lemma update_rates_untouched:
  assumes "update_rates_for_pools math keccak db meta pools est = Some est'" "q \<notin> set pools \<or> meta q = None"
  shows "est_rates est' (q, dir) = est_rates est (q, dir)"
  using assms
proof (induction pools arbitrary: est)
  case (Cons p ps)
  then obtain e where e: "(case meta p of None \<Rightarrow> Some est | Some m \<Rightarrow> update_pool_rate math keccak db p m est) = Some e"
      "update_rates_for_pools math keccak db meta ps e = Some est'"
    by (auto split: bind_splits)
  have "est_rates e (q, dir) = est_rates est (q, dir)"
    using e(1) Cons.prems(2) only_pool_update_pool [of math keccak db p _ est e]
    by (cases "q = p") (auto simp: only_pool_def split: option.splits)
  then show ?case using Cons.IH [OF e(2)] Cons.prems(2) by auto
qed simp

lemma update_rates_agree:
  assumes "update_rates_for_pools math keccak db meta pools a = Some a'"
    and "update_rates_for_pools math keccak db meta pools b = Some b'"
    and "agree q a b \<or> q \<in> set pools \<and> meta q \<noteq> None"
  shows "agree q a' b'"
  using assms
proof (induction pools arbitrary: a b)
  case (Cons p ps)
  let ?step = "\<lambda>e. case meta p of None \<Rightarrow> Some e | Some m \<Rightarrow> update_pool_rate math keccak db p m e"
  obtain x where x: "?step a = Some x" "update_rates_for_pools math keccak db meta ps x = Some a'"
    using Cons.prems(1) by (auto split: bind_splits)
  obtain y where y: "?step b = Some y" "update_rates_for_pools math keccak db meta ps y = Some b'"
    using Cons.prems(2) by (auto split: bind_splits)
  have "agree q x y" if h: "meta p \<noteq> None" "q = p"
  proof -
    obtain m where "meta p = Some m" using h(1) by blast
    then show ?thesis using h(2) x(1) y(1) agree_update_pool [of p math keccak db m a b] by simp
  qed
  moreover have "agree q x y" if "q \<noteq> p" "agree q a b"
    using that x(1) y(1) only_pool_update_pool [of math keccak db p _ a x]
      only_pool_update_pool [of math keccak db p _ b y]
    by (auto simp: agree_def only_pool_def split: option.splits)
  moreover have "agree q x y" if "meta p = None" "agree q a b" using that x(1) y(1) by simp
  ultimately have "agree q x y \<or> q \<in> set ps \<and> meta q \<noteq> None" using Cons.prems(3) by auto
  then show ?case using Cons.IH [OF x(2) y(2)] by blast
qed (auto simp: agree_def)

text \<open>
  The rates of a touched pool follow the database: after an update they are a function of the
  database and of the pool's metadata, whatever was in the estimator before, so no rate of an older state
  survives; the rates of every other pool are left as they were.
\<close>

lemma touched_rates_are_fresh:
  assumes "update_rates_for_pools math keccak db meta pools a = Some a'"
    and "update_rates_for_pools math keccak db meta pools b = Some b'"
  shows "est_rates a' (q, dir) =
           (if q \<in> set pools \<and> meta q \<noteq> None then est_rates b' (q, dir) else est_rates a (q, dir))"
  using update_rates_agree [OF assms, of q] update_rates_untouched [OF assms(1), of q dir]
  by (auto simp: agree_def)

definition sample_meta :: "address \<Rightarrow> pool_protocol \<Rightarrow> pool_meta" where
  "sample_meta a proto =
    \<lparr> pm_address = a, pm_token0 = 1, pm_token1 = 2, pm_decimals0 = 18, pm_decimals1 = 18, pm_is_v3 = False,
      pm_fee = 30, pm_tick_spacing = 0, pm_protocol = proto \<rparr>"

section \<open>Evaluation\<close>

definition sort_desc_ok :: "(arb_path list \<Rightarrow> arb_path list) \<Rightarrow> bool" where
  "sort_desc_ok sort_desc \<longleftrightarrow>
     (\<forall>xs. mset (sort_desc xs) = mset xs \<and>
           sorted_wrt (\<lambda>a b. ap_expected_profit b \<le> ap_expected_profit a) (sort_desc xs))"

definition idx_rate :: "searcher \<Rightarrow> rate_estimator \<Rightarrow> nat \<Rightarrow> u256" where
  "idx_rate sw est i = evaluate_path est (sw_all_paths sw ! i)"

definition idx_arb :: "searcher \<Rightarrow> rate_estimator \<Rightarrow> u64 \<Rightarrow> nat \<Rightarrow> arb_path" where
  "idx_arb sw est b i = arb_of b (sw_all_paths sw ! i) (idx_rate sw est i)"

text \<open>The rates cached for the block are those of the estimator; equal hashes have equal rates.\<close>

definition cache_consistent :: "searcher \<Rightarrow> rate_estimator \<Rightarrow> u64 \<Rightarrow> nat set \<Rightarrow> path_rate_cache \<Rightarrow> bool" where
  "cache_consistent sw est b is cache \<longleftrightarrow>
     (\<forall>i \<in> is. \<forall>r. rate_get_fresh cache (path_hash (sw_all_paths sw ! i)) b = Some r \<longrightarrow> r = idx_rate sw est i)"

definition hashes_ok :: "searcher \<Rightarrow> rate_estimator \<Rightarrow> nat set \<Rightarrow> bool" where
  "hashes_ok sw est is \<longleftrightarrow>
     (\<forall>i \<in> is. \<forall>j \<in> is. path_hash (sw_all_paths sw ! i) = path_hash (sw_all_paths sw ! j) \<longrightarrow>
        idx_rate sw est i = idx_rate sw est j)"

lemma consistent_insert:
  assumes "cache_consistent sw est b is cache" "hashes_ok sw est is" "i \<in> is"
  shows "cache_consistent sw est b is (rate_insert (path_hash (sw_all_paths sw ! i)) (idx_rate sw est i) b cache)"
  unfolding cache_consistent_def
proof (intro ballI allI impI)
  fix j r
  assume j: "j \<in> is" and r: "rate_get_fresh (rate_insert (path_hash (sw_all_paths sw ! i)) (idx_rate sw est i) b cache)
    (path_hash (sw_all_paths sw ! j)) b = Some r"
  show "r = idx_rate sw est j"
  proof (cases "path_hash (sw_all_paths sw ! j) = path_hash (sw_all_paths sw ! i)")
    case True
    then have "idx_rate sw est j = idx_rate sw est i" using assms(2,3) j unfolding hashes_ok_def by blast
    then show ?thesis using r True by (simp add: path_rate.fresh_put)
  next
    case False
    then show ?thesis using r assms(1) j by (simp add: path_rate.fresh_put cache_consistent_def)
  qed
qed

lemma evaluate_one_sound:
  assumes "evaluate_one sw est b i cache = Some (r, cache')"
  shows "i < length (sw_all_paths sw)" and "r = Some a \<Longrightarrow> a = idx_arb sw est b i \<and> RATE_SCALE \<le> idx_rate sw est i"
  using assms
  by (auto simp: evaluate_one_def Let_def idx_arb_def idx_rate_def not_less split: if_splits option.splits)

lemma evaluate_all_sound:
  assumes "evaluate_all sw est b is cache = Some (rs, cache')"
  shows "\<forall>i \<in> set is. i < length (sw_all_paths sw)"
    and "\<forall>a \<in> set rs. \<exists>i \<in> set is. a = idx_arb sw est b i \<and> RATE_SCALE \<le> idx_rate sw est i"
proof -
  have "(\<forall>i \<in> set is. i < length (sw_all_paths sw)) \<and>
        (\<forall>a \<in> set rs. \<exists>i \<in> set is. a = idx_arb sw est b i \<and> RATE_SCALE \<le> idx_rate sw est i)"
    using assms
  proof (induction "is" arbitrary: cache rs)
    case (Cons i "is")
    obtain r c rs' where one: "evaluate_one sw est b i cache = Some (r, c)"
        and all: "evaluate_all sw est b is c = Some (rs', cache')"
        and rs: "rs = (case r of None \<Rightarrow> rs' | Some a \<Rightarrow> a # rs')"
      using Cons.prems by (auto split: bind_splits option.splits)
    show ?case
      using Cons.IH [OF all] evaluate_one_sound [OF one] rs by (cases r) auto
  qed simp
  then show "\<forall>i \<in> set is. i < length (sw_all_paths sw)"
    and "\<forall>a \<in> set rs. \<exists>i \<in> set is. a = idx_arb sw est b i \<and> RATE_SCALE \<le> idx_rate sw est i" by auto
qed

lemma RATE_SCALE_pos: "RATE_SCALE \<noteq> 0"
  by (simp add: RATE_SCALE_def)

lemma evaluate_one_exact:
  assumes "i < length (sw_all_paths sw)" "cache_consistent sw est b is cache" "hashes_ok sw est is" "i \<in> is"
  shows "\<exists>cache'. evaluate_one sw est b i cache =
           Some (if RATE_SCALE \<le> idx_rate sw est i then Some (idx_arb sw est b i) else None, cache') \<and>
         cache_consistent sw est b is cache'"
proof (cases "rate_get_fresh cache (path_hash (sw_all_paths sw ! i)) b")
  case None
  then show ?thesis
    using assms(1) consistent_insert [OF assms(2-4)] RATE_SCALE_pos
    by (auto simp: evaluate_one_def Let_def idx_rate_def idx_arb_def)
next
  case (Some r)
  then have "r = idx_rate sw est i" using assms(2,4) by (auto simp: cache_consistent_def)
  then show ?thesis
    using Some assms(1,2) consistent_insert [OF assms(2-4)] RATE_SCALE_pos
    by (auto simp: evaluate_one_def Let_def idx_rate_def idx_arb_def)
qed

lemma evaluate_all_exact:
  assumes "\<forall>i \<in> set is. i < length (sw_all_paths sw)" "cache_consistent sw est b S cache" "hashes_ok sw est S"
    and "set is \<subseteq> S"
  shows "\<exists>cache'. evaluate_all sw est b is cache =
           Some (map (idx_arb sw est b) (filter (\<lambda>i. RATE_SCALE \<le> idx_rate sw est i) is), cache') \<and>
         cache_consistent sw est b S cache'"
  using assms(1,2,4)
proof (induction "is" arbitrary: cache)
  case (Cons i "is")
  obtain c where c: "evaluate_one sw est b i cache =
           Some (if RATE_SCALE \<le> idx_rate sw est i then Some (idx_arb sw est b i) else None, c)"
      "cache_consistent sw est b S c"
    using evaluate_one_exact [OF _ Cons.prems(2) assms(3), of i] Cons.prems(1,3) by auto
  obtain c' where "evaluate_all sw est b is c =
           Some (map (idx_arb sw est b) (filter (\<lambda>i. RATE_SCALE \<le> idx_rate sw est i) is), c')"
      "cache_consistent sw est b S c'"
    using Cons.IH [OF _ c(2)] Cons.prems(1,3) by auto
  then show ?case using c(1) by auto
qed simp


text \<open>
  A rate cached in the same block hides a path even after the estimator has been updated: the path is
  dropped without being evaluated, however profitable it has become.
\<close>

lemma cached_loss_hides_path:
  assumes "i < length (sw_all_paths sw)" "r < RATE_SCALE"
    and "rate_get_fresh cache (path_hash (sw_all_paths sw ! i)) b = Some r"
  shows "evaluate_one sw est b i cache = Some (None, cache)"
  using assms by (simp add: evaluate_one_def)

text \<open>
  One path is affected twice over: it is found through its pool, and sorted in front of a worse one.
  The estimator prices pool 9 above 1 and pool 8 at 1.
\<close>

definition sample_est :: rate_estimator where
  "sample_est = put_rate 9 True (2 * RATE_SCALE) (put_rate 8 False RATE_SCALE estimator_new)"

lemma sort_desc_ok_rev_sort: "sort_desc_ok (rev \<circ> sort_key ap_expected_profit)"
  using sorted_sort_key [of ap_expected_profit]
  by (auto simp: sort_desc_ok_def sorted_wrt_rev sorted_wrt_map [symmetric])


section \<open>A turn of the loop\<close>

definition set_order_ok :: "(address set \<Rightarrow> address list) \<Rightarrow> bool" where
  "set_order_ok order \<longleftrightarrow> (\<forall>s. finite s \<longrightarrow> set (order s) = s)"

lemma event_block_ge: "pt_block_number ev \<le> event_block latest ev"
  by (simp add: event_block_def)

lemma next_latest_ge: "latest \<le> next_latest latest ev"
  by (simp add: next_latest_def)

text \<open>Draining only advances the blocks and collects the pools of every event.\<close>

lemma drain_spec:
  assumes "drain env sw evs (latest, merged, final, est) = Some (latest', merged', final', est')"
  shows "latest \<le> latest' \<and> final \<le> final' \<and>
         merged' = merged \<union> (\<Union>(ev, db) \<in> set evs. set (pt_touched_pools ev)) \<and>
         (\<forall>(ev, db) \<in> set evs. pt_block_number ev \<le> final')"
  using assms
proof (induction evs arbitrary: latest merged final est)
  case (Cons e evs)
  obtain ev db where e: "e = (ev, db)" by (cases e)
  from Cons.prems obtain est1 where
    "drain env sw evs (next_latest latest ev, merged \<union> set (pt_touched_pools ev),
       max final (event_block latest ev), est1) = Some (latest', merged', final', est')"
    unfolding e by (auto split: bind_splits)
  from Cons.IH [OF this] have ih: "next_latest latest ev \<le> latest'" "max final (event_block latest ev) \<le> final'"
    "merged' = merged \<union> set (pt_touched_pools ev) \<union> (\<Union>(ev, db) \<in> set evs. set (pt_touched_pools ev))"
    "\<forall>(ev, db) \<in> set evs. pt_block_number ev \<le> final'" by auto
  have "pt_block_number ev \<le> final'" "final \<le> final'"
    using ih(2) event_block_ge [of ev latest] by (meson max.bounded_iff order_trans)+
  moreover have "latest \<le> latest'" using ih(1) next_latest_ge order_trans by blast
  ultimately show ?case using ih(3,4) unfolding e by auto
qed simp

lemma send_all_subset: "set (fst (send_all answers k arbs)) \<subseteq> set arbs"
proof (induction arbs arbitrary: k)
  case (Cons a arbs)
  show ?case using Cons.IH [of "Suc k"] by (cases "answers k") (auto split: prod.splits)
qed simp

lemma evaluate_paths_sound:
  assumes "evaluate_paths_parallel sort_desc sw est is b cache = Some (rs, cache')" "sort_desc_ok sort_desc"
    and "a \<in> set rs"
  shows "ap_block_number a = b \<and> ap_path a \<in> set (sw_all_paths sw)"
proof -
  obtain rs' where rs': "evaluate_all sw est b is cache = Some (rs', cache')" "rs = sort_desc rs'"
    using assms(1) by (auto simp: evaluate_paths_parallel_def split: bind_splits)
  have "set rs = set rs'" using assms(2) rs'(2) mset_eq_setD unfolding sort_desc_ok_def by blast
  then obtain i where "i \<in> set is" "a = idx_arb sw est b i"
    using evaluate_all_sound(2) [OF rs'(1)] assms(3) by blast
  then show ?thesis
    using evaluate_all_sound(1) [OF rs'(1)] by (auto simp: idx_arb_def arb_of_def)
qed

lemma start_turn_spec:
  assumes "start_turn env sw tu st = Some (Some ((latest, merged, final, est), mp))"
  shows "sl_latest_block st \<le> latest \<and>
         (\<forall>p b. sl_carry_forward st = Some (p, b) \<longrightarrow> merged = p \<and> final = b) \<and>
         (sl_carry_forward st = None \<longrightarrow>
            (\<exists>ev db. tu_recv tu = Some (ev, db) \<and> merged = set (pt_touched_pools ev)))"
  using assms next_latest_ge
  by (auto simp: start_turn_def Let_def split: option.splits bind_splits)

text \<open>What a turn that goes on did: it either found nothing, or carried on, or sent.\<close>

lemma searcher_turn_cases:
  assumes "searcher_turn env sw tu st = Some (Continue st' sent)"
  obtains latest0 merged0 final0 est0 mp latest merged final est where
    "start_turn env sw tu st = Some (Some ((latest0, merged0, final0, est0), mp))"
    "drain env sw (tu_pre tu) (latest0, merged0, final0, est0) = Some (latest, merged, final, est)"
    "sl_shared_latest st' = max (sl_shared_latest st) final"
    "sent = [] \<and> sl_carry_forward st' = None \<and> sl_latest_block st' = latest \<or>
     (\<exists>is results cache latest' post final' est'.
        evaluate_paths_parallel (en_sort_desc env) sw est is final (sl_cache st) = Some (results, cache) \<and>
        drain env sw (tu_post tu) (latest, {}, final, est) = Some (latest', post, final', est') \<and>
        sl_latest_block st' = latest' \<and>
        (if tu_post tu \<noteq> [] \<and> final < final'
         then sent = [] \<and> sl_carry_forward st' = Some (set (en_set_order env merged) \<union> post, final')
         else set sent \<subseteq> set results \<and> sl_carry_forward st' = None))"
proof -
  from assms obtain latest0 merged0 final0 est0 mp where
    s: "start_turn env sw tu st = Some (Some ((latest0, merged0, final0, est0), mp))"
    unfolding searcher_turn_def by (auto split: bind_splits option.splits)
  from assms s obtain latest merged final est where
    d: "drain env sw (tu_pre tu) (latest0, merged0, final0, est0) = Some (latest, merged, final, est)"
    unfolding searcher_turn_def by (auto split: bind_splits)
  let ?is = "get_affected_paths (en_shuffle env) sw (en_set_order env merged) mp"
  show ?thesis
  proof (cases "?is = []")
    case True
    then have "sl_shared_latest st' = max (sl_shared_latest st) final"
      "sent = [] \<and> sl_carry_forward st' = None \<and> sl_latest_block st' = latest"
      using assms s d by (auto simp: searcher_turn_def Let_def)
    then show ?thesis using that [OF s d] by blast
  next
    case False
    from assms s d False obtain results cache where
      e: "evaluate_paths_parallel (en_sort_desc env) sw est ?is final (sl_cache st) = Some (results, cache)"
      unfolding searcher_turn_def by (auto simp: Let_def split: bind_splits)
    from assms s d e False obtain latest' post final' est' where
      p: "drain env sw (tu_post tu) (latest, {}, final, est) = Some (latest', post, final', est')"
      unfolding searcher_turn_def by (auto simp: Let_def split: bind_splits)
    have sub: "set sent' \<subseteq> set results" if "send_all (tu_answers tu) 0 results = (sent', alive)" for sent' alive
      using send_all_subset [of "tu_answers tu" 0 results] that by simp
    have sh: "sl_shared_latest st' = max (sl_shared_latest st) final"
      and l: "sl_latest_block st' = latest'"
      and out: "if tu_post tu \<noteq> [] \<and> final < final'
         then sent = [] \<and> sl_carry_forward st' = Some (set (en_set_order env merged) \<union> post, final')
         else set sent \<subseteq> set results \<and> sl_carry_forward st' = None"
      using assms s d e p False sub unfolding searcher_turn_def
      by (auto simp: Let_def split: if_splits prod.splits)
    show ?thesis by (rule that [OF s d sh]) (use e p l out in blast)
  qed
qed

text \<open>Events drained one after the other, or drained in two rounds with blocks in between.\<close>

definition absorbed :: "timed_event list \<Rightarrow> address set \<Rightarrow> u64 \<Rightarrow> bool" where
  "absorbed evs pools b \<longleftrightarrow>
     (\<forall>(ev, db) \<in> set evs. set (pt_touched_pools ev) \<subseteq> pools \<and> pt_block_number ev \<le> b)"

lemma drain_absorbed:
  assumes "drain env sw evs (latest, merged, final, est) = Some (latest', merged', final', est')"
  shows "absorbed evs merged' final'" "merged \<subseteq> merged'" "final \<le> final'" "latest \<le> latest'"
    "finite merged \<Longrightarrow> finite merged'"
  using drain_spec [OF assms] by (auto simp: absorbed_def)

lemma absorbed_mono: "absorbed evs pools b \<Longrightarrow> pools \<subseteq> pools' \<Longrightarrow> b \<le> b' \<Longrightarrow> absorbed evs pools' b'"
  by (fastforce simp: absorbed_def)

lemma absorbed_append [simp]: "absorbed (xs @ ys) pools b \<longleftrightarrow> absorbed xs pools b \<and> absorbed ys pools b"
  by (auto simp: absorbed_def)

text \<open>
  C7. A turn of the searcher never goes back and never sends stale results. The latest block and the
  block published to the simulators only grow. Paths are sent only for a block that is published,
  and only when every event drained during the turn, before or during the evaluation, is of that block
  or an older one. When newer events arrive during the evaluation nothing is sent, and the pools of all
  events of the turn, and of the carry-forward it started with, are carried to the next turn.
\<close>

theorem searcher_turn_safe:
  assumes "searcher_turn env sw tu st = Some (Continue st' sent)"
    and "sort_desc_ok (en_sort_desc env)" "set_order_ok (en_set_order env)"
    and "\<forall>p b. sl_carry_forward st = Some (p, b) \<longrightarrow> finite p"
  shows "sl_shared_latest st \<le> sl_shared_latest st' \<and> sl_latest_block st \<le> sl_latest_block st' \<and>
    (sent \<noteq> [] \<longrightarrow> sl_carry_forward st' = None \<and>
       (\<exists>b \<le> sl_shared_latest st'.
          (\<forall>a \<in> set sent. ap_block_number a = b \<and> ap_path a \<in> set (sw_all_paths sw)) \<and>
          absorbed (tu_pre tu @ tu_post tu) UNIV b)) \<and>
    (\<forall>pools b. sl_carry_forward st' = Some (pools, b) \<longrightarrow>
       sent = [] \<and> finite pools \<and> absorbed (tu_pre tu @ tu_post tu) pools b \<and>
       (case sl_carry_forward st of
          Some (p, b0) \<Rightarrow> p \<subseteq> pools \<and> b0 \<le> b
        | None \<Rightarrow> \<exists>ev db. tu_recv tu = Some (ev, db) \<and> set (pt_touched_pools ev) \<subseteq> pools))"
proof (rule searcher_turn_cases [OF assms(1)])
  fix latest0 merged0 final0 est0 mp latest merged final est
  assume s: "start_turn env sw tu st = Some (Some ((latest0, merged0, final0, est0), mp))"
    and d: "drain env sw (tu_pre tu) (latest0, merged0, final0, est0) = Some (latest, merged, final, est)"
    and sh: "sl_shared_latest st' = max (sl_shared_latest st) final"
    and rest: "sent = [] \<and> sl_carry_forward st' = None \<and> sl_latest_block st' = latest \<or>
     (\<exists>is results cache latest' post final' est'.
        evaluate_paths_parallel (en_sort_desc env) sw est is final (sl_cache st) = Some (results, cache) \<and>
        drain env sw (tu_post tu) (latest, {}, final, est) = Some (latest', post, final', est') \<and>
        sl_latest_block st' = latest' \<and>
        (if tu_post tu \<noteq> [] \<and> final < final'
         then sent = [] \<and> sl_carry_forward st' = Some (set (en_set_order env merged) \<union> post, final')
         else set sent \<subseteq> set results \<and> sl_carry_forward st' = None))"
  note start = start_turn_spec [OF s] and pre = drain_absorbed [OF d]
  have fin: "finite merged" using start assms(4) pre(5) by (cases "sl_carry_forward st") auto
  then have ord: "set (en_set_order env merged) = merged" using assms(3) by (simp add: set_order_ok_def)
  have latest: "sl_latest_block st \<le> latest" using start pre(4) order_trans by blast
  have base: "case sl_carry_forward st of Some (p, b0) \<Rightarrow> p \<subseteq> merged \<and> b0 \<le> final
              | None \<Rightarrow> \<exists>ev db. tu_recv tu = Some (ev, db) \<and> set (pt_touched_pools ev) \<subseteq> merged"
    using start pre(2,3) by (cases "sl_carry_forward st") (auto split: prod.splits)
  from rest show ?thesis
  proof (elim disjE exE conjE)
    assume "sent = []" "sl_carry_forward st' = None" "sl_latest_block st' = latest"
    then show ?thesis using sh latest by simp
  next
    fix "is" results cache latest' post final' est'
    assume e: "evaluate_paths_parallel (en_sort_desc env) sw est is final (sl_cache st) = Some (results, cache)"
      and p: "drain env sw (tu_post tu) (latest, {}, final, est) = Some (latest', post, final', est')"
      and l: "sl_latest_block st' = latest'"
      and out: "if tu_post tu \<noteq> [] \<and> final < final'
         then sent = [] \<and> sl_carry_forward st' = Some (set (en_set_order env merged) \<union> post, final')
         else set sent \<subseteq> set results \<and> sl_carry_forward st' = None"
    note post = drain_absorbed [OF p]
    have mono: "sl_shared_latest st \<le> sl_shared_latest st'" "sl_latest_block st \<le> sl_latest_block st'"
      using sh l latest post(4) order_trans by auto
    show ?thesis
    proof (cases "tu_post tu \<noteq> [] \<and> final < final'")
      case True
      have "absorbed (tu_pre tu @ tu_post tu) (merged \<union> post) final'"
        using absorbed_mono [OF pre(1), of "merged \<union> post" final'] absorbed_mono [OF post(1), of "merged \<union> post" final'] post(3)
        by simp
      moreover have "case sl_carry_forward st of Some (p, b0) \<Rightarrow> p \<subseteq> merged \<union> post \<and> b0 \<le> final'
         | None \<Rightarrow> \<exists>ev db. tu_recv tu = Some (ev, db) \<and> set (pt_touched_pools ev) \<subseteq> merged \<union> post"
        using base post(3) by (cases "sl_carry_forward st") (fastforce split: prod.splits)+
      ultimately show ?thesis using out True ord mono fin post(5) by simp
    next
      case False
      have "absorbed (tu_pre tu @ tu_post tu) UNIV final"
        using False pre(1) post(1) absorbed_mono [OF pre(1), of UNIV final] absorbed_mono [OF post(1), of UNIV final]
        by (cases "tu_post tu = []") (auto simp: absorbed_def)
      moreover have "\<forall>a \<in> set sent. ap_block_number a = final \<and> ap_path a \<in> set (sw_all_paths sw)"
        using evaluate_paths_sound [OF e assms(2)] out False by auto
      ultimately show ?thesis using mono out False sh by (auto intro!: exI [of _ final])
    qed
  qed
qed

definition sample_env :: search_env where
  "sample_env = \<lparr> en_math = \<lparr> sqrt_ratio_at_tick = (\<lambda>_. None), tick_at_sqrt_ratio = (\<lambda>_. None),
                             compute_swap_step = (\<lambda>_ _ _ _ _. None) \<rparr>,
                  en_keccak = (\<lambda>_. 0), en_shuffle = rev, en_set_order = sorted_list_of_set,
                  en_sort_desc = rev \<circ> sort_key ap_expected_profit \<rparr>"

definition sample_loop :: search_loop where
  "sample_loop = \<lparr> sl_latest_block = 5, sl_carry_forward = None, sl_shared_latest = 5,
                   sl_est = sample_est, sl_cache = Map.empty \<rparr>"

definition sample_turn :: turn where
  "sample_turn = \<lparr> tu_recv = Some (\<lparr> pt_block_number = 0, pt_touched_pools = [9] \<rparr>, state_db_new 5),
                   tu_pre = [(\<lparr> pt_block_number = 7, pt_touched_pools = [8] \<rparr>, state_db_new 7)],
                   tu_post = [], tu_answers = (\<lambda>_. Send_Ok) \<rparr>"

theorem searcher_turn_safe_witness:
  "\<exists>st'. searcher_turn sample_env (searcher_new searcher_config_default) sample_turn sample_loop
           = Some (Continue st' []) \<and>
         sl_shared_latest sample_loop \<le> sl_shared_latest st' \<and>
         sl_latest_block sample_loop \<le> sl_latest_block st'"
proof -
  let ?sw = "searcher_new searcher_config_default"
  obtain st' where st': "searcher_turn sample_env ?sw sample_turn sample_loop = Some (Continue st' [])"
    by (simp add: searcher_turn_def start_turn_def sample_loop_def sample_turn_def searcher_new_def Let_def
        get_affected_paths_def collect_indices_def sample_env_def)
  have "sort_desc_ok (en_sort_desc sample_env)" "set_order_ok (en_set_order sample_env)"
    by (simp_all add: sample_env_def sort_desc_ok_rev_sort set_order_ok_def)
  from searcher_turn_safe [OF st' this] show ?thesis using st' by (auto simp: sample_loop_def)
qed

text \<open>
  Events drained after the evaluation without a newer block are dropped: their rates are applied, but
  their pools are neither evaluated in this turn nor carried to the next. So it is for a second mempool
  event, which always belongs to the block being evaluated.
\<close>

lemma same_block_events_dropped:
  assumes "start_turn env sw tu st = Some (Some (acc, mp))"
    and "drain env sw (tu_pre tu) acc = Some (latest, merged, final, est)"
    and "get_affected_paths (en_shuffle env) sw (en_set_order env merged) mp = is" "is \<noteq> []"
    and "evaluate_paths_parallel (en_sort_desc env) sw est is final (sl_cache st) = Some (results, cache)"
    and "drain env sw (tu_post tu) (latest, {}, final, est) = Some (latest', post, final, est')"
    and "send_all (tu_answers tu) 0 results = (sent, True)"
  shows "searcher_turn env sw tu st =
           Some (Continue \<lparr> sl_latest_block = latest', sl_carry_forward = None,
                            sl_shared_latest = max (sl_shared_latest st) final, sl_est = est', sl_cache = cache \<rparr> sent)"
  using assms by (simp add: searcher_turn_def Let_def)

section \<open>Well-formed indices\<close>

lemma evaluate_all_total:
  "\<forall>i \<in> set is. i < length (sw_all_paths sw) \<Longrightarrow> \<exists>rs cache'. evaluate_all sw est b is cache = Some (rs, cache')"
proof (induction "is" arbitrary: cache)
  case (Cons i "is")
  obtain r c where "evaluate_one sw est b i cache = Some (r, c)"
    using Cons.prems by (fastforce simp: evaluate_one_def Let_def split: option.split)
  moreover obtain rs c' where "evaluate_all sw est b is c = Some (rs, c')" using Cons by force
  ultimately show ?case by (auto split: option.split)
qed simp

lemma evaluate_all_length:
  "evaluate_all sw est b is cache = Some (rs, cache') \<Longrightarrow> length rs \<le> length is"
proof (induction "is" arbitrary: cache rs)
  case (Cons i "is")
  then show ?case by (fastforce split: bind_splits option.splits)
qed simp

lemma meta_keeps_index:
  "get_affected_paths shuffle (register_pool_meta metas sw) pools mp = get_affected_paths shuffle sw pools mp"
  "sw_all_paths (register_pool_meta metas sw) = sw_all_paths sw"
  by (simp_all add: get_affected_paths_def collect_indices_def register_pool_meta_def)

lemma affected_paths_in_range:
  assumes "shuffle_ok shuffle"
  shows "length (get_affected_paths shuffle (register_paths paths sw) pools mp) \<le> sc_max_paths_per_block (sw_config sw)"
    and "i \<in> set (get_affected_paths shuffle (register_paths paths sw) pools mp) \<Longrightarrow>
      i < length paths \<and> (\<exists>p \<in> set pools. contains_pool (paths ! i) p)"
  using affected_paths_exact [OF assms, of paths sw pools mp] by blast+

text \<open>
  C40. The index of a searcher set up from a path list is well formed: for all touched pools, whatever the
  estimator and the rate cache hold, the affected indices are in range, so their evaluation returns (the
  indexing of \<open>all_paths\<close> never panics), and every result is a path of the list through a touched pool,
  with at most as many results as the cap on paths allows.
\<close>

theorem searcher_index_well_formed:
  assumes "shuffle_ok shuffle" "sort_desc_ok sort_desc"
  shows "\<exists>rs cache'.
    evaluate_paths_parallel sort_desc (register_pool_meta metas (register_paths paths sw)) est
      (get_affected_paths shuffle (register_pool_meta metas (register_paths paths sw)) pools mp) b cache = Some (rs, cache') \<and>
    length rs \<le> sc_max_paths_per_block (sw_config sw) \<and>
    (\<forall>a \<in> set rs. ap_path a \<in> set paths \<and> (\<exists>p \<in> set pools. contains_pool (ap_path a) p))"
proof -
  let ?sw = "register_pool_meta metas (register_paths paths sw)"
  let ?is = "get_affected_paths shuffle ?sw pools mp"
  have all: "sw_all_paths ?sw = paths" by (simp add: meta_keeps_index register_paths_def)
  have cap: "length ?is \<le> sc_max_paths_per_block (sw_config sw)"
    using affected_paths_in_range(1) [OF assms(1)] by (simp only: meta_keeps_index(1))
  have range: "i < length paths \<and> (\<exists>p \<in> set pools. contains_pool (paths ! i) p)" if "i \<in> set ?is" for i
    using affected_paths_in_range(2) [OF assms(1)] that by (simp only: meta_keeps_index(1))
  obtain rs cache' where run: "evaluate_all ?sw est b ?is cache = Some (rs, cache')"
    using evaluate_all_total [of ?is ?sw est b cache] range all by auto
  have sorted: "mset (sort_desc rs) = mset rs" using assms(2) by (simp add: sort_desc_ok_def)
  have len: "length (sort_desc rs) \<le> sc_max_paths_per_block (sw_config sw)"
    using evaluate_all_length [OF run] cap mset_eq_length [OF sorted] by simp
  have paths: "ap_path a \<in> set paths \<and> (\<exists>p \<in> set pools. contains_pool (ap_path a) p)" if a: "a \<in> set (sort_desc rs)" for a
  proof -
    obtain i where i: "i \<in> set ?is" "a = idx_arb ?sw est b i"
      using evaluate_all_sound(2) [OF run] a mset_eq_setD [OF sorted] by auto
    then have "ap_path a = paths ! i" by (simp add: idx_arb_def arb_of_def all)
    then show ?thesis using range [OF i(1)] nth_mem [of i paths] by simp
  qed
  show ?thesis
    using run len paths by (simp add: evaluate_paths_parallel_def)
qed

text \<open>Two paths share pool 8; a block that touches it has both evaluated, in any order.\<close>

theorem searcher_index_well_formed_witness:
  "\<exists>rs cache'.
     evaluate_paths_parallel (rev \<circ> sort_key ap_expected_profit)
       (register_pool_meta [] (register_paths sample_paths (searcher_new searcher_config_default))) sample_est
       (get_affected_paths rev (register_pool_meta [] (register_paths sample_paths (searcher_new searcher_config_default)))
          [8] False) 5 Map.empty = Some (rs, cache') \<and>
     length rs \<le> sc_max_paths_per_block searcher_config_default"
proof -
  have "shuffle_ok rev" by (simp add: shuffle_ok_def)
  from searcher_index_well_formed [OF this sort_desc_ok_rev_sort, of "[]" sample_paths
      "searcher_new searcher_config_default" sample_est "[8]" False 5 Map.empty]
  show ?thesis by (auto simp: searcher_new_def)
qed

end
