(* ===== verification/GasStation.thy ===== *)
theory GasStation
  imports ArbPrelude
begin

text \<open>
  \<open>src/gas_station.rs\<close>: the base fee tracker and the fee formulas. The three atomics are fields of a
  record; every operation reads or writes each of them once. \<open>estimate_l1_data_fee\<close> computes with
  floating point numbers and is not modelled.
\<close>

section \<open>Operations\<close>

record gas_params_config =
  gp_eip1559_elasticity_multiplier :: u64
  gp_eip1559_base_fee_change_denominator :: u64
  gp_min_base_fee_wei :: u64
  gp_priority_fee_cap_gwei :: u64

record gas_station =
  gs_base_fee :: u64
  gs_last_gas_used :: u64
  gs_last_gas_limit :: u64
  gs_elasticity_multiplier :: u64
  gs_base_fee_change_denominator :: u64
  gs_min_base_fee_wei :: u64
  gs_priority_fee_cap_wei :: u64

definition gas_station_new :: "gas_params_config \<Rightarrow> gas_station" where
  "gas_station_new params =
    \<lparr> gs_base_fee = gp_min_base_fee_wei params, gs_last_gas_used = 0, gs_last_gas_limit = 30000000,
      gs_elasticity_multiplier = gp_eip1559_elasticity_multiplier params,
      gs_base_fee_change_denominator = gp_eip1559_base_fee_change_denominator params,
      gs_min_base_fee_wei = gp_min_base_fee_wei params,
      gs_priority_fee_cap_wei = saturating_mul (gp_priority_fee_cap_gwei params) 1000000000 \<rparr>"

definition update_from_block :: "u64 \<Rightarrow> u64 \<Rightarrow> u64 \<Rightarrow> gas_station \<Rightarrow> gas_station" where
  "update_from_block base_fee gas_used gas_limit gs =
    gs\<lparr>gs_base_fee := base_fee, gs_last_gas_used := gas_used, gs_last_gas_limit := gas_limit\<rparr>"

text \<open>The change of the fee: 128-bit arithmetic, cast to 64 bits at the end.\<close>

definition fee_delta :: "u64 \<Rightarrow> u64 \<Rightarrow> u64 \<Rightarrow> u64 \<Rightarrow> u64 run" where
  "fee_delta parent_base_fee gas_used_delta parent_gas_target base_fee_change_denominator =
    do {
      q \<leftarrow> div_run ((ucast parent_base_fee :: u128) * ucast gas_used_delta) (ucast parent_gas_target);
      q \<leftarrow> div_run q (ucast base_fee_change_denominator);
      Some (ucast q)
    }"

definition calc_next_base_fee :: "u64 \<Rightarrow> u64 \<Rightarrow> u64 \<Rightarrow> u64 \<Rightarrow> u64 \<Rightarrow> u64 \<Rightarrow> u64 run" where
  "calc_next_base_fee parent_base_fee parent_gas_used parent_gas_limit elasticity_multiplier
     base_fee_change_denominator min_base_fee_wei =
    (if parent_gas_limit = 0 then Some (max parent_base_fee min_base_fee_wei)
     else do {
       parent_gas_target \<leftarrow> div_run parent_gas_limit elasticity_multiplier;
       if parent_gas_target = 0 then Some (max parent_base_fee min_base_fee_wei)
       else do {
         next_fee \<leftarrow>
           (if parent_gas_used = parent_gas_target then Some parent_base_fee
            else if parent_gas_target < parent_gas_used
            then do {
              delta \<leftarrow> fee_delta parent_base_fee (parent_gas_used - parent_gas_target)
                        parent_gas_target base_fee_change_denominator;
              Some (saturating_add parent_base_fee (max delta 1))
            }
            else do {
              delta \<leftarrow> fee_delta parent_base_fee (parent_gas_target - parent_gas_used)
                        parent_gas_target base_fee_change_denominator;
              Some (saturating_sub parent_base_fee delta)
            });
         Some (max next_fee min_base_fee_wei)
       }
     })"

definition predict_next_base_fee :: "gas_station \<Rightarrow> u64 run" where
  "predict_next_base_fee gs =
    calc_next_base_fee (gs_base_fee gs) (gs_last_gas_used gs) (gs_last_gas_limit gs)
      (gs_elasticity_multiplier gs) (gs_base_fee_change_denominator gs) (gs_min_base_fee_wei gs)"

definition calc_priority_fee :: "gas_station \<Rightarrow> u64 \<Rightarrow> u64 \<Rightarrow> u64 \<Rightarrow> u64" where
  "calc_priority_fee gs profit_wei gas_estimate profit_share_bps =
    (if gas_estimate = 0 then 0
     else let share = ((ucast profit_wei :: u128) * ucast profit_share_bps) div 10000;
              priority = share div ucast gas_estimate
          in min (ucast priority) (gs_priority_fee_cap_wei gs))"

definition current_base_fee :: "gas_station \<Rightarrow> u64" where
  "current_base_fee gs = gs_base_fee gs"

definition total_fee_per_gas :: "gas_station \<Rightarrow> u64 \<Rightarrow> u64 \<Rightarrow> u64 \<Rightarrow> u64 run" where
  "total_fee_per_gas gs profit_wei gas_estimate profit_share_bps =
    do {
      base \<leftarrow> predict_next_base_fee gs;
      Some (saturating_add base (calc_priority_fee gs profit_wei gas_estimate profit_share_bps))
    }"

definition estimate_gas_cost_wei :: "gas_station \<Rightarrow> u64 \<Rightarrow> u64 run" where
  "estimate_gas_cost_wei gs gas_estimate =
    do { base \<leftarrow> predict_next_base_fee gs; Some (saturating_mul base gas_estimate) }"

section \<open>The formula on natural numbers\<close>

definition eip1559_delta :: "nat \<Rightarrow> nat \<Rightarrow> nat \<Rightarrow> nat \<Rightarrow> nat" where
  "eip1559_delta fee d target denom = fee * d div target div denom"

text \<open>The rule of EIP-1559 with a floor, and saturated at 64 bits.\<close>

definition eip1559_next :: "nat \<Rightarrow> nat \<Rightarrow> nat \<Rightarrow> nat \<Rightarrow> nat \<Rightarrow> nat \<Rightarrow> nat" where
  "eip1559_next fee used limit elasticity denom floor =
    (let target = limit div elasticity
     in max floor
          (if target = 0 then fee
           else if target < used
           then min (2 ^ 64 - 1) (fee + max 1 (eip1559_delta fee (used - target) target denom))
           else fee - eip1559_delta fee (target - used) target denom))"

lemma unat_u128_product [to_nat]:
  "unat ((ucast (a :: u64) :: u128) * ucast (b :: u64)) = unat a * unat b"
proof -
  have "unat a * unat b < 2 ^ 64 * 2 ^ 64" by (intro mult_strict_mono) (simp_all add: unat_less [where 'a = 64, simplified])
  then show ?thesis by (simp add: unat_mult_exact unat_ucast_up)
qed

lemma fee_delta_exact:
  assumes "target \<noteq> 0" "denom \<noteq> 0" "eip1559_delta (unat fee) (unat d) (unat target) (unat denom) < 2 ^ 64"
  shows "\<exists>v. fee_delta fee d target denom = Some v \<and>
             unat v = eip1559_delta (unat fee) (unat d) (unat target) (unat denom)"
proof -
  let ?q = "((ucast fee :: u128) * ucast d) div ucast target div ucast denom"
  have nz: "(ucast target :: u128) \<noteq> 0" "(ucast denom :: u128) \<noteq> 0"
    using assms(1,2) by (simp_all add: word_zero_iff_unat unat_ucast_up)
  have q: "unat ?q = eip1559_delta (unat fee) (unat d) (unat target) (unat denom)"
    by (simp add: unat_div_distrib unat_u128_product unat_ucast_up eip1559_delta_def)
  have "unat (ucast ?q :: u64) = unat ?q"
    using assms(3) unfolding q [symmetric] by (simp add: unsigned_ucast_eq take_bit_nat_eq_self)
  then show ?thesis using nz q by (simp add: fee_delta_def div_run_def)
qed

text \<open>A block's gas is at most its limit, which bounds the excess by \<open>2 * (elasticity - 1)\<close> targets.\<close>

lemma eip1559_delta_bound:
  assumes "used \<le> limit" "0 < limit div e" "2 * (e - 1) \<le> denom" "0 < denom"
  shows "eip1559_delta fee (used - limit div e) (limit div e) denom \<le> fee"
proof -
  let ?t = "limit div e"
  have "0 < e" using assms(2) by (cases e) auto
  have "limit < (?t + 1) * e" using \<open>0 < e\<close> by (rule less_succ_div_nat)
  then have "limit - ?t \<le> ?t * (e - 1) + (e - 1)"
    using \<open>0 < e\<close> by (cases e) (auto simp: algebra_simps)
  also have "\<dots> \<le> ?t * (e - 1) + ?t * (e - 1)" using assms(2) by (cases ?t) auto
  also have "\<dots> \<le> ?t * denom" using assms(3) by (simp add: mult.left_commute flip: mult_2)
  finally have "used - ?t \<le> ?t * denom" using assms(1) by linarith
  then have "fee * (used - ?t) \<le> fee * (?t * denom)" by (rule mult_le_mono2)
  then have "fee * (used - ?t) div (?t * denom) \<le> fee * (?t * denom) div (?t * denom)" by (rule div_le_mono)
  also have "\<dots> = fee" using assms(2,4) by simp
  finally show ?thesis by (simp add: eip1559_delta_def div_mult2_eq)
qed

lemma eip1559_delta_decrease:
  assumes "0 < t" shows "eip1559_delta fee (t - used) t denom \<le> fee"
proof -
  have "fee * (t - used) div t \<le> fee * t div t" by (intro div_le_mono mult_le_mono) simp_all
  then show ?thesis using assms by (simp add: eip1559_delta_def) (meson div_le_dividend le_trans)
qed

lemma unat_max: "unat (max a b :: 'a::len word) = max (unat a) (unat b)"
  by (simp add: max_def word_le_nat_alt)

lemma calc_next_base_fee_exact:
  assumes "e \<noteq> 0" "denom \<noteq> 0" "used \<le> limit" "2 * (unat e - 1) \<le> unat denom"
  shows "\<exists>v. calc_next_base_fee fee used limit e denom mn = Some v \<and>
             unat v = eip1559_next (unat fee) (unat used) (unat limit) (unat e) (unat denom) (unat mn)"
proof (cases "limit div e = 0")
  case True
  then have "unat limit div unat e = 0" by (metis unat_0 unat_div_distrib)
  then show ?thesis using assms(1) True
    by (auto simp: calc_next_base_fee_def div_run_def eip1559_next_def unat_max max.commute)
next
  case False
  let ?t = "limit div e"
  have ut: "unat ?t = unat limit div unat e" by (rule unat_div_distrib)
  have t0: "0 < unat limit div unat e" using False ut by (metis word_pos_unat)
  have nz: "limit \<noteq> 0" using False by auto
  have dpos: "0 < unat denom" using assms(2) by (rule word_pos_unat)
  have fee: "unat fee < 2 ^ 64" using unat_less [of fee] by simp
  consider (eq) "used = ?t" | (gt) "?t < used" | (lt) "used < ?t" by fastforce
  then show ?thesis
  proof cases
    case eq
    then show ?thesis using nz assms(1) False t0
      by (auto simp: calc_next_base_fee_def div_run_def eip1559_next_def unat_max ut eip1559_delta_def max.commute)
  next
    case gt
    have d: "unat (used - ?t) = unat used - unat ?t" using gt by (simp add: unat_sub_if_size word_less_nat_alt word_le_nat_alt)
    have le: "eip1559_delta (unat fee) (unat used - unat limit div unat e) (unat limit div unat e) (unat denom) \<le> unat fee"
      using assms(3,4) t0 dpos by (intro eip1559_delta_bound) (simp_all add: word_le_nat_alt)
    obtain v where v: "fee_delta fee (used - ?t) ?t denom = Some v"
        "unat v = eip1559_delta (unat fee) (unat used - unat limit div unat e) (unat limit div unat e) (unat denom)"
      using fee_delta_exact [OF False assms(2), of fee "used - ?t"] le fee unfolding d ut by auto
    show ?thesis using nz assms(1) False gt v t0
      by (auto simp: calc_next_base_fee_def div_run_def eip1559_next_def Let_def unat_max unat_saturating_add
          word_less_nat_alt ut max.commute)
  next
    case lt
    have d: "unat (?t - used) = unat ?t - unat used" using lt by (simp add: unat_sub_if_size word_less_nat_alt word_le_nat_alt)
    have le: "eip1559_delta (unat fee) (unat limit div unat e - unat used) (unat limit div unat e) (unat denom) \<le> unat fee"
      using t0 by (rule eip1559_delta_decrease)
    obtain v where v: "fee_delta fee (?t - used) ?t denom = Some v"
        "unat v = eip1559_delta (unat fee) (unat limit div unat e - unat used) (unat limit div unat e) (unat denom)"
      using fee_delta_exact [OF False assms(2), of fee "?t - used"] le fee unfolding d ut by auto
    show ?thesis using nz assms(1) False lt v t0
      by (auto simp: calc_next_base_fee_def div_run_def eip1559_next_def Let_def unat_max unat_saturating_sub
          word_less_nat_alt ut max.commute)
  qed
qed

lemma eip1559_delta_mono: "d \<le> d' \<Longrightarrow> eip1559_delta fee d t denom \<le> eip1559_delta fee d' t denom"
  unfolding eip1559_delta_def by (intro div_le_mono mult_le_mono) simp_all

lemma eip1559_next_mono:
  assumes "used \<le> used'" "fee < 2 ^ 64"
  shows "eip1559_next fee used limit e denom mn \<le> eip1559_next fee used' limit e denom mn"
proof -
  let ?t = "limit div e"
  have up: "eip1559_delta fee (used - ?t) ?t denom \<le> eip1559_delta fee (used' - ?t) ?t denom"
    and down: "eip1559_delta fee (?t - used') ?t denom \<le> eip1559_delta fee (?t - used) ?t denom"
    using assms(1) by (auto intro: eip1559_delta_mono)
  show ?thesis
  proof (cases "?t < used")
    case True
    then have "?t < used'" using assms(1) by simp
    with True up show ?thesis by (simp add: eip1559_next_def Let_def) linarith
  next
    case False
    then show ?thesis using down assms(2)
      by (cases "?t < used'") (simp_all add: eip1559_next_def Let_def, linarith+)
  qed
qed

section \<open>Properties\<close>

text \<open>
  C30. The base fee prediction is the EIP-1559 rule. For a block whose gas used is within its limit, with
  a denominator at least twice the elasticity minus one (6 and 50 on Base, 2 and 8 elsewhere), it returns
  the exact next fee, the intermediate values fit 128 bits and the cast to 64 bits loses nothing; the
  prediction is at least the floor, at most twice the fee (plus one) or the floor, and grows with the gas
  used.
\<close>

theorem next_base_fee_is_eip1559:
  assumes "e \<noteq> 0" "denom \<noteq> 0" "2 * (unat e - 1) \<le> unat denom" "used \<le> used'" "used' \<le> limit"
  shows "\<exists>v v'. calc_next_base_fee fee used limit e denom mn = Some v \<and>
                calc_next_base_fee fee used' limit e denom mn = Some v' \<and>
                unat v = eip1559_next (unat fee) (unat used) (unat limit) (unat e) (unat denom) (unat mn) \<and>
                mn \<le> v \<and> v \<le> v' \<and> unat v' \<le> max (unat mn) (2 * unat fee + 1)"
proof -
  let ?n = "\<lambda>u. eip1559_next (unat fee) (unat u) (unat limit) (unat e) (unat denom) (unat mn)"
  obtain v where v: "calc_next_base_fee fee used limit e denom mn = Some v" "unat v = ?n used"
    using calc_next_base_fee_exact [OF assms(1,2) _ assms(3)] assms(4,5) by (meson order_trans)
  obtain v' where v': "calc_next_base_fee fee used' limit e denom mn = Some v'" "unat v' = ?n used'"
    using calc_next_base_fee_exact [OF assms(1,2,5,3)] by blast
  have "?n used \<le> ?n used'"
    using eip1559_next_mono assms(4) unat_less [of fee] by (simp add: word_le_nat_alt)
  moreover have "unat mn \<le> ?n used" by (simp add: eip1559_next_def Let_def)
  moreover have "?n used' \<le> max (unat mn) (2 * unat fee + 1)"
    using eip1559_delta_bound [of "unat used'" "unat limit" "unat e" "unat denom" "unat fee"] assms(2,3,5)
    by (auto simp: eip1559_next_def Let_def word_le_nat_alt word_zero_iff_unat)
  ultimately show ?thesis using v v' by (auto simp: word_le_nat_alt)
qed

theorem next_base_fee_is_eip1559_witness:
  "\<exists>v v'. calc_next_base_fee 1000000000 3000000 30000000 6 50 1000000 = Some v \<and>
          calc_next_base_fee 1000000000 6000000 30000000 6 50 1000000 = Some v' \<and>
          unat v = eip1559_next 1000000000 3000000 30000000 6 50 1000000 \<and>
          1000000 \<le> v \<and> v \<le> v' \<and> unat v' \<le> max 1000000 (2 * 1000000000 + 1)"
  using next_base_fee_is_eip1559 [of 6 50 3000000 6000000 30000000 1000000000 1000000] by simp

lemma priority_unat:
  assumes "unat profit * unat bps div 10000 div unat gas < 2 ^ 64" "gas \<noteq> 0"
  shows "unat (calc_priority_fee gs profit gas bps) =
           min (unat profit * unat bps div 10000 div unat gas) (unat (gs_priority_fee_cap_wei gs))"
proof -
  let ?q = "((ucast profit :: u128) * ucast bps) div 10000 div ucast gas"
  have q: "unat ?q = unat profit * unat bps div 10000 div unat gas"
    by (simp add: unat_div_distrib unat_u128_product unat_ucast_up)
  then have "unat (ucast ?q :: u64) = unat ?q"
    using assms(1) by (simp add: unsigned_ucast_eq take_bit_nat_eq_self)
  then show ?thesis using assms(2) q by (simp add: calc_priority_fee_def min_def word_le_nat_alt)
qed

text \<open>
  With a share of at most the whole profit, the priority fee never spends more than that share of the
  profit on the estimated gas, never more than the cap, and the total fee per gas covers the predicted
  base fee without wrapping.
\<close>

lemma priority_fee_within_profit:
  assumes "unat profit_share_bps \<le> 10000"
  shows "unat (calc_priority_fee gs profit_wei gas_estimate profit_share_bps) * unat gas_estimate
           \<le> unat profit_wei * unat profit_share_bps div 10000 \<and>
         calc_priority_fee gs profit_wei gas_estimate profit_share_bps \<le> gs_priority_fee_cap_wei gs \<and>
         (\<forall>base. predict_next_base_fee gs = Some base \<longrightarrow>
            (\<exists>v. total_fee_per_gas gs profit_wei gas_estimate profit_share_bps = Some v \<and> base \<le> v))"
proof -
  let ?s = "unat profit_wei * unat profit_share_bps div 10000"
  have "?s \<le> unat profit_wei * 10000 div 10000" using assms by (intro div_le_mono mult_le_mono) simp_all
  then have "?s < 2 ^ 64" using unat_less [of profit_wei] by simp
  then have small: "?s div unat gas_estimate < 2 ^ 64" using div_le_dividend le_less_trans by blast
  have "?thesis" if "gas_estimate = 0" using that by (simp add: calc_priority_fee_def total_fee_per_gas_def
        saturating_add_def)
  moreover have "?thesis" if g: "gas_estimate \<noteq> 0"
  proof (intro conjI allI impI)
    note u = priority_unat [OF small g, of gs]
    show "unat (calc_priority_fee gs profit_wei gas_estimate profit_share_bps) * unat gas_estimate \<le> ?s"
    proof -
      have "min (?s div unat gas_estimate) (unat (gs_priority_fee_cap_wei gs)) * unat gas_estimate
              \<le> (?s div unat gas_estimate) * unat gas_estimate" by (rule mult_le_mono1) simp
      also have "\<dots> \<le> ?s" by (rule div_mult_le_nat)
      finally show ?thesis unfolding u .
    qed
    show "calc_priority_fee gs profit_wei gas_estimate profit_share_bps \<le> gs_priority_fee_cap_wei gs"
      unfolding word_le_nat_alt u by simp
    show "\<exists>v. total_fee_per_gas gs profit_wei gas_estimate profit_share_bps = Some v \<and> base \<le> v"
      if "predict_next_base_fee gs = Some base" for base
      using that unat_less [of base] by (auto simp: total_fee_per_gas_def word_le_nat_alt unat_saturating_add)
  qed
  ultimately show ?thesis by blast
qed

end
