(* ===== verification/SimDbs.thy ===== *)
theory SimDbs
  imports StateDb
begin

text \<open>
  \<open>src/sim_db.rs\<close>: the per-simulation database. \<open>snapshot\<close> copies the shared \<open>BlockStateDB\<close>, reads
  that miss go to the RPC endpoint at the latest block, and \<open>write_back\<close> merges what was fetched.
  The same environment record as in StateDb stands for the endpoint and the other crates; the
  account request is one JSON batch whose three answers are asked for separately here, \<open>env_batch_ok\<close>
  saying whether the batch as a whole came back as a JSON array.
\<close>

section \<open>Operations\<close>

record sim_account =
  sim_info :: account_info
  sim_storage :: "u256 \<rightharpoonup> u256"

type_synonym sim_db = "address \<rightharpoonup> sim_account"

definition sim_snapshot :: "block_state_db \<Rightarrow> sim_db" where
  "sim_snapshot db =
    (\<lambda>a. map_option
           (\<lambda>acct. \<lparr> sim_info = acct_info acct,
                     sim_storage = (\<lambda>s. map_option slot_value (acct_storage acct s)) \<rparr>)
           (db_accounts db a))"

text \<open>The merge of one simulated account into the shared one (or into a new one).\<close>

definition merge_account :: "sim_account \<Rightarrow> block_state_account option \<Rightarrow> block_state_account" where
  "merge_account sacct shared =
    (let entry = (case shared of
                    Some acct \<Rightarrow> acct
                  | None \<Rightarrow> \<lparr> acct_info = sim_info sacct, acct_storage = Map.empty \<rparr>);
         info = acct_info entry;
         info = (if ai_code (sim_info sacct) \<noteq> None \<and> ai_code info = None
                 then info\<lparr>ai_code := ai_code (sim_info sacct),
                           ai_code_hash := ai_code_hash (sim_info sacct)\<rparr>
                 else info)
     in entry\<lparr>acct_info := info,
              acct_storage := (\<lambda>s. case acct_storage entry s of
                                     Some slot \<Rightarrow> Some slot
                                   | None \<Rightarrow>
                                       map_option (\<lambda>v. \<lparr> slot_value = v, slot_insertion = OnChain \<rparr>)
                                         (sim_storage sacct s))\<rparr>)"

definition sim_write_back :: "sim_db \<Rightarrow> block_state_db \<Rightarrow> block_state_db" where
  "sim_write_back sim db =
    db\<lparr>db_accounts := (\<lambda>a. case sim a of
                             None \<Rightarrow> db_accounts db a
                           | Some sacct \<Rightarrow> Some (merge_account sacct (db_accounts db a)))\<rparr>"

text \<open>
  \<open>fetch_account_rpc\<close>: a code answer of at most two digits after the prefix is no code; balance and
  nonce keep their defaults when they do not parse. \<open>code\<close> and \<open>code_hash\<close> change together.
\<close>

definition sim_parse_code :: "chain_env \<Rightarrow> address \<Rightarrow> account_info \<Rightarrow> account_info" where
  "sim_parse_code env a info =
    (case env_rpc env (EthGetCode a Latest) of
       None \<Rightarrow> info
     | Some s \<Rightarrow>
         (let hex_str = trim_0x s
          in if 2 < length hex_str
             then (case env_hex_decode env hex_str of
                     None \<Rightarrow> info
                   | Some code \<Rightarrow> info\<lparr>ai_code_hash := env_keccak env code, ai_code := Some code\<rparr>)
             else info))"

definition sim_parse_balance :: "chain_env \<Rightarrow> address \<Rightarrow> account_info \<Rightarrow> account_info run" where
  "sim_parse_balance env a info =
    (case env_rpc env (EthGetBalance a Latest) of
       None \<Rightarrow> Some info
     | Some s \<Rightarrow>
         (case env_hex_decode env (pad64 (trim_0x s)) of
            None \<Rightarrow> Some info
          | Some bs \<Rightarrow> map_option (\<lambda>b. info\<lparr>ai_balance := b\<rparr>) (word_of_first_32 bs)))"

definition sim_parse_nonce :: "chain_env \<Rightarrow> address \<Rightarrow> account_info \<Rightarrow> account_info" where
  "sim_parse_nonce env a info =
    (case env_rpc env (EthGetTransactionCount a Latest) of
       None \<Rightarrow> info
     | Some s \<Rightarrow> (case u64_from_hex (trim_0x s) of None \<Rightarrow> info | Some n \<Rightarrow> info\<lparr>ai_nonce := n\<rparr>))"

definition sim_fetch_account :: "chain_env \<Rightarrow> bool \<Rightarrow> address \<Rightarrow> account_info run" where
  "sim_fetch_account env batch_ok a =
    (if \<not> batch_ok then Some (env_default_info env)
     else do {
       info \<leftarrow> sim_parse_balance env a (sim_parse_code env a (env_default_info env));
       Some (sim_parse_nonce env a info)
     })"

definition sim_fetch_storage :: "chain_env \<Rightarrow> address \<Rightarrow> u256 \<Rightarrow> u256 run" where
  "sim_fetch_storage env a index =
    parse_storage_answer (env_hex_decode env) (env_rpc env (EthGetStorageAt a index Latest))"

definition sim_basic :: "chain_env \<Rightarrow> bool \<Rightarrow> address \<Rightarrow> sim_db \<Rightarrow> (account_info \<times> sim_db) run" where
  "sim_basic env batch_ok a sim =
    (case sim a of
       Some acct \<Rightarrow>
         if ai_code (sim_info acct) = None \<and> ai_code_hash (sim_info acct) = env_keccak env []
         then do {
           info \<leftarrow> sim_fetch_account env batch_ok a;
           Some (info, sim(a \<mapsto> acct\<lparr>sim_info := info\<rparr>))
         }
         else Some (sim_info acct, sim)
     | None \<Rightarrow>
         do {
           info \<leftarrow> sim_fetch_account env batch_ok a;
           Some (info, sim(a \<mapsto> \<lparr> sim_info = info, sim_storage = Map.empty \<rparr>))
         })"

definition sim_code_by_hash :: "chain_env \<Rightarrow> u8 list \<Rightarrow> u256 \<Rightarrow> account_info list \<Rightarrow> u8 list" where
  "sim_code_by_hash env default_code h infos =
    (if h = 0 \<or> h = env_keccak env [] then default_code
     else code_by_hash_loop default_code h infos)"

definition sim_slot :: "sim_db \<Rightarrow> address \<Rightarrow> u256 \<Rightarrow> u256 option" where
  "sim_slot sim a index = (case sim a of None \<Rightarrow> None | Some acct \<Rightarrow> sim_storage acct index)"

definition sim_put :: "account_info \<Rightarrow> address \<Rightarrow> u256 \<Rightarrow> u256 \<Rightarrow> sim_db \<Rightarrow> sim_db" where
  "sim_put default_info a index v sim =
    (let acct = (case sim a of
                   Some acct \<Rightarrow> acct
                 | None \<Rightarrow> \<lparr> sim_info = default_info, sim_storage = Map.empty \<rparr>)
     in sim(a \<mapsto> acct\<lparr>sim_storage := (sim_storage acct)(index \<mapsto> v)\<rparr>))"

definition sim_read_storage :: "chain_env \<Rightarrow> address \<Rightarrow> u256 \<Rightarrow> sim_db \<Rightarrow> (u256 \<times> sim_db) run" where
  "sim_read_storage env a index sim =
    (case sim_slot sim a index of
       Some v \<Rightarrow> Some (v, sim)
     | None \<Rightarrow>
         do {
           v \<leftarrow> sim_fetch_storage env a index;
           Some (v, sim_put (env_default_info env) a index v sim)
         })"

section \<open>The lazy cache\<close>

lemma sim_slot_put [simp]:
  "sim_slot (sim_put d a i v sim) b j = (if b = a \<and> j = i then Some v else sim_slot sim b j)"
  by (simp add: sim_put_def sim_slot_def Let_def split: option.split)

interpretation sim_cache: total_slot_cache
  "\<lambda>env sim (a, i). sim_read_storage env a i sim" "\<lambda>sim (a, i). sim_slot sim a i"
  "\<lambda>env. hex_decode_ok (env_hex_decode env)"
proof unfold_locales
  fix sim :: sim_db and k v env sim'
  show "(case k of (a, i) \<Rightarrow> sim_slot sim a i) = Some v \<Longrightarrow>
        (case k of (a, i) \<Rightarrow> sim_read_storage env a i sim) = Some (v, sim)"
    by (cases k) (simp add: sim_read_storage_def)
  show "(case k of (a, i) \<Rightarrow> sim_slot sim a i) = None \<Longrightarrow>
        (case k of (a, i) \<Rightarrow> sim_read_storage env a i sim) = Some (v, sim') \<Longrightarrow>
        (\<lambda>(a, i). sim_slot sim' a i) = (\<lambda>(a, i). sim_slot sim a i)(k \<mapsto> v)"
    by (cases k)
       (auto intro!: ext simp: sim_read_storage_def split: bind_splits)
next
  fix env :: chain_env and sim :: sim_db and k :: "address \<times> u256"
  assume "hex_decode_ok (env_hex_decode env)"
  then obtain v where "sim_fetch_storage env (fst k) (snd k) = Some v"
    using parse_storage_answer_total unfolding sim_fetch_storage_def by blast
  then show "\<exists>r. (case k of (a, i) \<Rightarrow> sim_read_storage env a i sim) = Some r"
    by (cases k) (simp add: sim_read_storage_def split: option.split)
qed

section \<open>Snapshot and write-back\<close>

lemma sim_slot_snapshot: "sim_slot (sim_snapshot db) a s = slot_of db a s"
  by (simp add: sim_slot_def sim_snapshot_def slot_of_def split: option.split)

lemma slot_of_write_back:
  "slot_of (sim_write_back sim db) a s =
     (case slot_of db a s of Some v \<Rightarrow> Some v | None \<Rightarrow> sim_slot sim a s)"
  by (simp add: slot_of_def sim_slot_def sim_write_back_def merge_account_def Let_def option.map_comp
      o_def map_option.identity split: option.split)

text \<open>Writing an untouched snapshot back is the identity on the slots.\<close>

lemma write_back_snapshot: "slot_of (sim_write_back (sim_snapshot db) db) a s = slot_of db a s"
  by (simp add: slot_of_write_back sim_slot_snapshot split: option.split)

section \<open>Properties\<close>



end
