(* ===== verification/CalcBalancer.thy ===== *)
theory CalcBalancer
  imports SwapCurve
begin

text \<open>
  \<open>src/calculation/balancer.rs\<close>: the weighted-pool quote of Balancer V2, its 18-decimal fixed-point
  helpers and \<open>LogExpMath\<close>. \<open>I256\<close> is a 256-bit word read by \<open>sint\<close>: \<open>+\<close>, \<open>-\<close>, \<open>*\<close> wrap,
  \<open>sdiv\<close> and \<open>smod\<close> truncate, \<open><s\<close> and \<open>\<le>s\<close> compare. Divisions whose divisor is a non-zero
  constant are written as such; the others go through \<open>sdiv_run\<close>, which panics on 0. \<open>_ln\<close> calls
  itself and need not end on a negative argument, so it is a \<open>partial_function\<close>: \<open>None\<close> is a panic
  or an endless recursion. The lemmas give the exact rounding of the fixed-point operations, and the
  bounds of the quote that do not depend on the accuracy of the logarithm.
\<close>

type_synonym i256 = "256 word"

section \<open>Fixed-point helpers\<close>

definition ONE_18 :: u256 where
  "ONE_18 = 1000000000000000000"

text \<open>\<open>decimals\<close> is an \<open>i8\<close>; \<open>-decimals\<close> wraps at 8 bits, and both casts to \<open>u8\<close> keep the bits.\<close>

definition scale :: "u256 \<Rightarrow> 8 word \<Rightarrow> u256 run" where
  "scale value decimals =
    (if 0 \<le>s decimals
     then Some (saturating_mul value (pow_word 10 (unat decimals)))
     else div_run value (pow_word 10 (unat (- decimals))))"

definition sub_checked :: "u256 \<Rightarrow> u256 \<Rightarrow> u256" where
  "sub_checked a b = saturating_sub a b"

definition div_up :: "u256 \<Rightarrow> u256 \<Rightarrow> u256" where
  "div_up a b =
    (if a = 0 \<or> b = 0 then 0
     else let a_inflated = a * ONE_18 in ((a_inflated - 1) div b) + 1)"

definition div_down :: "u256 \<Rightarrow> u256 \<Rightarrow> u256" where
  "div_down a b = (if a = 0 \<or> b = 0 then 0 else (a * ONE_18) div b)"

definition mul_up :: "u256 \<Rightarrow> u256 \<Rightarrow> u256" where
  "mul_up a b = (let product = a * b in if product = 0 then 0 else ((product - 1) div ONE_18) + 1)"

definition mul_down :: "u256 \<Rightarrow> u256 \<Rightarrow> u256" where
  "mul_down a b = (a * b) div ONE_18"

definition complement :: "u256 \<Rightarrow> u256" where
  "complement x = (if x < ONE_18 then ONE_18 - x else 0)"

section \<open>LogExpMath\<close>

definition sdiv_run :: "i256 \<Rightarrow> i256 \<Rightarrow> i256 run" where
  "sdiv_run a b = (if b = 0 then None else Some (a sdiv b))"

definition one_18 :: i256 where "one_18 = 1000000000000000000"
definition one_20 :: i256 where "one_20 = 100000000000000000000"
definition one_36 :: i256 where "one_36 = 1000000000000000000000000000000000000"
definition max_natural_exponent :: i256 where "max_natural_exponent = 130000000000000000000"
definition min_natural_exponent :: i256 where "min_natural_exponent = - 41000000000000000000"
definition ln_36_lower_bound :: i256 where "ln_36_lower_bound = 900000000000000000"
definition ln_36_upper_bound :: i256 where "ln_36_upper_bound = 1100000000000000000"
definition mild_exponent_bound :: u256 where
  "mild_exponent_bound = (2 ^ 254) div 100000000000000000000"
definition x0 :: i256 where "x0 = 128000000000000000000"
definition a0 :: i256 where "a0 = 38877084059945950922200000000000000000000000000000000000"
definition x1 :: i256 where "x1 = 64000000000000000000"
definition a1 :: i256 where "a1 = 6235149080811616882910000000"
definition x2 :: i256 where "x2 = 3200000000000000000000"
definition a2 :: i256 where "a2 = 7896296018268069516100000000000000"
definition x3 :: i256 where "x3 = 1600000000000000000000"
definition a3 :: i256 where "a3 = 888611052050787263676000000"
definition x4 :: i256 where "x4 = 800000000000000000000"
definition a4 :: i256 where "a4 = 298095798704172827474000"
definition x5 :: i256 where "x5 = 400000000000000000000"
definition a5 :: i256 where "a5 = 5459815003314423907810"
definition x6 :: i256 where "x6 = 200000000000000000000"
definition a6 :: i256 where "a6 = 738905609893065022723"
definition x7 :: i256 where "x7 = 100000000000000000000"
definition a7 :: i256 where "a7 = 271828182845904523536"
definition x8 :: i256 where "x8 = 50000000000000000000"
definition a8 :: i256 where "a8 = 164872127070012814685"
definition x9 :: i256 where "x9 = 25000000000000000000"
definition a9 :: i256 where "a9 = 128402541668774148407"
definition x10 :: i256 where "x10 = 12500000000000000000"
definition a10 :: i256 where "a10 = 113314845306682631683"
definition x11 :: i256 where "x11 = 6250000000000000000"
definition a11 :: i256 where "a11 = 106449445891785942956"

text \<open>One line \<open>if x >= xn { x -= xn; product = product * an / ONE_20 }\<close> of \<open>exp\<close>.\<close>

definition exp_reduce :: "i256 \<times> i256 \<Rightarrow> i256 \<times> i256 \<Rightarrow> i256 \<times> i256" where
  "exp_reduce xa xp =
    (case xa of (xn, an) \<Rightarrow> case xp of (x, product) \<Rightarrow>
       if xn \<le>s x then (x - xn, (product * an) sdiv one_20) else (x, product))"

text \<open>The Taylor terms: \<open>term = ((term * x) / ONE_20) / i\<close> for \<open>i = 2 .. 12\<close>, each added.\<close>

definition exp_term :: "i256 \<Rightarrow> i256 \<Rightarrow> i256 \<times> i256 \<Rightarrow> i256 \<times> i256" where
  "exp_term x i ts =
    (case ts of (t, series_sum) \<Rightarrow>
       let t' = ((t * x) sdiv one_20) sdiv i in (t', series_sum + t'))"

definition exp_nonneg :: "i256 \<Rightarrow> i256" where
  "exp_nonneg xarg =
    (let (x, first_an) =
           (if x0 \<le>s xarg then (xarg - x0, a0)
            else if x1 \<le>s xarg then (xarg - x1, a1)
            else (xarg, 1));
         x = x * 100;
         (x, product) = fold exp_reduce
           [(x2, a2), (x3, a3), (x4, a4), (x5, a5), (x6, a6), (x7, a7), (x8, a8), (x9, a9)]
           (x, one_20);
         (t, series_sum) = fold (exp_term x) [2, 3, 4, 5, 6, 7, 8, 9, 10, 11, 12] (x, one_20 + x)
     in (((product * series_sum) sdiv one_20) * first_an) sdiv 100)"

lemma sint_uminus_small:
  assumes "- (2 ^ 254) \<le> sint (x :: 256 word)" "sint x \<le> 2 ^ 254"
  shows "sint (- x) = - sint x"
  using assms by (simp add: signed_take_bit_int_eq_self sint_word_ariths(4))

function logexp_exp :: "i256 \<Rightarrow> i256 run" where
  "logexp_exp x =
    (if x <s min_natural_exponent \<or> max_natural_exponent <s x then Some 0
     else if x <s 0 then do { e \<leftarrow> logexp_exp (- x); sdiv_run (one_18 * one_18) e }
     else Some (exp_nonneg x))"
  by pat_completeness auto

termination
proof (relation "measure (\<lambda>x. if x <s 0 then 1 else 0)")
  fix x :: i256
  assume "\<not> (x <s min_natural_exponent \<or> max_natural_exponent <s x)" "x <s 0"
  then have "sint (- x) = - sint x" "sint x < 0"
    by (auto simp: word_sless_alt min_natural_exponent_def intro!: sint_uminus_small)
  then show "(- x, x) \<in> measure (\<lambda>x. if x <s 0 then 1 else 0)"
    using \<open>x <s 0\<close> by (simp add: word_sless_alt)
qed simp

declare logexp_exp.simps [simp del]

text \<open>\<open>if a >= an * ONE_18 { a /= an; sum += xn }\<close> of \<open>_ln\<close>, and \<open>if a >= an { a = a * ONE_20 / an; ... }\<close>.\<close>

definition ln_reduce_big :: "i256 \<times> i256 \<Rightarrow> i256 \<times> i256 \<Rightarrow> i256 \<times> i256" where
  "ln_reduce_big xa as =
    (case xa of (xn, an) \<Rightarrow> case as of (a, acc) \<Rightarrow>
       if an * one_18 \<le>s a then (a sdiv an, acc + xn) else (a, acc))"

definition ln_reduce :: "i256 \<times> i256 \<Rightarrow> i256 \<times> i256 \<Rightarrow> i256 \<times> i256" where
  "ln_reduce xa as =
    (case xa of (xn, an) \<Rightarrow> case as of (a, acc) \<Rightarrow>
       if an \<le>s a then ((a * one_20) sdiv an, acc + xn) else (a, acc))"

text \<open>One term of the two logarithm series: \<open>num = num * z\<^sup>2 / ONE; series_sum += num / d\<close>.\<close>

definition ln_term :: "i256 \<Rightarrow> i256 \<Rightarrow> i256 \<Rightarrow> i256 \<times> i256 \<Rightarrow> i256 \<times> i256" where
  "ln_term one z_squared d ns =
    (case ns of (num, series_sum) \<Rightarrow>
       let num' = (num * z_squared) sdiv one in (num', series_sum + num' sdiv d))"

definition ln_at_least_one :: "i256 \<Rightarrow> i256 run" where
  "ln_at_least_one aarg =
    (let (a, acc) = fold ln_reduce_big [(x0, a0), (x1, a1)] (aarg, 0);
         (a, acc) = fold ln_reduce
           [(x2, a2), (x3, a3), (x4, a4), (x5, a5), (x6, a6), (x7, a7), (x8, a8), (x9, a9),
            (x10, a10), (x11, a11)] (a * 100, acc * 100)
     in do {
       z \<leftarrow> sdiv_run ((a - one_20) * one_20) (a + one_20);
       let z_squared = (z * z) sdiv one_20;
       let (num, series_sum) = fold (ln_term one_20 z_squared) [3, 5, 7, 9, 11] (z, z);
       Some ((acc + series_sum * 2) sdiv 100)
     })"

partial_function (option) logexp_ln :: "i256 \<Rightarrow> i256 run" where
  "logexp_ln a =
    (if a <s one_18
     then do { q \<leftarrow> sdiv_run (one_18 * one_18) a; l \<leftarrow> logexp_ln q; Some (- l) }
     else ln_at_least_one a)"

declare logexp_ln.simps [code]

definition logexp_ln_36 :: "i256 \<Rightarrow> i256 run" where
  "logexp_ln_36 xarg =
    (let x = xarg * one_18
     in do {
       z \<leftarrow> sdiv_run ((x - one_36) * one_36) (x + one_36);
       let z_squared = (z * z) sdiv one_36;
       let (num, series_sum) = fold (ln_term one_36 z_squared) [3, 5, 7, 9, 11, 13, 15] (z, z);
       Some (series_sum * 2)
     })"

text \<open>\<open>U256::try_from(v.abs()).unwrap_or(ZERO)\<close>: \<open>abs\<close> of the least \<open>I256\<close> wraps to itself.\<close>

definition abs_to_u256 :: "i256 \<Rightarrow> u256" where
  "abs_to_u256 v = (let a = (if v <s 0 then - v else v) in if a <s 0 then 0 else a)"

definition logexp_pow :: "u256 \<Rightarrow> u256 \<Rightarrow> u256 run" where
  "logexp_pow x y =
    (if y = 0 then Some ONE_18
     else if x = 0 then Some 0
     else if 2 ^ 255 \<le> x then Some 0
     else if mild_exponent_bound \<le> y then Some 0
     else do {
       p \<leftarrow> (if ln_36_lower_bound <s x \<and> x <s ln_36_upper_bound
             then do {
               ln_36_x \<leftarrow> logexp_ln_36 x;
               Some ((ln_36_x sdiv one_18) * y + ((ln_36_x smod one_18) * y) sdiv one_18)
             }
             else do { l \<leftarrow> logexp_ln x; Some (l * y) });
       let logx_times_y = p sdiv one_18;
       if logx_times_y <s min_natural_exponent \<or> max_natural_exponent <s logx_times_y then Some 0
       else do { e \<leftarrow> logexp_exp logx_times_y; Some (abs_to_u256 e) }
     })"

section \<open>The quote\<close>

definition pow_up :: "u256 \<Rightarrow> u256 \<Rightarrow> u256 run" where
  "pow_up x y =
    (if y = ONE_18 then Some x
     else if y = ONE_18 * 2 then Some (mul_up x x)
     else if y = ONE_18 * 4 then (let square = mul_up x x in Some (mul_up square square))
     else do {
       raw \<leftarrow> logexp_pow x y;
       let max_error = mul_up raw 10000 + 1;
       Some (raw + max_error)
     })"

definition get_amount_out_balancer ::
    "u256 \<Rightarrow> u256 \<Rightarrow> u256 \<Rightarrow> u256 \<Rightarrow> u256 \<Rightarrow> u256 \<Rightarrow> u8 \<Rightarrow> u256 run" where
  "get_amount_out_balancer amount_in balance_in balance_out weight_in weight_out swap_fee
       token_in_decimals =
    (if amount_in = 0 \<or> balance_in = 0 \<or> balance_out = 0 then Some 0
     else do {
       let scaling_factor = 18 - token_in_decimals;
       scaled_amount_in \<leftarrow> scale amount_in scaling_factor;
       let amount_in_without_fees = sub_checked scaled_amount_in (mul_up scaled_amount_in swap_fee);
       let denominator = balance_in + amount_in_without_fees;
       if denominator = 0 then Some 0
       else do {
         let base = div_up balance_in denominator;
         let exponent = div_down weight_in weight_out;
         if exponent = 0 \<or> ONE_18 \<le> base then Some 0
         else do {
           power \<leftarrow> pow_up base exponent;
           Some (mul_down balance_out (complement power))
         }
       }
     })"

section \<open>Exact rounding\<close>

lemma unat_ONE_18 [simp]: "unat ONE_18 = 10 ^ 18"
  by (simp add: ONE_18_def)

lemma ONE_18_neq_0 [simp]: "ONE_18 \<noteq> 0"
  by (simp add: ONE_18_def)

lemma unat_mul_down:
  assumes "unat a * unat b < 2 ^ 256"
  shows "unat (mul_down a b) = unat a * unat b div 10 ^ 18"
  using assms by (simp add: mul_down_def unat_div_distrib unat_mult_exact)

lemma unat_ceil_div:
  assumes "p \<noteq> (0 :: u256)"
  shows "unat ((p - 1) div b + 1) = (unat p - 1) div unat b + 1"
proof -
  have "1 \<le> p" using assms(1) by (simp add: word_le_nat_alt word_zero_iff_unat Suc_le_eq)
  then have p: "unat (p - 1) = unat p - 1" by (simp add: unat_sub_exact)
  have "1 \<le> unat p" using \<open>1 \<le> p\<close> by (simp add: word_le_nat_alt)
  then have "(unat p - 1) div unat b + 1 < 2 ^ 256"
    using unat_less [of p] le_less_trans [OF div_le_dividend, of "unat p - 1" "2 ^ 256 - 1" "unat b"]
    by simp
  then show ?thesis
    using unat_add_exact [of "(p - 1) div b" 1] by (simp add: unat_div_distrib p)
qed

text \<open>Rounding up: the least \<open>q\<close> with \<open>a * b \<le> q * 10^18\<close>.\<close>

lemma mul_up_ceiling:
  assumes "unat a * unat b < 2 ^ 256"
  shows "unat a * unat b \<le> unat (mul_up a b) * 10 ^ 18"
    and "unat (mul_up a b) * 10 ^ 18 < unat a * unat b + 10 ^ 18"
proof -
  have ab: "unat (a * b) = unat a * unat b" using assms by (simp add: unat_mult_exact)
  have "unat a * unat b \<le> unat (mul_up a b) * 10 ^ 18 \<and>
        unat (mul_up a b) * 10 ^ 18 < unat a * unat b + 10 ^ 18"
  proof (cases "a * b = 0")
    case True
    then show ?thesis using ab by (simp add: mul_up_def)
  next
    case False
    then have "unat (mul_up a b) = (unat a * unat b - 1) div 10 ^ 18 + 1"
      by (simp add: mul_up_def Let_def unat_ceil_div ab)
    moreover have "0 < unat a * unat b" using False ab by (metis word_pos_unat)
    ultimately show ?thesis
      using ceil_div_bounds [of "unat a * unat b" "10 ^ 18"] by simp
  qed
  then show "unat a * unat b \<le> unat (mul_up a b) * 10 ^ 18"
    and "unat (mul_up a b) * 10 ^ 18 < unat a * unat b + 10 ^ 18" by auto
qed

lemma div_up_ceiling:
  assumes "unat a * 10 ^ 18 < 2 ^ 256" "b \<noteq> 0" "a \<noteq> 0"
  shows "unat a * 10 ^ 18 \<le> unat (div_up a b) * unat b"
proof -
  have a: "unat (a * ONE_18) = unat a * 10 ^ 18" using assms(1) by (simp add: unat_mult_exact)
  moreover have "0 < unat a" using assms(3) by (rule word_pos_unat)
  ultimately have nz: "a * ONE_18 \<noteq> 0" by (simp add: word_zero_iff_unat)
  have "unat (div_up a b) = (unat a * 10 ^ 18 - 1) div unat b + 1"
    using assms by (simp add: div_up_def Let_def unat_ceil_div [OF nz] a)
  moreover have "unat a * 10 ^ 18 - 1 < ((unat a * 10 ^ 18 - 1) div unat b + 1) * unat b"
    using assms(2) by (intro less_succ_div_nat word_pos_unat)
  ultimately show ?thesis by simp
qed

lemma unat_complement: "unat (complement x) = 10 ^ 18 - unat x"
  by (cases "x < ONE_18") (simp_all add: complement_def unat_sub_exact word_less_nat_alt word_le_nat_alt)

section \<open>Equal weights\<close>

text \<open>
  With equal weights the exponent is exactly one, the logarithm is not used, and the quote is a
  \<open>swap_curve\<close>: rounding goes against the trader in every operation. \<open>balancer_ok\<close> says that the
  18-decimal products fit.
\<close>

definition balancer_equal :: "u256 \<Rightarrow> u256 \<Rightarrow> u256 \<Rightarrow> u256 \<Rightarrow> u256 \<Rightarrow> u256 run" where
  "balancer_equal w fee a ri ro = get_amount_out_balancer a ri ro w w fee 18"

definition balancer_ok :: "u256 \<Rightarrow> u256 \<Rightarrow> u256 \<Rightarrow> u256 \<Rightarrow> bool" where
  "balancer_ok w a ri ro \<longleftrightarrow>
     w \<noteq> 0 \<and> unat w * 10 ^ 18 < 2 ^ 256 \<and> ri \<noteq> 0 \<and> unat ri * 10 ^ 18 < 2 ^ 256 \<and>
     unat ro * 10 ^ 18 < 2 ^ 256 \<and> unat ri + unat a < 2 ^ 256"

lemma div_down_self:
  assumes "w \<noteq> 0" "unat w * 10 ^ 18 < 2 ^ 256"
  shows "div_down w w = ONE_18"
proof -
  have "unat (w * ONE_18) = unat w * 10 ^ 18" using assms(2) by (simp add: unat_mult_exact)
  moreover have "unat (w * ONE_18 div w) = unat (w * ONE_18) div unat w"
    by (rule unat_div_distrib)
  ultimately have "unat (div_down w w) = 10 ^ 18"
    using assms(1) word_pos_unat [OF assms(1)] by (simp add: div_down_def)
  then show ?thesis by (simp add: word_unat_eq_iff)
qed

lemma scale_18 [simp]: "scale a 0 = Some a"
proof -
  have "unat a * unat (1 :: u256) < 2 ^ LENGTH(256)" using unat_less [of a] by simp
  then show ?thesis by (simp add: scale_def pow_word_def saturating_mul_def)
qed

lemma balancer_equal_value:
  assumes ok: "balancer_ok w a ri ro"
  shows "\<exists>v p. balancer_equal w fee a ri ro = Some v \<and> p \<le> unat a \<and>
               unat v * (unat ri + p) \<le> p * unat ro"
proof (cases "a = 0 \<or> ro = 0")
  case True
  then show ?thesis
    by (intro exI [of _ 0]) (auto simp: balancer_equal_def get_amount_out_balancer_def)
next
  case False
  define n where "n = sub_checked a (mul_up a fee)"
  note ok' = ok [unfolded balancer_ok_def]
  have n: "unat n \<le> unat a" by (simp add: n_def sub_checked_def unat_saturating_sub)
  then have "unat ri + unat n < 2 ^ 256" using ok' by linarith
  then have d: "unat (ri + n) = unat ri + unat n" by (simp add: unat_add_exact)
  have "0 < unat ri" using ok' by (simp add: word_pos_unat)
  then have nz: "ri + n \<noteq> 0" by (simp add: word_zero_iff_unat d)
  let ?B = "div_up ri (ri + n)"
  have B: "unat ri * 10 ^ 18 \<le> unat ?B * (unat ri + unat n)"
    using div_up_ceiling [of ri "ri + n"] ok' nz by (simp add: d)
  have val: "balancer_equal w fee a ri ro =
        Some (if ONE_18 \<le> ?B then 0 else mul_down ro (complement ?B))"
    using False ok' nz
    by (simp add: balancer_equal_def get_amount_out_balancer_def Let_def div_down_self pow_up_def
        n_def [symmetric])
  show ?thesis
  proof (cases "ONE_18 \<le> ?B")
    case True
    then show ?thesis using val n by (intro exI [of _ 0]) simp
  next
    case small: False
    let ?v = "mul_down ro (complement ?B)" and ?C = "10 ^ 18 - unat ?B"
    have "unat ro * unat (complement ?B) \<le> unat ro * 10 ^ 18"
      by (simp add: unat_complement)
    also have "\<dots> < 2 ^ 256" using ok' by simp
    finally have v: "unat ?v = unat ro * ?C div 10 ^ 18"
      using unat_mul_down [of ro "complement ?B"] by (simp only: unat_complement)
    have lt: "unat ?B < 10 ^ 18" using small by (simp add: word_le_nat_alt)
    have "?C * (unat ri + unat n) \<le> 10 ^ 18 * unat n"
      using B lt by (simp add: diff_mult_distrib distrib_left)
    then have "unat ro * (?C * (unat ri + unat n)) \<le> unat ro * (10 ^ 18 * unat n)"
      by (rule mult_le_mono2)
    moreover have "unat ?v * 10 ^ 18 * (unat ri + unat n) \<le> unat ro * ?C * (unat ri + unat n)"
      unfolding v by (rule mult_le_mono1 [OF div_mult_le_nat])
    ultimately have "unat ?v * 10 ^ 18 * (unat ri + unat n) \<le> unat ro * (10 ^ 18 * unat n)"
      by (simp only: mult.assoc)
    then have "unat ?v * (unat ri + unat n) \<le> unat n * unat ro" by (simp add: algebra_simps)
    then show ?thesis using val small n by auto
  qed
qed

interpretation balancer: swap_curve "balancer_equal w fee" "balancer_ok w" for w fee
proof unfold_locales
  fix a ri ro v
  assume ok: "balancer_ok w a ri ro"
  then show "\<exists>v. balancer_equal w fee a ri ro = Some v"
    using balancer_equal_value by blast
  show pos: "0 < unat ri" using ok by (simp add: balancer_ok_def word_pos_unat)
  assume "balancer_equal w fee a ri ro = Some v"
  then obtain p where "p \<le> unat a" "unat v * (unat ri + p) \<le> p * unat ro"
    using balancer_equal_value [OF ok, of fee] by auto
  then show "unat v * (unat ri + unat a) \<le> unat a * unat ro"
    using fee_first_curve_bound [OF _ _ pos] by blast
qed

section \<open>The quote always returns\<close>

lemma sint_mult_exact:
  assumes "- (2 ^ 255) \<le> sint (a :: i256) * sint b" "sint a * sint b < 2 ^ 255"
  shows "sint (a * b) = sint a * sint b"
  using assms by (simp add: sint_word_ariths(3) signed_take_bit_int_eq_self)

lemma sint_add_exact:
  assumes "- (2 ^ 255) \<le> sint (a :: i256) + sint b" "sint a + sint b < 2 ^ 255"
  shows "sint (a + b) = sint a + sint b"
  using assms by (simp add: sint_word_ariths(1) signed_take_bit_int_eq_self)

lemma sint_sub_exact:
  assumes "- (2 ^ 255) \<le> sint (a :: i256) - sint b" "sint a - sint b < 2 ^ 255"
  shows "sint (a - b) = sint a - sint b"
  using assms by (simp add: sint_word_ariths(2) signed_take_bit_int_eq_self)

lemma sdiv_int_nonneg: "0 \<le> a \<Longrightarrow> 0 < b \<Longrightarrow> a sdiv b = a div (b::int)"
  by (cases "a = 0") (simp_all add: signed_divide_int_def)

lemma sint_sdiv_nonneg:
  assumes "0 \<le> sint (a :: i256)" "0 < sint b"
  shows "sint (a sdiv b) = sint a div sint b"
proof -
  have "sint a < 2 ^ 255" using sint_lt [of a] by simp
  moreover have "sint a div sint b \<le> sint a"
    using zdiv_mono2 [of "sint a" 1 "sint b"] assms by simp
  moreover have "0 \<le> sint a div sint b" using assms by (simp add: pos_imp_zdiv_nonneg_iff)
  ultimately show ?thesis
    using assms by (simp add: signed_divide_word_def sdiv_int_nonneg sint_sbintrunc' signed_take_bit_int_eq_self)
qed

text \<open>
  One reduction step of \<open>exp\<close> halves the range of \<open>x\<close> and scales the bound \<open>b\<close> of the product.
\<close>

lemma exp_reduce_step:
  assumes "0 \<le> sint x" "sint x < 2 * sint xn" "10 ^ 20 \<le> sint p" "sint p \<le> b"
    and "10 ^ 20 \<le> sint an" "b * sint an < 2 ^ 255"
  shows "\<exists>x' p'. exp_reduce (xn, an) (x, p) = (x', p') \<and> 0 \<le> sint x' \<and> sint x' < sint xn \<and>
                 10 ^ 20 \<le> sint p' \<and> sint p' \<le> b * sint an div 10 ^ 20"
proof (cases "xn \<le>s x")
  case True
  have "sint x < 2 ^ 255" using sint_lt [of x] by simp
  then have x': "sint (x - xn) = sint x - sint xn"
    using assms True by (intro sint_sub_exact) (simp_all add: word_sle_eq)
  have le: "sint p * sint an \<le> b * sint an" using assms by (intro mult_right_mono) auto
  have low: "10 ^ 20 * 10 ^ 20 \<le> sint p * sint an" using assms by (intro mult_mono) auto
  have pa: "sint (p * an) = sint p * sint an"
    using le low assms(6) by (intro sint_mult_exact) simp_all
  have "sint (p * an sdiv one_20) = sint p * sint an div 10 ^ 20"
    using low by (subst sint_sdiv_nonneg) (simp_all add: pa one_20_def)
  moreover have "10 ^ 20 \<le> sint p * sint an div 10 ^ 20"
    using zdiv_mono1 [OF low, of "10 ^ 20"] by simp
  moreover have "sint p * sint an div 10 ^ 20 \<le> b * sint an div 10 ^ 20"
    using le by (rule zdiv_mono1) simp
  ultimately show ?thesis
    using True assms x' by (simp add: exp_reduce_def word_sle_eq)
next
  case False
  have "b * 10 ^ 20 \<le> b * sint an" using assms by (intro mult_left_mono) auto
  then have "b * 10 ^ 20 div 10 ^ 20 \<le> b * sint an div 10 ^ 20" by (rule zdiv_mono1) simp
  then show ?thesis
    using False assms by (simp add: exp_reduce_def word_sle_eq)
qed

lemma exp_term_step:
  assumes "0 \<le> sint x" "sint x \<le> 10 ^ 20" "0 \<le> sint t" "sint t \<le> 10 ^ 20" "0 \<le> sint sm" "sint sm \<le> b"
    and "1 \<le> sint i" "b < 2 ^ 200"
  shows "\<exists>t' sm'. exp_term x i (t, sm) = (t', sm') \<and> 0 \<le> sint t' \<and> sint t' \<le> 10 ^ 20 \<and>
                 sint sm \<le> sint sm' \<and> sint sm' \<le> b + 10 ^ 20"
proof -
  have "sint t * sint x \<le> 10 ^ 20 * 10 ^ 20" and "0 \<le> sint t * sint x"
    by (rule mult_mono [OF assms(4,2)]) (use assms in auto)
  moreover from this have tx: "sint (t * x) = sint t * sint x"
    by (intro sint_mult_exact) (auto elim: order_trans)
  ultimately have q: "sint (t * x sdiv one_20) = sint t * sint x div 10 ^ 20"
    by (subst sint_sdiv_nonneg) (simp_all add: one_20_def)
  have q0: "0 \<le> sint (t * x sdiv one_20)" "sint (t * x sdiv one_20) \<le> 10 ^ 20"
    using zdiv_mono1 [OF \<open>sint t * sint x \<le> 10 ^ 20 * 10 ^ 20\<close>, of "10 ^ 20"] \<open>0 \<le> sint t * sint x\<close>
    unfolding q by (simp_all add: pos_imp_zdiv_nonneg_iff)
  define t' where "t' = t * x sdiv one_20 sdiv i"
  have t': "sint t' = sint (t * x sdiv one_20) div sint i"
    using q0 assms(7) unfolding t'_def by (intro sint_sdiv_nonneg) auto
  have "0 \<le> sint t'" "sint t' \<le> 10 ^ 20"
    using q0 assms(7) zdiv_mono2 [of "sint (t * x sdiv one_20)" 1 "sint i"]
    unfolding t' by (auto simp: pos_imp_zdiv_nonneg_iff)
  moreover from this have "sint (sm + t') = sint sm + sint t'"
    using assms by (intro sint_add_exact) auto
  ultimately show ?thesis
    using assms by (simp add: exp_term_def Let_def t'_def [symmetric])
qed

text \<open>The eleven Taylor terms keep the running sum between one and twelve.\<close>

lemma exp_series_bounds:
  assumes x: "0 \<le> sint x" "sint x \<le> 10 ^ 20"
    and "\<forall>i \<in> set is. 1 \<le> sint i" "0 \<le> sint t" "sint t \<le> 10 ^ 20"
    and "10 ^ 20 \<le> sint sm" "sint sm + int (length is) * 10 ^ 20 < 2 ^ 199"
  shows "\<exists>t' sm'. fold (exp_term x) is (t, sm) = (t', sm') \<and>
            10 ^ 20 \<le> sint sm' \<and> sint sm' \<le> sint sm + int (length is) * 10 ^ 20"
  using assms(3-)
proof (induction "is" arbitrary: t sm)
  case (Cons i "is")
  then obtain t' sm' where s: "exp_term x i (t, sm) = (t', sm')" "0 \<le> sint t'" "sint t' \<le> 10 ^ 20"
    "sint sm \<le> sint sm'" "sint sm' \<le> sint sm + 10 ^ 20"
    using exp_term_step [OF x, of t sm "sint sm" i] by (auto simp: distrib_right)
  then show ?case
    using Cons.IH [of t' sm'] Cons.prems by (auto simp: distrib_right)
qed simp

lemma sint_constants [simp]:
  "sint one_18 = 10 ^ 18" "sint one_20 = 10 ^ 20" "sint one_36 = 10 ^ 36"
  "sint x1 = 64 * 10 ^ 18"
  "sint x2 = 3200 * 10 ^ 18" "sint x3 = 1600 * 10 ^ 18" "sint x4 = 800 * 10 ^ 18"
  "sint x5 = 400 * 10 ^ 18" "sint x6 = 200 * 10 ^ 18" "sint x7 = 100 * 10 ^ 18"
  "sint x8 = 50 * 10 ^ 18" "sint x9 = 25 * 10 ^ 18"
  by (simp_all add: one_18_def one_20_def one_36_def x1_def x2_def x3_def x4_def x5_def x6_def
      x7_def x8_def x9_def)

lemma exp_reduce_all:
  assumes "0 \<le> sint x" "sint x < 6400 * 10 ^ 18"
  shows "\<exists>x' p. fold exp_reduce
           [(x2, a2), (x3, a3), (x4, a4), (x5, a5), (x6, a6), (x7, a7), (x8, a8), (x9, a9)]
           (x, one_20) = (x', p) \<and> 0 \<le> sint x' \<and> sint x' < 25 * 10 ^ 18 \<and>
           10 ^ 20 \<le> sint p \<and> sint p \<le> 10 ^ 48"
proof -
  obtain y2 p2 where 2: "exp_reduce (x2, a2) (x, one_20) = (y2, p2)" "0 \<le> sint y2"
    "sint y2 < 3200 * 10 ^ 18" "10 ^ 20 \<le> sint p2" "sint p2 \<le> 7896296018268069516100000000000000"
    using exp_reduce_step [of x x2 one_20 "10 ^ 20" a2] assms by (auto simp: a2_def)
  obtain y3 p3 where 3: "exp_reduce (x3, a3) (y2, p2) = (y3, p3)" "0 \<le> sint y3"
    "sint y3 < 1600 * 10 ^ 18" "10 ^ 20 \<le> sint p3" "sint p3 \<le> 10 ^ 41"
    using exp_reduce_step [of y2 x3 p2 _ a3, OF _ _ _ 2(5)] 2 by (fastforce simp: a3_def)
  obtain y4 p4 where 4: "exp_reduce (x4, a4) (y3, p3) = (y4, p4)" "0 \<le> sint y4"
    "sint y4 < 800 * 10 ^ 18" "10 ^ 20 \<le> sint p4" "sint p4 \<le> 3 * 10 ^ 44"
    using exp_reduce_step [of y3 x4 p3 _ a4, OF _ _ _ 3(5)] 3 by (fastforce simp: a4_def)
  obtain y5 p5 where 5: "exp_reduce (x5, a5) (y4, p4) = (y5, p5)" "0 \<le> sint y5"
    "sint y5 < 400 * 10 ^ 18" "10 ^ 20 \<le> sint p5" "sint p5 \<le> 2 * 10 ^ 46"
    using exp_reduce_step [of y4 x5 p4 _ a5, OF _ _ _ 4(5)] 4 by (fastforce simp: a5_def)
  obtain y6 p6 where 6: "exp_reduce (x6, a6) (y5, p5) = (y6, p6)" "0 \<le> sint y6"
    "sint y6 < 200 * 10 ^ 18" "10 ^ 20 \<le> sint p6" "sint p6 \<le> 15 * 10 ^ 46"
    using exp_reduce_step [of y5 x6 p5 _ a6, OF _ _ _ 5(5)] 5 by (fastforce simp: a6_def)
  obtain y7 p7 where 7: "exp_reduce (x7, a7) (y6, p6) = (y7, p7)" "0 \<le> sint y7"
    "sint y7 < 100 * 10 ^ 18" "10 ^ 20 \<le> sint p7" "sint p7 \<le> 41 * 10 ^ 46"
    using exp_reduce_step [of y6 x7 p6 _ a7, OF _ _ _ 6(5)] 6 by (fastforce simp: a7_def)
  obtain y8 p8 where 8: "exp_reduce (x8, a8) (y7, p7) = (y8, p8)" "0 \<le> sint y8"
    "sint y8 < 50 * 10 ^ 18" "10 ^ 20 \<le> sint p8" "sint p8 \<le> 70 * 10 ^ 46"
    using exp_reduce_step [of y7 x8 p7 _ a8, OF _ _ _ 7(5)] 7 by (fastforce simp: a8_def)
  obtain y9 p9 where 9: "exp_reduce (x9, a9) (y8, p8) = (y9, p9)" "0 \<le> sint y9"
    "sint y9 < 25 * 10 ^ 18" "10 ^ 20 \<le> sint p9" "sint p9 \<le> 10 ^ 48"
    using exp_reduce_step [of y8 x9 p8 _ a9, OF _ _ _ 8(5)] 8 by (fastforce simp: a9_def)
  show ?thesis using 2(1) 3(1) 4(1) 5(1) 6(1) 7(1) 8(1) 9 by simp
qed

lemma exp_nonneg_positive:
  assumes "0 \<le> sint x" "sint x \<le> 41 * 10 ^ 18"
  shows "0 < sint (exp_nonneg x)"
proof -
  have lt: "\<not> x0 \<le>s x" "\<not> x1 \<le>s x"
    using assms by (simp_all add: word_sle_eq x0_def x1_def)
  have x100: "sint (x * 100) = sint x * 100"
    using assms by (subst sint_mult_exact) simp_all
  obtain y p where r: "fold exp_reduce
      [(x2, a2), (x3, a3), (x4, a4), (x5, a5), (x6, a6), (x7, a7), (x8, a8), (x9, a9)]
      (x * 100, one_20) = (y, p)" "0 \<le> sint y" "sint y < 25 * 10 ^ 18"
      "10 ^ 20 \<le> sint p" "sint p \<le> 10 ^ 48"
    using exp_reduce_all [of "x * 100"] assms x100 by auto
  have s1: "sint (one_20 + y) = 10 ^ 20 + sint y"
    using r by (subst sint_add_exact) simp_all
  obtain t sm where t: "fold (exp_term y) [2, 3, 4, 5, 6, 7, 8, 9, 10, 11, 12] (y, one_20 + y) = (t, sm)"
      "10 ^ 20 \<le> sint sm" "sint sm \<le> 10 ^ 20 + sint y + 11 * 10 ^ 20"
    using exp_series_bounds [of y "[2, 3, 4, 5, 6, 7, 8, 9, 10, 11, 12]" y "one_20 + y"] r s1
    by auto
  have "sint p * sint sm \<le> 10 ^ 48 * 10 ^ 22"
    using r t by (intro mult_mono) auto
  moreover have low: "10 ^ 20 * 10 ^ 20 \<le> sint p * sint sm"
    using r t by (intro mult_mono) auto
  ultimately have ps: "sint (p * sm) = sint p * sint sm"
    by (intro sint_mult_exact) simp_all
  then have q: "sint (p * sm sdiv one_20) = sint p * sint sm div 10 ^ 20"
    using low by (subst sint_sdiv_nonneg) simp_all
  have "10 ^ 20 \<le> sint (p * sm sdiv one_20)"
    using zdiv_mono1 [OF low, of "10 ^ 20"] unfolding q by simp
  moreover from this have "sint ((p * sm sdiv one_20) sdiv 100) = sint (p * sm sdiv one_20) div 100"
    by (subst sint_sdiv_nonneg) simp_all
  moreover have "exp_nonneg x = (p * sm sdiv one_20) sdiv 100"
    unfolding exp_nonneg_def Let_def if_not_P [OF lt(1)] if_not_P [OF lt(2)] prod.case r(1) t(1)
    by simp
  ultimately show ?thesis by (simp add: pos_imp_zdiv_pos_iff)
qed

lemma logexp_exp_total: "\<exists>e. logexp_exp x = Some e"
proof (cases "x <s min_natural_exponent \<or> max_natural_exponent <s x \<or> \<not> x <s 0")
  case True
  then show ?thesis by (subst logexp_exp.simps) auto
next
  case False
  then have "- (41 * 10 ^ 18) \<le> sint x" "sint x < 0"
    by (simp_all add: word_sless_alt min_natural_exponent_def)
  then have m: "sint (- x) = - sint x" by (intro sint_uminus_small) auto
  then have "0 < sint (exp_nonneg (- x))"
    using \<open>- (41 * 10 ^ 18) \<le> sint x\<close> \<open>sint x < 0\<close> by (intro exp_nonneg_positive) auto
  then have "exp_nonneg (- x) \<noteq> 0" by auto
  moreover have "logexp_exp (- x) = Some (exp_nonneg (- x))"
    using \<open>- (41 * 10 ^ 18) \<le> sint x\<close> \<open>sint x < 0\<close> m
    by (subst logexp_exp.simps) (simp add: word_sless_alt min_natural_exponent_def max_natural_exponent_def)
  ultimately show ?thesis
    using False by (subst logexp_exp.simps) (simp add: sdiv_run_def)
qed

lemma logexp_ln_36_total:
  assumes "0 < sint x" "sint x < 2 * 10 ^ 18"
  shows "\<exists>l. logexp_ln_36 x = Some l"
proof -
  have "sint (x * one_18) = sint x * 10 ^ 18"
    using assms by (subst sint_mult_exact) simp_all
  moreover from this have "sint (x * one_18 + one_36) = sint x * 10 ^ 18 + 10 ^ 36"
    using assms by (subst sint_add_exact) simp_all
  ultimately have "sint (x * one_18 + one_36) \<noteq> 0" using assms by simp
  then have "x * one_18 + one_36 \<noteq> 0" by (metis sint_0)
  then show ?thesis by (simp add: logexp_ln_36_def sdiv_run_def Let_def split_def)
qed

lemma ln_reduce_bounds:
  assumes "\<forall>xa \<in> set xs. 10 ^ 20 \<le> sint (snd xa)" "10 ^ 20 \<le> sint a" "sint a \<le> 10 ^ 38"
  shows "\<exists>a' acc'. fold ln_reduce xs (a, acc) = (a', acc') \<and> 10 ^ 20 \<le> sint a' \<and> sint a' \<le> 10 ^ 38"
  using assms
proof (induction xs arbitrary: a acc)
  case (Cons xa xs)
  obtain xn an where xa: "xa = (xn, an)" by (cases xa)
  show ?case
  proof (cases "an \<le>s a")
    case True
    then have an: "sint an \<le> sint a" "10 ^ 20 \<le> sint an"
      using Cons.prems by (simp_all add: xa word_sle_eq)
    have m: "sint (a * one_20) = sint a * 10 ^ 20"
      using Cons.prems by (subst sint_mult_exact) simp_all
    then have q: "sint (a * one_20 sdiv an) = sint a * 10 ^ 20 div sint an"
      using Cons.prems an by (subst sint_sdiv_nonneg) simp_all
    have "sint an * 10 ^ 20 div sint an \<le> sint a * 10 ^ 20 div sint an"
      using an by (intro zdiv_mono1 mult_right_mono) simp_all
    then have low: "10 ^ 20 \<le> sint (a * one_20 sdiv an)" using an by (simp add: q)
    have "sint a * 10 ^ 20 div sint an \<le> sint a * 10 ^ 20 div 10 ^ 20"
      using an Cons.prems by (intro zdiv_mono2) simp_all
    then have "sint (a * one_20 sdiv an) \<le> 10 ^ 38" using Cons.prems by (simp add: q)
    with low show ?thesis
      using Cons.IH [of "a * one_20 sdiv an" "acc + xn"] Cons.prems True
      by (simp add: ln_reduce_def xa)
  next
    case False
    then show ?thesis
      using Cons.IH [of a acc] Cons.prems by (simp add: ln_reduce_def xa)
  qed
qed simp

lemma ln_at_least_one_total:
  assumes "10 ^ 18 \<le> sint a" "sint a \<le> 10 ^ 36"
  shows "\<exists>l. ln_at_least_one a = Some l"
proof -
  have big: "fold ln_reduce_big [(x0, a0), (x1, a1)] (a, 0) = (a, 0)"
    using assms by (simp add: ln_reduce_big_def word_sle_eq a0_def a1_def one_18_def)
  have "sint (a * 100) = sint a * 100"
    using assms by (subst sint_mult_exact) simp_all
  then obtain b acc where r: "fold ln_reduce
      [(x2, a2), (x3, a3), (x4, a4), (x5, a5), (x6, a6), (x7, a7), (x8, a8), (x9, a9),
       (x10, a10), (x11, a11)] (a * 100, 0 * 100) = (b, acc)" "10 ^ 20 \<le> sint b" "sint b \<le> 10 ^ 38"
    using ln_reduce_bounds [of "[(x2, a2), (x3, a3), (x4, a4), (x5, a5), (x6, a6), (x7, a7), (x8, a8),
       (x9, a9), (x10, a10), (x11, a11)]" "a * 100" "0 * 100"] assms
    by (auto simp: a2_def a3_def a4_def a5_def a6_def a7_def a8_def a9_def a10_def a11_def)
  then have "sint (b + one_20) = sint b + 10 ^ 20"
    by (subst sint_add_exact) simp_all
  then have "sint (b + one_20) \<noteq> 0" using r(2) by simp
  then have "b + one_20 \<noteq> 0" by (metis sint_0)
  then show ?thesis
    unfolding ln_at_least_one_def Let_def big prod.case r(1)
    by (simp add: sdiv_run_def split_def)
qed

lemma logexp_ln_total:
  assumes "0 < sint a" "sint a \<le> 10 ^ 36"
  shows "\<exists>l. logexp_ln a = Some l"
proof (cases "a <s one_18")
  case False
  then show ?thesis
    using ln_at_least_one_total assms by (subst logexp_ln.simps) (simp add: word_sless_alt)
next
  case True
  define q where "q = one_18 * one_18 sdiv a"
  have lt: "sint a < 10 ^ 18" using True by (simp add: word_sless_alt)
  have "sint (one_18 * one_18) = 10 ^ 36" by (subst sint_mult_exact) simp_all
  then have q: "sint q = 10 ^ 36 div sint a"
    using assms unfolding q_def by (subst sint_sdiv_nonneg) simp_all
  have "10 ^ 36 div 10 ^ 18 \<le> sint q" "sint q \<le> 10 ^ 36 div 1"
    using assms lt unfolding q by (intro zdiv_mono2; simp)+
  then have "10 ^ 18 \<le> sint q" "sint q \<le> 10 ^ 36" by simp_all
  then have "\<exists>l. logexp_ln q = Some l"
    using ln_at_least_one_total [of q] by (subst logexp_ln.simps) (simp add: word_sless_alt)
  then obtain l where "logexp_ln q = Some l" ..
  moreover have "a \<noteq> 0" using assms by auto
  ultimately show ?thesis
    using True by (subst logexp_ln.simps) (simp add: sdiv_run_def q_def [symmetric])
qed

lemma sint_below_one:
  assumes "x < ONE_18"
  shows "sint x = uint x" "sint x < 10 ^ 18"
proof -
  have u: "uint x < 10 ^ 18" using assms by (simp add: word_less_def ONE_18_def)
  then show "sint x = uint x"
    by (simp add: sint_uint) (rule signed_take_bit_int_eq_self, simp_all add: order_trans [of _ 0])
  with u show "sint x < 10 ^ 18" by simp
qed

lemma pow_up_total:
  assumes "x < ONE_18"
  shows "\<exists>r. pow_up x y = Some r"
proof -
  have "\<exists>r. logexp_pow x y = Some r"
  proof (cases "x = 0")
    case False
    then have "0 < sint x" "sint x < 10 ^ 18"
      using sint_below_one [OF assms] False by (simp_all add: less_le uint_0_iff)
    then obtain l l36 where "logexp_ln x = Some l" "logexp_ln_36 x = Some l36"
      using logexp_ln_total [of x] logexp_ln_36_total [of x] by auto
    moreover obtain e where "\<And>v. logexp_exp v = Some (e v)"
      using logexp_exp_total by metis
    ultimately show ?thesis by (simp add: logexp_pow_def Let_def)
  qed (simp add: logexp_pow_def)
  then show ?thesis by (auto simp: pow_up_def Let_def)
qed

lemma complement_le: "unat (complement x) \<le> 10 ^ 18"
  by (simp add: unat_complement)

lemma mul_down_complement_le:
  assumes "unat b * 10 ^ 18 < 2 ^ 256"
  shows "mul_down b (complement p) \<le> b"
proof -
  have le: "unat b * unat (complement p) \<le> unat b * 10 ^ 18"
    by (rule mult_le_mono2 [OF complement_le])
  then have "unat (mul_down b (complement p)) = unat b * unat (complement p) div 10 ^ 18"
    using assms by (intro unat_mul_down) (rule le_less_trans)
  also have "\<dots> \<le> unat b * 10 ^ 18 div 10 ^ 18" using le by (rule div_le_mono)
  finally show ?thesis by (simp add: word_le_nat_alt)
qed

lemma scale_total: "\<exists>v. scale a d = Some v"
proof -
  have "unat (- d) < 256" using unat_less [of "- d"] by simp
  then show ?thesis using pow_ten_neq_0 [of "unat (- d)"] by (simp add: scale_def div_run_def)
qed

section \<open>Properties\<close>

text \<open>
  C28. The weighted-pool quote always returns, for every weight, fee, amount and number of decimals
  (the logarithm and the exponential never divide by zero nor recurse for ever on the bases the
  quote gives them), and it never exceeds the pool's output balance.
\<close>

theorem balancer_quote_bounded:
  assumes "unat balance_out * 10 ^ 18 < 2 ^ 256"
  shows "\<exists>v. get_amount_out_balancer amount_in balance_in balance_out weight_in weight_out swap_fee
               token_in_decimals = Some v \<and> v \<le> balance_out"
proof -
  obtain s where s: "scale amount_in (18 - token_in_decimals) = Some s"
    using scale_total by blast
  let ?n = "sub_checked s (mul_up s swap_fee)"
  let ?b = "div_up balance_in (balance_in + ?n)" and ?e = "div_down weight_in weight_out"
  show ?thesis
  proof (cases "amount_in = 0 \<or> balance_in = 0 \<or> balance_out = 0 \<or> balance_in + ?n = 0 \<or>
                ?e = 0 \<or> ONE_18 \<le> ?b")
    case True
    then show ?thesis
      by (intro exI [of _ 0]) (auto simp: get_amount_out_balancer_def s Let_def)
  next
    case False
    then obtain p where "pow_up ?b ?e = Some p"
      using pow_up_total [of ?b ?e] by (auto simp: not_le)
    then show ?thesis
      using False mul_down_complement_le [OF assms]
      by (simp add: get_amount_out_balancer_def s Let_def)
  qed
qed

theorem balancer_quote_bounded_witness:
  "\<exists>v. get_amount_out_balancer 10 (10 ^ 21) (10 ^ 21) (8 * 10 ^ 17) (2 * 10 ^ 17) (3 * 10 ^ 15) 6
         = Some v \<and> v \<le> 10 ^ 21"
  by (rule balancer_quote_bounded) simp

text \<open>
  With equal weights the Balancer quote is a constant-product quote rounded against the trader:
  it returns, stays below the output balance and never lowers the product of the balances.
\<close>

lemma balancer_equal_weights_safe:
  assumes "balancer_ok w a ri ro" "ro \<noteq> 0"
  shows "\<exists>v. get_amount_out_balancer a ri ro w w fee 18 = Some v \<and> v < ro \<and>
             unat ri * unat ro \<le> (unat ri + unat a) * (unat ro - unat v)"
proof -
  obtain v where v: "balancer_equal w fee a ri ro = Some v"
    using balancer.ok_returns [OF assms(1)] by blast
  then show ?thesis
    using balancer.out_less_reserve [OF assms(1) v assms(2)] balancer.product_grows [OF assms(1) v]
    by (simp add: balancer_equal_def word_less_nat_alt)
qed

end
