(* ===== verification/Quoter.thy ===== *)
theory Quoter
  imports SimDbs SwapTypes
begin

text \<open>
  \<open>src/quoter_revm.rs\<close>: quoting a path by running the FlashQuoter contract in REVM, and the search for
  the best input amount. REVM and the ABI encoder of the contract are parameters: \<open>rv_transact\<close> runs a
  call on a database, which it may fill with what it reads, and gives the execution result. Counters and
  logging are left out.
\<close>

section \<open>Operations\<close>

datatype exec_result = Exec_Error | Exec_Success "u8 list" | Exec_Revert | Exec_Halt

record revm =
  rv_transact :: "sim_db \<Rightarrow> address \<Rightarrow> address \<Rightarrow> u8 list \<Rightarrow> exec_result \<times> sim_db"
  rv_encode_get_amount_out :: "swap_params \<Rightarrow> u8 list"
  rv_decode_get_amount_out :: "u8 list \<Rightarrow> u256 option"
  rv_keccak :: "u8 list \<Rightarrow> u256"
  rv_keccak_empty :: u256

definition QUOTER_ADDRESS :: address where
  "QUOTER_ADDRESS = 0x1000"

definition CALLER_ADDRESS :: address where
  "CALLER_ADDRESS = 0xCA11"

record revm_quoter =
  qr_bytecode :: "u8 list option"

definition quoter_new :: revm_quoter where
  "quoter_new = \<lparr> qr_bytecode = None \<rparr>"

definition quoter_with_bytecode :: "u8 list \<Rightarrow> revm_quoter" where
  "quoter_with_bytecode bytecode = \<lparr> qr_bytecode = Some bytecode \<rparr>"

definition quoter_set_bytecode :: "u8 list \<Rightarrow> revm_quoter \<Rightarrow> revm_quoter" where
  "quoter_set_bytecode bytecode q = q\<lparr>qr_bytecode := Some bytecode\<rparr>"

text \<open>\<open>Err("Quoter bytecode not set")\<close> is \<open>Inl\<close>.\<close>

definition deploy_into :: "revm \<Rightarrow> revm_quoter \<Rightarrow> block_state_db \<Rightarrow> string + block_state_db" where
  "deploy_into rv q db =
    (case qr_bytecode q of
       None \<Rightarrow> Inl ''Quoter bytecode not set''
     | Some bytecode \<Rightarrow>
         Inr (inject_account CALLER_ADDRESS
                \<lparr> ai_balance = 1000000000000000000000, ai_nonce = 0, ai_code_hash = rv_keccak_empty rv, ai_code = None \<rparr>
                (inject_account QUOTER_ADDRESS
                   \<lparr> ai_balance = 0, ai_nonce = 1, ai_code_hash = rv_keccak rv bytecode, ai_code = Some bytecode \<rparr> db)))"

definition quote_with_db ::
    "revm \<Rightarrow> revm_quoter \<Rightarrow> swap_path \<Rightarrow> u256 \<Rightarrow> sim_db \<Rightarrow> u256 option \<times> sim_db" where
  "quote_with_db rv q path amount_in db =
    (if qr_bytecode q = None then (None, db)
     else
       let calldata = rv_encode_get_amount_out rv (to_quoter_params path amount_in);
           (result, db) = rv_transact rv db CALLER_ADDRESS QUOTER_ADDRESS calldata
       in (case result of
             Exec_Error \<Rightarrow> None
           | Exec_Success output \<Rightarrow> rv_decode_get_amount_out rv output
           | Exec_Revert \<Rightarrow> None
           | Exec_Halt \<Rightarrow> None, db))"

definition quote_path :: "revm \<Rightarrow> revm_quoter \<Rightarrow> block_state_db \<Rightarrow> swap_path \<Rightarrow> u256 \<Rightarrow> u256 option" where
  "quote_path rv q state_db path amount_in =
    (if qr_bytecode q = None then None
     else fst (quote_with_db rv q path amount_in (sim_snapshot state_db)))"

text \<open>A probe: the output (0 for a failed quote) and the profit (0 for a loss).\<close>

definition probe_profit :: "u256 \<Rightarrow> u256 \<Rightarrow> u256" where
  "probe_profit out amount = (if amount < out then out - amount else 0)"

definition probe ::
    "revm \<Rightarrow> revm_quoter \<Rightarrow> swap_path \<Rightarrow> u256 \<Rightarrow> sim_db \<Rightarrow> u256 \<times> u256 \<times> sim_db" where
  "probe rv q path amount db =
    (let (r, db) = quote_with_db rv q path amount db;
         out = (case r of Some v \<Rightarrow> v | None \<Rightarrow> 0)
     in (out, probe_profit out amount, db))"

record search_best =
  sb_input :: u256
  sb_profit :: u256
  sb_output :: u256

definition improve :: "u256 \<Rightarrow> u256 \<Rightarrow> u256 \<Rightarrow> search_best \<Rightarrow> search_best" where
  "improve amount profit out b =
    (if sb_profit b < profit then \<lparr> sb_input = amount, sb_profit = profit, sb_output = out \<rparr> else b)"

text \<open>
  Phase 1 doubles the amount until the profit falls. \<open>n\<close> counts the probes left of \<open>steps / 2\<close>; the
  result is the best probe, the bracket and the probes left.
\<close>

fun probe_phase ::
    "revm \<Rightarrow> revm_quoter \<Rightarrow> swap_path \<Rightarrow> u256 \<Rightarrow> u256 \<Rightarrow> nat \<Rightarrow> u256 \<Rightarrow> search_best \<times> sim_db \<Rightarrow>
     (search_best \<times> sim_db) \<times> (u256 \<times> u256) \<times> nat" where
  "probe_phase rv q path min_input max_input 0 amount (b, db) = ((b, db), (min_input, max_input), 0)"
| "probe_phase rv q path min_input max_input (Suc n) amount (b, db) =
    (if max_input < amount then ((b, db), (min_input, max_input), Suc n)
     else
       let (out, profit, db) = probe rv q path amount db;
           b' = improve amount profit out b
       in if \<not> sb_profit b < profit \<and> profit < sb_profit b \<and> 0 < sb_profit b
          then ((b, db), (if min_input * 2 < amount then amount div 4 else min_input, amount), n)
          else if max_input \<le> amount then ((b', db), (min_input, max_input), n)
          else probe_phase rv q path min_input max_input n (min (amount * 2) max_input) (b', db))"

text \<open>Phase 2 is a ternary search in the bracket; \<open>n\<close> is the number of steps left.\<close>

fun refine_phase ::
    "revm \<Rightarrow> revm_quoter \<Rightarrow> swap_path \<Rightarrow> nat \<Rightarrow> u256 \<Rightarrow> u256 \<Rightarrow> search_best \<times> sim_db \<Rightarrow> search_best \<times> sim_db"
where
  "refine_phase rv q path 0 lo hi st = st"
| "refine_phase rv q path (Suc n) lo hi (b, db) =
    (if hi \<le> lo + 1000 then (b, db)
     else
       let mid1 = lo + (hi - lo) div 3;
           mid2 = hi - (hi - lo) div 3;
           (out1, profit1, db) = probe rv q path mid1 db;
           (out2, profit2, db) = probe rv q path mid2 db;
           (lo, hi) = (if profit2 < profit1 then (lo, mid2) else (mid1, hi));
           b = improve mid2 profit2 out2 (improve mid1 profit1 out1 b)
       in refine_phase rv q path n lo hi (b, db))"

definition optimize_input_with_db ::
    "revm \<Rightarrow> revm_quoter \<Rightarrow> swap_path \<Rightarrow> u256 \<Rightarrow> u256 \<Rightarrow> nat \<Rightarrow> sim_db \<Rightarrow> (u256 \<times> u256) \<times> sim_db" where
  "optimize_input_with_db rv q path min_input max_input steps db =
    (let max_probes = steps div 2;
         ((b, db), (bracket_lo, bracket_hi), probes_left) =
           probe_phase rv q path min_input max_input max_probes min_input
             (\<lparr> sb_input = min_input, sb_profit = 0, sb_output = 0 \<rparr>, db)
     in if sb_profit b = 0 then ((min_input, 0), db)
        else
          let probes_used = max_probes - probes_left;
              (b, db) = refine_phase rv q path (steps - probes_used * 2) bracket_lo (min bracket_hi max_input) (b, db)
          in ((sb_input b, sb_output b), db))"

definition optimize_input ::
    "revm \<Rightarrow> revm_quoter \<Rightarrow> block_state_db \<Rightarrow> swap_path \<Rightarrow> u256 \<Rightarrow> u256 \<Rightarrow> nat \<Rightarrow> u256 \<times> u256" where
  "optimize_input rv q state_db path min_input max_input steps =
    fst (optimize_input_with_db rv q path min_input max_input steps (sim_snapshot state_db))"

section \<open>What the optimizer finds\<close>

text \<open>
  REVM is deterministic, and \<open>SimDb\<close> answers a slot once read always the same (StateDb and SimDbs
  prove that of the databases). So on the databases the search passes through, which \<open>P\<close> describes, a
  quote is a function of the amount.
\<close>

definition stable_quotes ::
    "revm \<Rightarrow> revm_quoter \<Rightarrow> swap_path \<Rightarrow> (sim_db \<Rightarrow> bool) \<Rightarrow> (u256 \<Rightarrow> u256 option) \<Rightarrow> bool" where
  "stable_quotes rv q path P f \<longleftrightarrow>
     (\<forall>amount db. P db \<longrightarrow>
        fst (quote_with_db rv q path amount db) = f amount \<and> P (snd (quote_with_db rv q path amount db)))"

definition profit_at :: "(u256 \<Rightarrow> u256 option) \<Rightarrow> u256 \<Rightarrow> u256" where
  "profit_at f amount = probe_profit (case f amount of Some v \<Rightarrow> v | None \<Rightarrow> 0) amount"

text \<open>A best probe is untouched, or a profitable quote between the bounds.\<close>

definition best_ok :: "(u256 \<Rightarrow> u256 option) \<Rightarrow> u256 \<Rightarrow> u256 \<Rightarrow> search_best \<Rightarrow> bool" where
  "best_ok f lo hi b \<longleftrightarrow>
     (sb_profit b = 0 \<or>
      f (sb_input b) = Some (sb_output b) \<and> lo \<le> sb_input b \<and> sb_input b \<le> hi \<and>
      sb_input b < sb_output b \<and> sb_profit b = sb_output b - sb_input b)"

lemma probe_stable:
  assumes "stable_quotes rv q path P f" "P db" "probe rv q path amount db = (out, profit, db')"
  shows "out = (case f amount of Some v \<Rightarrow> v | None \<Rightarrow> 0)" "profit = profit_at f amount" "P db'"
proof -
  have "fst (quote_with_db rv q path amount db) = f amount" "P (snd (quote_with_db rv q path amount db))"
    using assms(1,2) by (simp_all add: stable_quotes_def)
  then show "out = (case f amount of Some v \<Rightarrow> v | None \<Rightarrow> 0)" "profit = profit_at f amount" "P db'"
    using assms(3) by (auto simp: probe_def profit_at_def Let_def split: prod.splits)
qed

lemma improve_ok:
  assumes "best_ok f lo hi b" "lo \<le> amount" "amount \<le> hi"
  shows "best_ok f lo hi (improve amount (profit_at f amount) (case f amount of Some v \<Rightarrow> v | None \<Rightarrow> 0) b)"
  using assms
  by (cases "f amount") (auto simp: best_ok_def improve_def profit_at_def probe_profit_def split: if_splits)

lemma improve_ge: "sb_profit b \<le> sb_profit (improve amount profit out b)" "profit \<le> sb_profit (improve amount profit out b)"
  by (auto simp: improve_def)

text \<open>
  Phase 1: the amounts are \<open>lo\<close>, twice \<open>lo\<close> or at least four times \<open>lo\<close>, so that a quarter of an
  amount above twice \<open>lo\<close> is not below \<open>lo\<close>.
\<close>

definition doubled :: "u256 \<Rightarrow> u256 \<Rightarrow> bool" where
  "doubled lo amount \<longleftrightarrow> unat amount = unat lo \<or> unat amount = 2 * unat lo \<or> 4 * unat lo \<le> unat amount"

lemma doubled_quarter:
  assumes "doubled lo amount" "lo * 2 < amount" "unat lo * 2 < 2 ^ 256"
  shows "lo \<le> amount div 4" "amount div 4 \<le> amount"
proof -
  have "unat (lo * 2) = unat lo * 2" using assms(3) by (simp add: unat_mult_exact)
  then have "4 * unat lo \<le> unat amount" using assms(1,2) by (auto simp: doubled_def word_less_nat_alt)
  then show "lo \<le> amount div 4" "amount div 4 \<le> amount" by (simp_all add: word_le_nat_alt unat_div_distrib)
qed

lemma doubled_next:
  assumes "doubled lo amount" "4 * unat lo \<le> unat hi" "unat hi < 2 ^ 255" "amount < hi"
  shows "doubled lo (min (amount * 2) hi)" "min (amount * 2) hi \<le> hi" "lo \<le> amount \<Longrightarrow> lo \<le> min (amount * 2) hi"
proof -
  have "unat (amount * 2) = unat amount * 2" using assms(3,4) by (simp add: unat_mult_exact word_less_nat_alt)
  then have u: "unat (min (amount * 2) hi) = min (unat amount * 2) (unat hi)"
    by (simp add: min_def word_le_nat_alt)
  show "doubled lo (min (amount * 2) hi)" unfolding doubled_def u using assms(1,2) by (auto simp: doubled_def)
  show "min (amount * 2) hi \<le> hi" by simp
  show "lo \<le> min (amount * 2) hi" if "lo \<le> amount"
    using that assms(4) unfolding word_le_nat_alt u word_less_nat_alt by simp
qed

lemma probe_phase_ok:
  assumes "stable_quotes rv q path P f" "4 * unat lo \<le> unat hi" "unat hi < 2 ^ 255"
    and "P db" "best_ok f lo hi b" "doubled lo amount" "lo \<le> amount" "amount \<le> hi"
    and "probe_phase rv q path lo hi n amount (b, db) = ((b', db'), (blo, bhi), left)"
  shows "best_ok f lo hi b' \<and> P db' \<and> sb_profit b \<le> sb_profit b' \<and> lo \<le> blo \<and> blo \<le> bhi \<and> bhi \<le> hi \<and>
         (0 < n \<longrightarrow> profit_at f amount \<le> sb_profit b')"
  using assms(4-)
proof (induction n arbitrary: amount b db)
  case 0
  then show ?case by auto
next
  case (Suc n)
  have lo2: "unat lo * 2 < 2 ^ 256" using assms(2,3) by simp
  obtain out profit db1 where p: "probe rv q path amount db = (out, profit, db1)" by (metis prod_cases3)
  note st = probe_stable [OF assms(1) Suc.prems(1) p]
  let ?b = "improve amount profit out b"
  have ok: "best_ok f lo hi ?b" using improve_ok [OF Suc.prems(2,4,5)] st(1,2) by simp
  have le: "\<not> hi < amount" using Suc.prems(5) by simp
  let ?fall = "\<not> sb_profit b < profit \<and> profit < sb_profit b \<and> 0 < sb_profit b"
  consider (fall) "?fall" | (full) "\<not> ?fall" "hi \<le> amount" | (go) "\<not> ?fall" "\<not> hi \<le> amount" by blast
  then show ?case
  proof cases
    case fall
    have "lo \<le> (if lo * 2 < amount then amount div 4 else lo)"
      "(if lo * 2 < amount then amount div 4 else lo) \<le> amount"
      using doubled_quarter [OF Suc.prems(3) _ lo2] Suc.prems(4) by simp_all
    moreover have "profit_at f amount \<le> sb_profit b" using fall st(2) by (simp add: not_less)
    moreover have "b' = b" "db' = db1" "blo = (if lo * 2 < amount then amount div 4 else lo)" "bhi = amount"
      using Suc.prems(6) p le fall by auto
    ultimately show ?thesis using Suc.prems(2,5) st(3) by simp
  next
    case full
    have "b' = ?b" "db' = db1" "blo = lo" "bhi = hi" using Suc.prems(6) p le full by simp_all
    then show ?thesis using st(2,3) ok improve_ge order_trans [OF Suc.prems(4,5)] by simp
  next
    case go
    have "probe_phase rv q path lo hi n (min (amount * 2) hi) (?b, db1) = ((b', db'), (blo, bhi), left)"
      using Suc.prems(6) p le go by simp
    note ih = Suc.IH [OF st(3) ok _ _ _ this]
    have lt: "amount < hi" using go(2) by simp
    note nx = doubled_next [OF Suc.prems(3) assms(2,3) lt]
    have "profit_at f amount \<le> sb_profit ?b" unfolding st(2) by (rule improve_ge(2))
    then show ?thesis
      using ih [OF nx(1) nx(3) [OF Suc.prems(4)] nx(2)] order_trans [OF improve_ge(1)] order_trans by blast
  qed
qed

text \<open>Phase 2 stays in the bracket.\<close>

lemma thirds_in_bracket:
  assumes "lo \<le> hi" "unat hi < 2 ^ 255"
  shows "lo \<le> lo + (hi - lo) div 3" "lo + (hi - lo) div 3 \<le> hi"
    and "lo \<le> hi - (hi - lo) div 3" "hi - (hi - lo) div 3 \<le> (hi :: u256)"
proof -
  have d: "unat ((hi - lo) div 3) = (unat hi - unat lo) div 3"
    using assms(1) by (simp add: unat_div_distrib unat_sub_exact word_le_nat_alt)
  have le: "unat lo \<le> unat hi" using assms(1) by (simp add: word_le_nat_alt)
  have sum: "unat (lo + (hi - lo) div 3) = unat lo + (unat hi - unat lo) div 3"
    using le assms(2) d by (simp add: unat_add_exact)
  have "(hi - lo) div 3 \<le> hi" using le unfolding word_le_nat_alt d by simp
  then have diff: "unat (hi - (hi - lo) div 3) = unat hi - (unat hi - unat lo) div 3"
    using d by (simp add: unat_sub_exact word_le_nat_alt)
  show "lo \<le> lo + (hi - lo) div 3" "lo + (hi - lo) div 3 \<le> hi"
    using le unfolding word_le_nat_alt sum by simp_all
  show "lo \<le> hi - (hi - lo) div 3" "hi - (hi - lo) div 3 \<le> hi"
    using le unfolding word_le_nat_alt diff by simp_all
qed

lemma refine_phase_ok:
  assumes "stable_quotes rv q path P f" "unat max_in < 2 ^ 255"
    and "P db" "best_ok f min_in max_in b" "min_in \<le> lo" "lo \<le> hi" "hi \<le> max_in"
    and "refine_phase rv q path n lo hi (b, db) = (b', db')"
  shows "best_ok f min_in max_in b' \<and> P db' \<and> sb_profit b \<le> sb_profit b'"
  using assms(3-)
proof (induction n arbitrary: lo hi b db)
  case (Suc n)
  let ?mid1 = "lo + (hi - lo) div 3" and ?mid2 = "hi - (hi - lo) div 3"
  have hi: "unat hi < 2 ^ 255" using Suc.prems(5) assms(2) by (simp add: word_le_nat_alt)
  note mids = thirds_in_bracket [OF Suc.prems(4) hi]
  show ?case
  proof (cases "hi \<le> lo + 1000")
    case True
    then show ?thesis using Suc.prems by simp
  next
    case False
    obtain out1 profit1 db1 where p1: "probe rv q path ?mid1 db = (out1, profit1, db1)" by (metis prod_cases3)
    note s1 = probe_stable [OF assms(1) Suc.prems(1) p1]
    obtain out2 profit2 db2 where p2: "probe rv q path ?mid2 db1 = (out2, profit2, db2)" by (metis prod_cases3)
    note s2 = probe_stable [OF assms(1) s1(3) p2]
    let ?b1 = "improve ?mid1 profit1 out1 b"
    let ?b2 = "improve ?mid2 profit2 out2 ?b1"
    have in1: "min_in \<le> ?mid1" "?mid1 \<le> max_in" 
      by (rule order_trans [OF Suc.prems(3) mids(1)], rule order_trans [OF mids(2) Suc.prems(5)])
    have in2: "min_in \<le> ?mid2" "?mid2 \<le> max_in" 
      by (rule order_trans [OF Suc.prems(3) mids(3)], rule order_trans [OF mids(4) Suc.prems(5)])
    have ok1: "best_ok f min_in max_in ?b1" unfolding s1(1,2) by (rule improve_ok [OF Suc.prems(2) in1])
    have ok: "best_ok f min_in max_in ?b2" unfolding s2(1,2) by (rule improve_ok [OF ok1 in2])
    have mono: "sb_profit b \<le> sb_profit ?b2" by (rule order_trans [OF improve_ge(1) improve_ge(1)])
    have "refine_phase rv q path n (if profit2 < profit1 then lo else ?mid1) (if profit2 < profit1 then ?mid2 else hi)
            (?b2, db2) = (b', db')"
      using Suc.prems(6) False p1 p2 by (auto simp: Let_def split: if_splits)
    moreover have "min_in \<le> (if profit2 < profit1 then lo else ?mid1)"
      "(if profit2 < profit1 then lo else ?mid1) \<le> (if profit2 < profit1 then ?mid2 else hi)"
      "(if profit2 < profit1 then ?mid2 else hi) \<le> max_in"
      using mids(2,3) Suc.prems(3,5) in1(1) in2(2) by simp_all
    ultimately have "best_ok f min_in max_in b' \<and> P db' \<and> sb_profit ?b2 \<le> sb_profit b'"
      using Suc.IH [OF s2(3) ok] by blast
    then show ?thesis using order_trans [OF mono] by blast
  qed
qed simp

text \<open>
  C10. The input optimizer is sound. For bounds with \<open>4 * min_input \<le> max_input < 2 ^ 255\<close> and quotes that
  are a function of the amount it returns either no output, and then the smallest input is no profit, or
  an input between the bounds whose quote is the returned output, with a profit at least that of the
  smallest input.
\<close>

theorem optimizer_sound:
  assumes "stable_quotes rv q path P f" "P db" "2 \<le> steps"
    and "4 * unat min_input \<le> unat max_input" "unat max_input < 2 ^ 255"
  shows "\<exists>input output db'.
    optimize_input_with_db rv q path min_input max_input steps db = ((input, output), db') \<and> P db' \<and>
    (output = 0 \<and> input = min_input \<and> profit_at f min_input = 0 \<or>
     f input = Some output \<and> min_input \<le> input \<and> input \<le> max_input \<and> input < output \<and>
     profit_at f min_input \<le> output - input)"
proof -
  let ?b0 = "\<lparr> sb_input = min_input, sb_profit = 0, sb_output = 0 \<rparr>"
  obtain b db1 blo bhi left where
    p: "probe_phase rv q path min_input max_input (steps div 2) min_input (?b0, db) = ((b, db1), (blo, bhi), left)"
    by (metis prod.collapse)
  have lo: "min_input \<le> max_input" using assms(4) by (simp add: word_le_nat_alt)
  have one: "best_ok f min_input max_input b \<and> P db1 \<and> min_input \<le> blo \<and> blo \<le> bhi \<and> bhi \<le> max_input \<and>
             profit_at f min_input \<le> sb_profit b"
    using probe_phase_ok [OF assms(1,4,5,2) _ _ _ lo p] assms(3) by (simp add: best_ok_def doubled_def)
  show ?thesis
  proof (cases "sb_profit b = 0")
    case True
    then show ?thesis using p one by (simp add: optimize_input_with_db_def)
  next
    case False
    let ?n = "steps - (steps div 2 - left) * 2"
    obtain b' db' where r: "refine_phase rv q path ?n blo (min bhi max_input) (b, db1) = (b', db')"
      by (metis prod.collapse)
    have "min bhi max_input = bhi" using one by (simp add: min_def)
    then have two: "best_ok f min_input max_input b' \<and> P db' \<and> sb_profit b \<le> sb_profit b'"
      using refine_phase_ok [OF assms(1,5), of db1 min_input b blo bhi ?n b' db'] one r by simp
    then have "sb_profit b' \<noteq> 0" using False by auto
    then have "f (sb_input b') = Some (sb_output b')" "min_input \<le> sb_input b'" "sb_input b' \<le> max_input"
      "sb_input b' < sb_output b'" "sb_profit b' = sb_output b' - sb_input b'"
      using two by (auto simp: best_ok_def)
    moreover have "profit_at f min_input \<le> sb_profit b'" using one two order_trans by blast
    ultimately show ?thesis using p r two False by (simp add: optimize_input_with_db_def Let_def)
  qed
qed

text \<open>A quoter contract that returns three halves of its input.\<close>

definition sample_revm :: revm where
  "sample_revm = \<lparr> rv_transact = (\<lambda>db _ _ data. (Exec_Success data, db)),
                   rv_encode_get_amount_out = (\<lambda>p. be_bytes 32 (sp_amount_in p)),
                   rv_decode_get_amount_out = (\<lambda>bs. let x = from_be_bytes bs in Some (x + x div 2)),
                   rv_keccak = from_be_bytes, rv_keccak_empty = 0 \<rparr>"

lemma sample_quotes:
  "stable_quotes sample_revm (quoter_with_bytecode [1]) path (\<lambda>_. True) (\<lambda>x. Some (x + x div 2))"
  by (simp add: stable_quotes_def quote_with_db_def sample_revm_def quoter_with_bytecode_def to_quoter_params_def
      from_be_bytes_be_bytes Let_def)

theorem optimizer_sound_witness:
  "\<exists>input output db'.
    optimize_input_with_db sample_revm (quoter_with_bytecode [1]) \<lparr> path_steps = [], path_hash = 0 \<rparr>
      100 1000000 20 Map.empty = ((input, output), db') \<and> input \<le> 1000000 \<and> 50 \<le> output - input"
proof -
  let ?f = "\<lambda>x. Some (x + x div 2) :: u256 option"
  have p: "profit_at ?f 100 = 50" by (simp add: profit_at_def probe_profit_def)
  show ?thesis
    using optimizer_sound [OF sample_quotes, where db = Map.empty and steps = 20 and min_input = 100
      and max_input = 1000000 and path = "\<lparr> path_steps = [], path_hash = 0 \<rparr>"] p
    by fastforce
qed

end
