(* ===== verification/Simulator.thy ===== *)
theory Simulator
  imports Quoter CalcV3 GasStation PipelineEvents "HOL-Library.Sublist"
begin

text \<open>
  \<open>src/simulator_pipeline.rs\<close>: the simulator worker. It filters the paths the searcher sends (stale,
  blacklisted), quotes and optimizes them on a snapshot of the shared database, deducts the flash loan
  fee and the gas, and passes on what is left of the profit. In SIM mode it compares the quote of a path
  with the pool formulas instead. The chain head query and the arrival of paths are parameters of a
  step; the summary logged at block boundaries is left out, but not its counters.
\<close>

section \<open>State\<close>

record simulator_config =
  sc_min_profit_wei :: u256
  sc_optimization_steps :: nat
  sc_min_input :: u256
  sc_max_input :: u256
  sc_profit_share_bps :: u64
  sc_flash_loan_fee_bps :: u64
  sc_max_stale_blocks :: u64

definition simulator_config_default :: simulator_config where
  "simulator_config_default =
    \<lparr> sc_min_profit_wei = 100000000000000, sc_optimization_steps = 20, sc_min_input = 10000000000000000,
      sc_max_input = 50000000000000000000, sc_profit_share_bps = 5000, sc_flash_loan_fee_bps = 0,
      sc_max_stale_blocks = 3 \<rparr>"

record simulator_worker =
  si_config :: simulator_config
  si_quoter :: revm_quoter
  si_gas_station :: gas_station
  si_sim_mode :: bool
  si_native_token :: address
  si_token_price_pools :: "address \<rightharpoonup> address"

section \<open>Profit of one path\<close>

definition v3_spot_price_convert :: "u256 \<Rightarrow> u256 \<Rightarrow> bool \<Rightarrow> u256 option" where
  "v3_spot_price_convert profit sqrt_price_x96 start_is_token0 =
    (if sqrt_price_x96 = 0 \<or> profit = 0 then Some 0
     else if start_is_token0 then do {
       p \<leftarrow> checked_mul profit sqrt_price_x96;
       let step1 = shr p 96;
       p \<leftarrow> checked_mul step1 sqrt_price_x96;
       Some (shr p 96)
     }
     else do {
       let q96 = shl 1 96;
       p \<leftarrow> checked_mul profit q96;
       let step1 = p div sqrt_price_x96;
       p \<leftarrow> checked_mul step1 q96;
       Some (p div sqrt_price_x96)
     })"

definition flash_fee_of :: "simulator_config \<Rightarrow> u256 \<Rightarrow> u256" where
  "flash_fee_of c best_input =
    (if 0 < sc_flash_loan_fee_bps c
     then best_input * ucast (sc_flash_loan_fee_bps c) div 10000 else 0)"

text \<open>The profit in units of the native token; \<open>None\<close> drops the path.\<close>

definition profit_native ::
    "simulator_worker \<Rightarrow> block_state_db \<Rightarrow> swap_path \<Rightarrow> u256 \<Rightarrow> u256 option" where
  "profit_native w db path profit_after_fee =
    (let start_token = (case path_steps path of [] \<Rightarrow> si_native_token w | s # _ \<Rightarrow> st_token_in s)
     in if start_token = si_native_token w then Some profit_after_fee
        else case si_token_price_pools w start_token of
          None \<Rightarrow> Some profit_after_fee
        | Some price_pool \<Rightarrow>
            (case read_v2_reserves db price_pool of
               Some (r0, r1) \<Rightarrow>
                 (let (r_token, r_native) = (if start_token < si_native_token w then (r0, r1) else (r1, r0))
                  in if r_token = 0 then None else Some (profit_after_fee * r_native div r_token))
             | None \<Rightarrow>
                 (case read_v3_slot0 db price_pool of
                    Some (sqrt_price_x96, _) \<Rightarrow>
                      v3_spot_price_convert profit_after_fee sqrt_price_x96 (start_token < si_native_token w)
                  | None \<Rightarrow> Some profit_after_fee)))"

text \<open>What is left of a quoted pair of amounts, and the path that is passed on.\<close>

definition settle ::
    "simulator_worker \<Rightarrow> block_state_db \<Rightarrow> arb_path \<Rightarrow> u256 \<Rightarrow> u256 \<Rightarrow> valid_path option run" where
  "settle w db arb best_input best_output =
    (if best_output \<le> best_input then Some None
     else
       let gross_profit = best_output - best_input;
           flash_fee = flash_fee_of (si_config w) best_input
       in if \<not> flash_fee < gross_profit then Some None
          else case profit_native w db (ap_path arb) (gross_profit - flash_fee) of
            None \<Rightarrow> Some None
          | Some profit \<Rightarrow> do {
              gas_cost \<leftarrow> estimate_gas_cost_wei (si_gas_station w) (ap_gas_estimate arb);
              let gas_cost_wei = ucast gas_cost;
              Some (if profit \<le> gas_cost_wei then None
                    else let net_profit = profit - gas_cost_wei
                         in if net_profit < sc_min_profit_wei (si_config w) then None
                            else Some \<lparr> vp_arb = arb, vp_amount_in = best_input, vp_amount_out = best_output,
                                        vp_gas_cost = gas_cost_wei, vp_net_profit = net_profit \<rparr>)
            })"

text \<open>
  The probe at the smallest input comes first; a path that fails it returns before the write-back. The
  result is the valid path and the shared database.
\<close>

definition simulate_and_optimize ::
    "revm \<Rightarrow> simulator_worker \<Rightarrow> arb_path \<Rightarrow> block_state_db \<Rightarrow> (valid_path option \<times> block_state_db) run" where
  "simulate_and_optimize rv w arb db =
    (let c = si_config w;
         sim_db = sim_snapshot db;
         (probe_output, sim_db) = quote_with_db rv (si_quoter w) (ap_path arb) (sc_min_input c) sim_db
     in case probe_output of
          None \<Rightarrow> Some (None, db)
        | Some out \<Rightarrow>
            if out \<le> sc_min_input c then Some (None, db)
            else
              let ((best_input, best_output), sim_db) =
                    optimize_input_with_db rv (si_quoter w) (ap_path arb) (sc_min_input c) (sc_max_input c)
                      (sc_optimization_steps c) sim_db;
                  db = sim_write_back sim_db db
              in do {
                r \<leftarrow> settle w db arb best_input best_output;
                Some (r, db)
              })"

definition estimate_initial_input :: "simulator_config \<Rightarrow> u256" where
  "estimate_initial_input c =
    (let base = 1000000000000000000
     in if base < sc_min_input c then sc_min_input c
        else if sc_max_input c < base then sc_max_input c
        else base)"

section \<open>SIM mode\<close>

text \<open>
  What the verification of a path logs: that the quote equals the expected output, or both and the
  outputs of the pool formulas step by step, or that there is no quote.
\<close>

datatype sim_verdict = Sim_Match | Sim_Mismatch u256 u256 "u256 list" | Sim_No_Quote

definition verify_step ::
    "v3_math \<Rightarrow> (u8 list \<Rightarrow> u256) \<Rightarrow> block_state_db \<Rightarrow> u256 \<Rightarrow> swap_step \<Rightarrow> u256 run" where
  "verify_step vm keccak db current s =
    (let zero_for_one = st_token_in s < st_token_out s
     in if is_v3 (st_protocol s)
        then map_option (\<lambda>r. case r of Some out \<Rightarrow> out | None \<Rightarrow> 0)
               (get_amount_out_v3 vm keccak db (st_pool_address s) current zero_for_one (st_fee s) 1)
        else Some (case read_v2_reserves db (st_pool_address s) of
                     None \<Rightarrow> 0
                   | Some (r0, r1) \<Rightarrow>
                       (let (ri, ro) = if zero_for_one then (r0, r1) else (r1, r0)
                        in get_amount_out_v2 current ri ro (v2_fee_factor (st_protocol s)))))"

fun verify_steps ::
    "v3_math \<Rightarrow> (u8 list \<Rightarrow> u256) \<Rightarrow> block_state_db \<Rightarrow> u256 \<Rightarrow> swap_step list \<Rightarrow> u256 list run" where
  "verify_steps vm keccak db current [] = Some []"
| "verify_steps vm keccak db current (s # ss) =
    do {
      step_out \<leftarrow> verify_step vm keccak db current s;
      outs \<leftarrow> verify_steps vm keccak db step_out ss;
      Some (step_out # outs)
    }"

definition run_sim_verification ::
    "revm \<Rightarrow> v3_math \<Rightarrow> simulator_worker \<Rightarrow> block_state_db \<Rightarrow> arb_path \<Rightarrow> sim_verdict run" where
  "run_sim_verification rv vm w db arb =
    (let estimated_input = estimate_initial_input (si_config w);
         expected_out = ap_expected_profit arb + estimated_input
     in case quote_path rv (si_quoter w) db (ap_path arb) estimated_input of
          None \<Rightarrow> Some Sim_No_Quote
        | Some quoted_out \<Rightarrow>
            if quoted_out = expected_out then Some Sim_Match
            else map_option (Sim_Mismatch expected_out quoted_out)
                   (verify_steps vm (rv_keccak rv) db estimated_input (path_steps (ap_path arb))))"

section \<open>The loop\<close>

record simulator_loop =
  so_current_block :: u64
  so_block_total :: u64
  so_block_profitable :: u64
  so_block_unprofitable :: u64
  so_block_skipped :: u64
  so_block_stale :: u64
  so_cached_head :: u64

text \<open>
  The state shared with the other workers: the highest block seen, the blacklists and the database.
\<close>

record simulator_shared =
  sh_latest_block :: u64
  sh_blacklisted_paths :: "u64 set"
  sh_blacklisted_tokens :: "address set"
  sh_state_db :: block_state_db

definition simulator_start :: "u64 option \<Rightarrow> simulator_loop" where
  "simulator_start head =
    \<lparr> so_current_block = 0, so_block_total = 0, so_block_profitable = 0, so_block_unprofitable = 0,
      so_block_skipped = 0, so_block_stale = 0,
      so_cached_head = (case head of None \<Rightarrow> 0 | Some h \<Rightarrow> h) \<rparr>"

text \<open>
  At a block boundary the counters restart and the chain head may be refreshed: \<open>refresh\<close> is \<open>None\<close>
  within a second of the last check, else the answer of the node.
\<close>

definition enter_block :: "u64 option option \<Rightarrow> u64 \<Rightarrow> simulator_loop \<Rightarrow> simulator_loop" where
  "enter_block refresh block_number lo =
    (if block_number = so_current_block lo then lo
     else
       \<lparr> so_current_block = block_number, so_block_total = 0, so_block_profitable = 0,
         so_block_unprofitable = 0, so_block_skipped = 0, so_block_stale = 0,
         so_cached_head = (case refresh of Some (Some head) \<Rightarrow> head | _ \<Rightarrow> so_cached_head lo) \<rparr>)"

definition is_stale :: "simulator_worker \<Rightarrow> simulator_loop \<Rightarrow> u64 \<Rightarrow> u64 \<Rightarrow> bool" where
  "is_stale w lo latest block_number \<longleftrightarrow>
     0 < so_cached_head lo \<and> block_number + sc_max_stale_blocks (si_config w) < so_cached_head lo \<or>
     block_number + sc_max_stale_blocks (si_config w) < latest"

definition is_blacklisted :: "simulator_shared \<Rightarrow> swap_path \<Rightarrow> bool" where
  "is_blacklisted sh p \<longleftrightarrow>
     path_hash p \<in> sh_blacklisted_paths sh \<or>
     list_ex (\<lambda>s. st_token_in s \<in> sh_blacklisted_tokens sh \<or> st_token_out s \<in> sh_blacklisted_tokens sh)
       (path_steps p)"

text \<open>One path received: the next state, and the valid path that is sent.\<close>

definition simulator_step ::
    "revm \<Rightarrow> v3_math \<Rightarrow> simulator_worker \<Rightarrow> u64 option option \<Rightarrow> arb_path \<Rightarrow> simulator_loop \<times> simulator_shared \<Rightarrow>
     ((simulator_loop \<times> simulator_shared) \<times> valid_path option) run" where
  "simulator_step rv vm w refresh arb st =
    (let (lo, sh) = st;
         sh = sh\<lparr>sh_latest_block := max (sh_latest_block sh) (ap_block_number arb)\<rparr>;
         lo = enter_block refresh (ap_block_number arb) lo
     in if is_stale w lo (sh_latest_block sh) (ap_block_number arb)
        then Some ((lo\<lparr>so_block_stale := so_block_stale lo + 1\<rparr>, sh), None)
        else if is_blacklisted sh (ap_path arb)
        then Some ((lo\<lparr>so_block_skipped := so_block_skipped lo + 1\<rparr>, sh), None)
        else if si_sim_mode w
        then map_option (\<lambda>_. ((lo, sh), None)) (run_sim_verification rv vm w (sh_state_db sh) arb)
        else do {
          let lo = lo\<lparr>so_block_total := so_block_total lo + 1\<rparr>;
          (r, db) \<leftarrow> simulate_and_optimize rv w arb (sh_state_db sh);
          let sh = sh\<lparr>sh_state_db := db\<rparr>;
          Some (case r of
                  Some v \<Rightarrow> ((lo\<lparr>so_block_profitable := so_block_profitable lo + 1\<rparr>, sh), Some v)
                | None \<Rightarrow> ((lo\<lparr>so_block_unprofitable := so_block_unprofitable lo + 1\<rparr>, sh), None))
        })"

text \<open>A sequence of paths, up to a send that finds the channel closed (\<open>open_until\<close> sends succeed).\<close>

fun simulator_run ::
    "revm \<Rightarrow> v3_math \<Rightarrow> simulator_worker \<Rightarrow> nat \<Rightarrow> (u64 option option \<times> arb_path) list \<Rightarrow>
     simulator_loop \<times> simulator_shared \<Rightarrow> ((simulator_loop \<times> simulator_shared) \<times> valid_path list) run" where
  "simulator_run rv vm w open_until [] st = Some (st, [])"
| "simulator_run rv vm w open_until ((refresh, arb) # arbs) st =
    do {
      (st, r) \<leftarrow> simulator_step rv vm w refresh arb st;
      (case r of
         None \<Rightarrow> simulator_run rv vm w open_until arbs st
       | Some v \<Rightarrow>
           if open_until = 0 then Some (st, [])
           else do {
             (st, vs) \<leftarrow> simulator_run rv vm w (open_until - 1) arbs st;
             Some (st, v # vs)
           })
    }"

section \<open>Accounting\<close>

definition starts_native :: "simulator_worker \<Rightarrow> swap_path \<Rightarrow> bool" where
  "starts_native w p \<longleftrightarrow> (case path_steps p of [] \<Rightarrow> True | s # _ \<Rightarrow> st_token_in s = si_native_token w)"

lemma profit_native_native: "starts_native w p \<Longrightarrow> profit_native w db p x = Some x"
  by (auto simp: starts_native_def profit_native_def split: list.splits)

lemma unat_flash_fee:
  assumes "unat a * unat (sc_flash_loan_fee_bps c) < 2 ^ 256"
  shows "unat (flash_fee_of c a) = unat a * unat (sc_flash_loan_fee_bps c) div 10000"
proof -
  have "unat (a * ucast (sc_flash_loan_fee_bps c)) = unat a * unat (sc_flash_loan_fee_bps c)"
    using assms by (simp add: unat_mult_exact unat_ucast_up)
  then show ?thesis by (simp add: flash_fee_of_def unat_div_distrib word_neq_0_conv [symmetric] word_zero_iff_unat)
qed

lemma settle_Some:
  assumes "settle w db arb a out = Some (Some v)"
  shows "vp_arb v = arb \<and> vp_amount_in v = a \<and> vp_amount_out v = out \<and> a < out \<and>
         sc_min_profit_wei (si_config w) \<le> vp_net_profit v \<and>
         flash_fee_of (si_config w) a < out - a \<and>
         (\<exists>profit gas. profit_native w db (ap_path arb) (out - a - flash_fee_of (si_config w) a) = Some profit \<and>
            estimate_gas_cost_wei (si_gas_station w) (ap_gas_estimate arb) = Some gas \<and>
            vp_gas_cost v = ucast gas \<and> ucast gas < profit \<and> vp_net_profit v = profit - ucast gas)"
  using assms by (auto simp: settle_def Let_def not_le split: if_splits option.splits bind_splits)

lemma settle_accounting:
  assumes "settle w db arb a out = Some (Some v)" "starts_native w (ap_path arb)"
    and "unat a * unat (sc_flash_loan_fee_bps (si_config w)) < 2 ^ 256"
  shows "unat out = unat a + unat a * unat (sc_flash_loan_fee_bps (si_config w)) div 10000
                    + unat (vp_gas_cost v) + unat (vp_net_profit v)"
proof -
  let ?fee = "flash_fee_of (si_config w) a"
  from settle_Some [OF assms(1)] profit_native_native [OF assms(2)] obtain gas where
    lt: "a < out" "?fee < out - a" and gas: "vp_gas_cost v = ucast (gas :: u64)"
    and net: "ucast gas < out - a - ?fee" "vp_net_profit v = out - a - ?fee - ucast gas" by auto
  have "unat (out - a) = unat out - unat a" using lt(1) by (simp add: unat_sub_exact less_imp_le)
  moreover have "unat (out - a - ?fee) = unat (out - a) - unat ?fee"
    using lt(2) by (simp add: unat_sub_exact less_imp_le)
  moreover have "unat (vp_net_profit v) = unat (out - a - ?fee) - unat (vp_gas_cost v)"
    using net gas by (simp add: unat_sub_exact less_imp_le)
  moreover have "unat a < unat out" "unat ?fee < unat (out - a)" "unat (vp_gas_cost v) < unat (out - a - ?fee)"
    using lt net(1) gas by (simp_all add: word_less_nat_alt)
  ultimately show ?thesis using unat_flash_fee [OF assms(3)] by linarith
qed

text \<open>
  A price conversion that overflows drops a path, whatever it earns (the comment of
  \<open>v3_spot_price_convert\<close> asks the caller to fall back to raw units).
\<close>

lemma conversion_overflow_drops_path:
  assumes "path_steps (ap_path arb) = s # ss" "st_token_in s \<noteq> si_native_token w"
    and "si_token_price_pools w (st_token_in s) = Some pool"
    and "read_v2_reserves db pool = None" "read_v3_slot0 db pool = Some (sqrt_price, tick)"
    and "v3_spot_price_convert (out - a - flash_fee_of (si_config w) a) sqrt_price (st_token_in s < si_native_token w) = None"
  shows "settle w db arb a out = Some None"
  using assms by (simp add: settle_def profit_native_def Let_def)

lemma simulate_and_optimize_cases:
  assumes "simulate_and_optimize rv w arb db = Some (r, db')"
  obtains (skip) "r = None" "db' = db"
    | (quoted) sim a out where "db' = sim_write_back sim db" "settle w db' arb a out = Some r"
  using assms
  by (auto simp: simulate_and_optimize_def Let_def split: prod.splits option.splits if_splits bind_splits)


section \<open>A run of the worker\<close>

lemma simulate_keeps_slots:
  assumes "simulate_and_optimize rv w arb db = Some (r, db')" "slot_of db a s = Some x"
  shows "slot_of db' a s = Some x"
  using assms(1) by (rule simulate_and_optimize_cases) (simp_all add: assms(2) slot_of_write_back)

lemma simulator_step_spec:
  assumes "simulator_step rv vm w refresh arb (lo, sh) = Some ((lo', sh'), r)"
  shows "sh_latest_block sh' = max (sh_latest_block sh) (ap_block_number arb) \<and>
         sh_blacklisted_paths sh' = sh_blacklisted_paths sh \<and> sh_blacklisted_tokens sh' = sh_blacklisted_tokens sh \<and>
         (\<forall>a s x. slot_of (sh_state_db sh) a s = Some x \<longrightarrow> slot_of (sh_state_db sh') a s = Some x) \<and>
         (\<forall>v. r = Some v \<longrightarrow> vp_arb v = arb \<and> \<not> si_sim_mode w \<and> \<not> is_blacklisted sh (ap_path arb) \<and>
            sc_min_profit_wei (si_config w) \<le> vp_net_profit v \<and>
            sh_latest_block sh' \<le> ap_block_number arb + sc_max_stale_blocks (si_config w))"
proof -
  let ?sh = "sh\<lparr>sh_latest_block := max (sh_latest_block sh) (ap_block_number arb)\<rparr>"
  let ?lo = "enter_block refresh (ap_block_number arb) lo"
  have bl: "is_blacklisted ?sh p = is_blacklisted sh p" for p by (simp add: is_blacklisted_def)
  show ?thesis
  proof (cases "is_stale w ?lo (sh_latest_block ?sh) (ap_block_number arb) \<or> is_blacklisted sh (ap_path arb) \<or> si_sim_mode w")
    case True
    then show ?thesis using assms bl by (auto simp: simulator_step_def Let_def split: if_splits)
  next
    case False
    then obtain db where s: "simulate_and_optimize rv w arb (sh_state_db sh) = Some (r, db)"
      and sh': "sh' = ?sh\<lparr>sh_state_db := db\<rparr>"
      using assms bl by (auto simp: simulator_step_def Let_def split: if_splits bind_splits option.splits)
    have "vp_arb v = arb \<and> sc_min_profit_wei (si_config w) \<le> vp_net_profit v" if "r = Some v" for v
      using s
    proof (rule simulate_and_optimize_cases)
      fix sim a out assume "settle w db arb a out = Some r"
      then show ?thesis using settle_Some that by blast
    qed (use that in simp)
    then show ?thesis
      using False sh' simulate_keeps_slots [OF s] by (auto simp: is_stale_def not_less)
  qed
qed

text \<open>
  C15. A run of the simulator over any sequence of paths sends, in order, only paths it received that
  are not blacklisted, not stale for the newest block seen before them, and profitable enough; in SIM mode it
  sends nothing. The newest block only grows and the shared database never loses or changes a slot.
\<close>

theorem simulator_run_safe:
  assumes "simulator_run rv vm w open_until arbs (lo, sh) = Some ((lo', sh'), vs)"
  shows "subseq (map vp_arb vs) (map snd arbs) \<and>
         list_all (\<lambda>v. \<not> si_sim_mode w \<and> \<not> is_blacklisted sh (ap_path (vp_arb v)) \<and>
            sc_min_profit_wei (si_config w) \<le> vp_net_profit v \<and>
            sh_latest_block sh \<le> ap_block_number (vp_arb v) + sc_max_stale_blocks (si_config w)) vs \<and>
         sh_latest_block sh \<le> sh_latest_block sh' \<and>
         (\<forall>a s x. slot_of (sh_state_db sh) a s = Some x \<longrightarrow> slot_of (sh_state_db sh') a s = Some x)"
  using assms
proof (induction arbs arbitrary: open_until lo sh vs)
  case (Cons e arbs)
  obtain refresh arb where e: "e = (refresh, arb)" by (cases e)
  obtain lo1 sh1 r where s: "simulator_step rv vm w refresh arb (lo, sh) = Some ((lo1, sh1), r)"
    using Cons.prems unfolding e by (auto split: bind_splits)
  note one = simulator_step_spec [OF s]
  have bl: "is_blacklisted sh1 = is_blacklisted sh" using one by (simp add: is_blacklisted_def fun_eq_iff)
  have le: "sh_latest_block sh \<le> sh_latest_block sh1" using one by simp
  show ?case
  proof (cases "r = None \<or> open_until \<noteq> 0")
    case False
    then show ?thesis using Cons.prems s one le unfolding e by auto
  next
    case True
    then obtain k vs' where run: "simulator_run rv vm w k arbs (lo1, sh1) = Some ((lo', sh'), vs')"
      and vs: "vs = (case r of None \<Rightarrow> vs' | Some v \<Rightarrow> v # vs')"
      using Cons.prems s unfolding e by (cases r) (auto split: bind_splits)
    note ih = Cons.IH [OF run]
    let ?ok = "\<lambda>sh v. \<not> si_sim_mode w \<and> \<not> is_blacklisted sh (ap_path (vp_arb v)) \<and>
            sc_min_profit_wei (si_config w) \<le> vp_net_profit v \<and>
            sh_latest_block sh \<le> ap_block_number (vp_arb v) + sc_max_stale_blocks (si_config w)"
    have mono: "?ok sh v" if "?ok sh1 v" for v using that le order_trans unfolding bl by blast
    from ih have "list_all (?ok sh1) vs'" by blast
    then have all: "list_all (?ok sh) vs'" by (rule list.pred_mono_strong) (rule mono)
    have le': "sh_latest_block sh \<le> sh_latest_block sh'" using ih le order_trans by blast
    have slots: "\<forall>a s x. slot_of (sh_state_db sh) a s = Some x \<longrightarrow> slot_of (sh_state_db sh') a s = Some x"
      using ih one by blast
    show ?thesis
    proof (cases r)
      case None
      have "subseq (map vp_arb vs') (arb # map snd arbs)" using ih by (blast intro: list_emb_Cons)
      then show ?thesis using None all le' slots vs unfolding e by simp
    next
      case (Some v)
      have "vp_arb v = arb" "?ok sh v" using one le Some order_trans by blast+
      then show ?thesis using all le' slots ih vs Some unfolding e by simp
    qed
  qed
qed simp

section \<open>SIM mode returns\<close>

lemma find_next_unit_spacing: "find_next_initialized_tick keccak db pool tick 1 zfo \<noteq> None"
  by (simp add: find_next_initialized_tick_def compress_tick_def i32_div_def Let_def)

lemma v3_loop_unit_spacing: "v3_loop n vm keccak db pool zfo fee 1 s \<noteq> None"
proof (induction n arbitrary: s)
  case (Suc n)
  obtain found where "find_next_initialized_tick keccak db pool (vs_tick s) 1 zfo = Some found"
    using find_next_unit_spacing by blast
  then show ?case using Suc.IH by (simp split: option.split)
qed simp

lemma v3_quote_unit_spacing: "get_amount_out_v3 vm keccak db pool x zfo fee 1 \<noteq> None"
  using v3_loop_unit_spacing by (simp add: get_amount_out_v3_def split: option.split prod.split)

lemma verify_steps_total: "\<exists>outs. verify_steps vm keccak db x ss = Some outs \<and> length outs = length ss"
proof (induction ss arbitrary: x)
  case (Cons s ss)
  obtain out where "verify_step vm keccak db x s = Some out"
    using v3_quote_unit_spacing by (fastforce simp: verify_step_def Let_def)
  moreover obtain outs where "verify_steps vm keccak db out ss = Some outs" "length outs = length ss"
    using Cons.IH by blast
  ultimately show ?case by simp
qed simp

text \<open>
  Whatever the pools hold, the verification of a path returns, with one output per step when it differs.
\<close>

lemma sim_verification_total:
  "\<exists>r. run_sim_verification rv vm w db arb = Some r \<and>
       (\<forall>expected quoted outs. r = Sim_Mismatch expected quoted outs \<longrightarrow>
          expected \<noteq> quoted \<and> length outs = length (path_steps (ap_path arb)))"
proof -
  obtain outs where "verify_steps vm (rv_keccak rv) db (estimate_initial_input (si_config w)) (path_steps (ap_path arb))
      = Some outs" "length outs = length (path_steps (ap_path arb))"
    using verify_steps_total by blast
  then show ?thesis by (auto simp: run_sim_verification_def Let_def split: option.split)
qed

lemma sim_mode_step:
  assumes "si_sim_mode w"
  shows "\<exists>lo' sh'. simulator_step rv vm w refresh arb (lo, sh) = Some ((lo', sh'), None) \<and> sh_state_db sh' = sh_state_db sh"
  using sim_verification_total [of rv vm w "sh_state_db sh" arb] assms
  by (auto simp: simulator_step_def Let_def)

section \<open>An example\<close>

definition sample_math :: v3_math where
  "sample_math = \<lparr> sqrt_ratio_at_tick = (\<lambda>_. None), tick_at_sqrt_ratio = (\<lambda>_. None),
     compute_swap_step = (\<lambda>_ _ _ _ _. None) \<rparr>"

text \<open>The sample contract returns three halves, the gas station charges one wei per gas.\<close>

definition sample_config :: simulator_config where
  "sample_config = \<lparr> sc_min_profit_wei = 1, sc_optimization_steps = 2, sc_min_input = 1000000,
                     sc_max_input = 8000000, sc_profit_share_bps = 5000, sc_flash_loan_fee_bps = 5,
                     sc_max_stale_blocks = 3 \<rparr>"

definition sample_worker :: simulator_worker where
  "sample_worker = \<lparr> si_config = sample_config, si_quoter = quoter_with_bytecode [1],
                     si_gas_station = \<lparr> gs_base_fee = 1, gs_last_gas_used = 0, gs_last_gas_limit = 0,
                       gs_elasticity_multiplier = 2, gs_base_fee_change_denominator = 8,
                       gs_min_base_fee_wei = 1, gs_priority_fee_cap_wei = 10 \<rparr>,
                     si_sim_mode = False, si_native_token = 1, si_token_price_pools = Map.empty \<rparr>"

definition sample_arb :: arb_path where
  "sample_arb = \<lparr> ap_path = \<lparr> path_steps = [], path_hash = 5 \<rparr>, ap_expected_profit = 0,
                  ap_gas_estimate = 1000, ap_block_number = 7 \<rparr>"

definition sample_valid :: valid_path where
  "sample_valid = \<lparr> vp_arb = sample_arb, vp_amount_in = 1000000, vp_amount_out = 1500000,
                    vp_gas_cost = 1000, vp_net_profit = 498500 \<rparr>"

lemma sample_gas: "estimate_gas_cost_wei (si_gas_station sample_worker) 1000 = Some 1000"
  by (simp add: estimate_gas_cost_wei_def predict_next_base_fee_def calc_next_base_fee_def sample_worker_def
      saturating_mul_def)

lemma sample_quote: "quote_with_db sample_revm (quoter_with_bytecode [1]) p x db = (Some (x + x div 2), db)"
  by (simp add: quote_with_db_def sample_revm_def quoter_with_bytecode_def to_quoter_params_def
      from_be_bytes_be_bytes Let_def)

lemma sample_simulation:
  "simulate_and_optimize sample_revm sample_worker sample_arb db
     = Some (Some sample_valid, sim_write_back (sim_snapshot db) db)"
proof -
  have opt: "optimize_input_with_db sample_revm (quoter_with_bytecode [1]) p 1000000 8000000 2 d
               = ((1000000, 1500000), d)" for p d
    by (simp add: optimize_input_with_db_def probe_def sample_quote probe_profit_def improve_def Let_def)
  have settle: "settle sample_worker db' sample_arb 1000000 1500000 = Some (Some sample_valid)" for db'
    using sample_gas
    by (simp add: settle_def sample_arb_def sample_valid_def flash_fee_of_def profit_native_def sample_worker_def
        sample_config_def)
  have sel: "si_quoter sample_worker = quoter_with_bytecode [1]" "si_config sample_worker = sample_config"
      "sc_min_input sample_config = 1000000" "sc_max_input sample_config = 8000000" "sc_optimization_steps sample_config = 2"
    by (simp_all add: sample_worker_def sample_config_def)
  show ?thesis
    unfolding simulate_and_optimize_def Let_def sel sample_quote by (simp add: opt settle)
qed


definition sample_shared :: simulator_shared where
  "sample_shared = \<lparr> sh_latest_block = 6, sh_blacklisted_paths = {}, sh_blacklisted_tokens = {},
                     sh_state_db = state_db_new 6 \<rparr>"

theorem simulator_run_safe_witness:
  "\<exists>st'. simulator_run sample_revm sample_math sample_worker 5 [(None, sample_arb)] (simulator_start None, sample_shared)
           = Some (st', [sample_valid]) \<and>
         subseq (map vp_arb [sample_valid]) (map snd [(None :: u64 option option, sample_arb)])"
proof -
  have step: "\<exists>st'. simulator_step sample_revm sample_math sample_worker None sample_arb (simulator_start None, sample_shared)
     = Some (st', Some sample_valid)"
    using sample_simulation
    by (simp add: simulator_step_def simulator_start_def sample_shared_def enter_block_def is_stale_def
        is_blacklisted_def sample_arb_def [THEN arg_cong, of ap_block_number] sample_arb_def [THEN arg_cong, of ap_path]
        sample_worker_def [THEN arg_cong, of si_sim_mode] sample_worker_def [THEN arg_cong, of si_config]
        sample_config_def Let_def)
  then obtain lo' sh' where "simulator_run sample_revm sample_math sample_worker 5 [(None, sample_arb)] (simulator_start None, sample_shared)
      = Some ((lo', sh'), [sample_valid])" by auto
  with simulator_run_safe [OF this] show ?thesis by blast
qed

end
