(* ===== verification/TxSender.thy ===== *)
theory TxSender
  imports GasStation PipelineEvents "HOL-Library.Sublist" "HOL-Library.List_Lexorder" "HOL-Library.Char_ord"
begin

text \<open>
  \<open>src/tx_sender_pipeline.rs\<close>: the transaction sender. It drops paths that are unprofitable or stale,
  builds the call of the bot contract for each flash loan provider in turn, checks it with \<open>eth_call\<close>,
  signs and submits it, and turns failed checks into strikes against the path and its tokens. The node
  and the sequencer, the key and signature functions, the ABI and TOML encoders and the texts of their
  errors are parameters. The opportunities log is append-only output and left out.
\<close>

section \<open>State\<close>

record tx_sender_config =
  tc_bot_address :: address
  tc_signer_key :: string
  tc_chain_id :: u64
  tc_max_gas_limit :: u64
  tc_profit_share_bps :: u64
  tc_min_submit_profit_wei :: u256
  tc_max_stale_blocks :: u64
  tc_strike_threshold :: u32
  tc_dry_run :: bool
  tc_flash_loan_provider :: u8

definition tx_sender_config_default :: tx_sender_config where
  "tx_sender_config_default =
    \<lparr> tc_bot_address = 0, tc_signer_key = '''', tc_chain_id = 0, tc_max_gas_limit = 1000000,
      tc_profit_share_bps = 5000, tc_min_submit_profit_wei = 5000000000000, tc_max_stale_blocks = 3,
      tc_strike_threshold = 3, tc_dry_run = True, tc_flash_loan_provider = 255 \<rparr>"

record exec_params =
  ep_params :: swap_params
  ep_flash_loan_provider :: u8

text \<open>The conversions between the parameters of the two contracts; 255 lets the contract choose the provider.\<close>

definition exec_params_from :: "swap_params \<Rightarrow> exec_params" where
  "exec_params_from params = \<lparr> ep_params = params, ep_flash_loan_provider = 255 \<rparr>"

definition quoter_params_from :: "exec_params \<Rightarrow> swap_params" where
  "quoter_params_from params = ep_params params"

lemma conversions_roundtrip:
  "quoter_params_from (exec_params_from q) = q"
  "exec_params_from (quoter_params_from e) = e \<longleftrightarrow> ep_flash_loan_provider e = 255"
  by (cases e; simp add: quoter_params_from_def exec_params_from_def; blast)+

record eip1559_tx =
  tx_to :: address
  tx_nonce :: u64
  tx_gas_limit :: u64
  tx_chain_id :: u64
  tx_max_fee_per_gas :: u128
  tx_max_priority_fee_per_gas :: u128
  tx_input :: "u8 list"

text \<open>A JSON-RPC reply: its error and its result string, if any, and the whole text.\<close>

datatype rpc_reply = Unreachable string | Bad_Json string | Json "string option" "string option" string

text \<open>The outside of the worker; a signer is named by its address.\<close>

record sender_env =
  se_decode_key :: "string \<Rightarrow> string + u8 list"
  se_secret_key :: "u8 list \<Rightarrow> string + address"
  se_sign :: "address \<Rightarrow> eip1559_tx \<Rightarrow> string + u8 list"
  se_encode_execute :: "exec_params \<Rightarrow> u8 list"
  se_eth_call :: "address \<Rightarrow> address \<Rightarrow> u64 \<Rightarrow> u8 list \<Rightarrow> rpc_reply"
  se_send_raw :: "u8 list \<Rightarrow> rpc_reply"
  se_skip_preflight :: bool

text \<open>
  \<open>ts_posted\<close> lists the raw transactions posted to the sequencer, \<open>ts_persisted\<close> the tokens passed to
  \<open>persist_toxic_token_file\<close>.
\<close>

record sender_state =
  ts_nonce :: u64
  ts_cached_head :: u64
  ts_strike_counts :: "u64 \<rightharpoonup> u32"
  ts_token_strike_counts :: "address \<rightharpoonup> u32"
  ts_blacklisted_paths :: "u64 set"
  ts_blacklisted_tokens :: "address set"
  ts_posted :: "u8 list list"
  ts_persisted :: "address list"

record tx_sender =
  tw_config :: tx_sender_config
  tw_gas_station :: gas_station
  tw_start_tokens :: "address set"

section \<open>Errors\<close>

fun str_contains :: "string \<Rightarrow> string \<Rightarrow> bool" where
  "str_contains pat [] \<longleftrightarrow> pat = []"
| "str_contains pat (c # s) \<longleftrightarrow> prefix pat (c # s) \<or> str_contains pat s"

definition PREFLIGHT_REVERTED :: string where
  "PREFLIGHT_REVERTED = ''preflight eth_call reverted''"

definition is_instant_blacklist_error :: "string \<Rightarrow> bool" where
  "is_instant_blacklist_error e \<longleftrightarrow>
     (let has_empty_data = str_contains ''\"data\":\"0x\"'' e;
          has_tf = str_contains ''5446'' e \<and> \<not> str_contains ''repay'' e
      in has_empty_data \<or> has_tf)"

section \<open>Building and sending\<close>

definition encode_calldata_with_provider :: "sender_env \<Rightarrow> valid_path \<Rightarrow> u8 \<Rightarrow> u8 list" where
  "encode_calldata_with_provider env v provider =
    se_encode_execute env
      \<lparr> ep_params = to_quoter_params (ap_path (vp_arb v)) (vp_amount_in v), ep_flash_loan_provider = provider \<rparr>"

definition preflight_eth_call :: "sender_env \<Rightarrow> tx_sender \<Rightarrow> u8 list \<Rightarrow> string + unit" where
  "preflight_eth_call env w calldata =
    (case se_decode_key env (tc_signer_key (tw_config w)) of
       Inl e \<Rightarrow> Inl (''preflight: bad key hex: '' @ e)
     | Inr key_bytes \<Rightarrow>
         (case se_secret_key env key_bytes of
            Inl e \<Rightarrow> Inl (''preflight: bad key: '' @ e)
          | Inr from_addr \<Rightarrow>
              (case se_eth_call env from_addr (tc_bot_address (tw_config w)) (tc_max_gas_limit (tw_config w)) calldata of
                 Unreachable e \<Rightarrow> Inl (''preflight eth_call request failed: '' @ e)
               | Bad_Json e \<Rightarrow> Inl (''preflight eth_call JSON parse failed: '' @ e)
               | Json (Some err) _ _ \<Rightarrow> Inl (''preflight eth_call reverted: '' @ err)
               | Json None (Some result) _ \<Rightarrow>
                   if prefix ''0x08c379a2'' result
                   then Inl (''preflight eth_call reverted (Error selector in result): '' @ result)
                   else Inr ()
               | Json None None text \<Rightarrow> Inl (''preflight eth_call: unexpected response: '' @ text))))"

text \<open>The nonce is taken (\<open>fetch_add\<close>) before the transaction is signed.\<close>

definition build_raw_tx ::
    "sender_env \<Rightarrow> tx_sender \<Rightarrow> u8 list \<Rightarrow> u64 \<Rightarrow> u64 \<Rightarrow> sender_state \<Rightarrow> (string + u8 list) \<times> sender_state" where
  "build_raw_tx env w calldata max_fee_per_gas max_priority_fee st =
    (let c = tw_config w in
     if tc_signer_key c = []
     then (Inl ''No signer key configured'', st)
     else case se_decode_key env (tc_signer_key c) of
       Inl e \<Rightarrow> (Inl (''Invalid signer_key hex: '' @ e), st)
     | Inr key_bytes \<Rightarrow>
         (case se_secret_key env key_bytes of
            Inl e \<Rightarrow> (Inl (''Invalid secret key bytes: '' @ e), st)
          | Inr signer \<Rightarrow>
              (let nonce = ts_nonce st;
                   st = st\<lparr>ts_nonce := nonce + 1\<rparr>;
                   tx = \<lparr> tx_to = tc_bot_address c, tx_nonce = nonce, tx_gas_limit = tc_max_gas_limit c,
                          tx_chain_id = tc_chain_id c, tx_max_fee_per_gas = ucast max_fee_per_gas,
                          tx_max_priority_fee_per_gas = ucast max_priority_fee, tx_input = calldata \<rparr>
               in case se_sign env signer tx of
                    Inl e \<Rightarrow> (Inl (''Transaction signing failed: '' @ e), st)
                  | Inr encoded \<Rightarrow> (Inr encoded, st))))"

definition submit_raw_tx :: "sender_env \<Rightarrow> u8 list \<Rightarrow> sender_state \<Rightarrow> (string + string) \<times> sender_state" where
  "submit_raw_tx env raw_tx st =
    (case se_send_raw env raw_tx of
       Unreachable e \<Rightarrow> Inl (''Sequencer request failed: '' @ e)
     | Bad_Json e \<Rightarrow> Inl (''JSON parse failed: '' @ e)
     | Json _ (Some result) _ \<Rightarrow> Inr result
     | Json err None _ \<Rightarrow>
         Inl (''eth_sendRawTransaction failed: '' @ (case err of None \<Rightarrow> '''' | Some e \<Rightarrow> e)),
     st\<lparr>ts_posted := ts_posted st @ [raw_tx]\<rparr>)"

text \<open>
  The providers in order. The fees are shared by all attempts; \<open>last_err\<close> is only returned for an empty
  list of providers, which does not occur.
\<close>

fun try_providers ::
    "sender_env \<Rightarrow> tx_sender \<Rightarrow> valid_path \<Rightarrow> u64 \<Rightarrow> u64 \<Rightarrow> u8 list \<Rightarrow> string \<Rightarrow> sender_state \<Rightarrow>
     (string + string) \<times> sender_state" where
  "try_providers env w v max_fee prio [] last_err st = (Inl (''preflight eth_call reverted: '' @ last_err), st)"
| "try_providers env w v max_fee prio (provider # providers) last_err st =
    (let calldata = encode_calldata_with_provider env v provider;
         proceed = (case build_raw_tx env w calldata max_fee prio st of
                      (Inl e, st) \<Rightarrow> (Inl e, st)
                    | (Inr tx, st) \<Rightarrow> submit_raw_tx env tx st)
     in if tc_dry_run (tw_config w) then (Inr ''0x_dry_run'', st)
        else if se_skip_preflight env then proceed
        else case preflight_eth_call env w calldata of
          Inr _ \<Rightarrow> proceed
        | Inl e \<Rightarrow>
            if is_instant_blacklist_error e
            then (Inl (''preflight eth_call reverted: INSTANT_BLACKLIST '' @ e), st)
            else if providers \<noteq> [] then try_providers env w v max_fee prio providers e st
            else (Inl (''preflight eth_call reverted: '' @ e), st))"

definition min_effective :: u64 where
  "min_effective = 5000000"

definition fees_for :: "tx_sender \<Rightarrow> valid_path \<Rightarrow> (u64 \<times> u64) run" where
  "fees_for w v =
    do {
      base_fee \<leftarrow> predict_next_base_fee (tw_gas_station w);
      let profit_u64 = (ucast (min (vp_net_profit v) (ucast (- 1 :: u64))) :: u64);
      let priority_fee = calc_priority_fee (tw_gas_station w) profit_u64 (ap_gas_estimate (vp_arb v))
                           (tc_profit_share_bps (tw_config w));
      let priority_fee = (if saturating_add base_fee priority_fee < min_effective
                          then saturating_sub min_effective base_fee else priority_fee);
      Some (saturating_mul (saturating_add base_fee priority_fee) 2, priority_fee)
    }"

definition build_and_send ::
    "sender_env \<Rightarrow> tx_sender \<Rightarrow> valid_path \<Rightarrow> sender_state \<Rightarrow> ((string + string) \<times> sender_state) run" where
  "build_and_send env w v st =
    do {
      (max_fee_per_gas, priority_fee) \<leftarrow> fees_for w v;
      let primary = tc_flash_loan_provider (tw_config w);
      let providers = (if primary \<noteq> 0 then [primary, 0] else [0]);
      Some (try_providers env w v max_fee_per_gas priority_fee providers '''' st)
    }"

section \<open>Strikes\<close>

definition strike :: "bool \<Rightarrow> u32 \<Rightarrow> u32 option \<Rightarrow> u32" where
  "strike instant threshold count =
    (let count = (case count of None \<Rightarrow> 0 | Some c \<Rightarrow> c)
     in if instant then threshold else count + 1)"

definition strike_path :: "tx_sender \<Rightarrow> bool \<Rightarrow> u64 \<Rightarrow> sender_state \<Rightarrow> sender_state" where
  "strike_path w instant ph st =
    (let threshold = tc_strike_threshold (tw_config w);
         count = strike instant threshold (ts_strike_counts st ph);
         st = st\<lparr>ts_strike_counts := (ts_strike_counts st)(ph \<mapsto> count)\<rparr>
     in if threshold \<le> count
        then st\<lparr>ts_blacklisted_paths := insert ph (ts_blacklisted_paths st)\<rparr> else st)"

definition strike_token :: "tx_sender \<Rightarrow> bool \<Rightarrow> address \<Rightarrow> sender_state \<Rightarrow> sender_state" where
  "strike_token w instant tok st =
    (if tok \<in> tw_start_tokens w then st
     else
       let threshold = tc_strike_threshold (tw_config w);
           count = strike instant threshold (ts_token_strike_counts st tok);
           st = st\<lparr>ts_token_strike_counts := (ts_token_strike_counts st)(tok \<mapsto> count)\<rparr>
       in if threshold \<le> count
          then (if tok \<in> ts_blacklisted_tokens st then st
                else st\<lparr>ts_blacklisted_tokens := insert tok (ts_blacklisted_tokens st),
                         ts_persisted := ts_persisted st @ [tok]\<rparr>)
          else st)"

definition step_tokens :: "swap_step list \<Rightarrow> address list" where
  "step_tokens ss = concat (map (\<lambda>s. [st_token_in s, st_token_out s]) ss)"

definition handle_error :: "tx_sender \<Rightarrow> valid_path \<Rightarrow> string \<Rightarrow> sender_state \<Rightarrow> sender_state" where
  "handle_error w v e st =
    (if str_contains PREFLIGHT_REVERTED e
     then
       let is_repay_insufficient = str_contains ''repay insufficient'' e \<or>
                                   str_contains ''726570617920696e73756666696369656e74'' e;
           is_instant_bl = str_contains ''INSTANT_BLACKLIST'' e;
           path = ap_path (vp_arb v)
       in if is_repay_insufficient then st
          else fold (strike_token w is_instant_bl) (step_tokens (path_steps path))
                 (strike_path w is_instant_bl (path_hash path) st)
     else st)"

section \<open>The loop\<close>

text \<open>\<open>refresh\<close> is \<open>None\<close> within a second of the last head check, else the answer of the node.\<close>

definition sender_step ::
    "sender_env \<Rightarrow> tx_sender \<Rightarrow> u64 option option \<Rightarrow> valid_path \<Rightarrow> sender_state \<Rightarrow> sender_state run" where
  "sender_step env w refresh v st =
    (if vp_net_profit v < tc_min_submit_profit_wei (tw_config w) then Some st
     else
       let st = (case refresh of Some (Some head) \<Rightarrow> st\<lparr>ts_cached_head := head\<rparr> | _ \<Rightarrow> st)
       in if 0 < ts_cached_head st \<and>
             ap_block_number (vp_arb v) + tc_max_stale_blocks (tw_config w) < ts_cached_head st
          then Some st
          else do {
            (r, st) \<leftarrow> build_and_send env w v st;
            Some (case r of Inr _ \<Rightarrow> st | Inl e \<Rightarrow> handle_error w v e st)
          })"

fun sender_run ::
    "tx_sender \<Rightarrow> (sender_env \<times> u64 option option \<times> valid_path) list \<Rightarrow> sender_state \<Rightarrow> sender_state run" where
  "sender_run w [] st = Some st"
| "sender_run w ((env, refresh, v) # vs) st =
    do { st \<leftarrow> sender_step env w refresh v st; sender_run w vs st }"

text \<open>The start: the nonce of the signer, 0 when anything fails, and the chain head.\<close>

definition seed_nonce_from_rpc :: "sender_env \<Rightarrow> tx_sender \<Rightarrow> (address \<Rightarrow> u64 option) \<Rightarrow> sender_state \<Rightarrow> sender_state" where
  "seed_nonce_from_rpc env w get_transaction_count st =
    (if tc_signer_key (tw_config w) = [] then st
     else case se_decode_key env (tc_signer_key (tw_config w)) of
       Inl _ \<Rightarrow> st
     | Inr key_bytes \<Rightarrow>
         (case se_secret_key env key_bytes of
            Inl _ \<Rightarrow> st
          | Inr signer \<Rightarrow>
              (case get_transaction_count signer of None \<Rightarrow> st | Some count \<Rightarrow> st\<lparr>ts_nonce := count\<rparr>)))"

definition sender_start ::
    "sender_env \<Rightarrow> tx_sender \<Rightarrow> (address \<Rightarrow> u64 option) \<Rightarrow> u64 option \<Rightarrow> u64 set \<Rightarrow> address set \<Rightarrow> sender_state" where
  "sender_start env w get_transaction_count head blacklisted_paths blacklisted_tokens =
    (seed_nonce_from_rpc env w get_transaction_count
       \<lparr> ts_nonce = 0, ts_cached_head = 0, ts_strike_counts = Map.empty, ts_token_strike_counts = Map.empty,
         ts_blacklisted_paths = blacklisted_paths, ts_blacklisted_tokens = blacklisted_tokens, ts_posted = [],
         ts_persisted = [] \<rparr>)
    \<lparr>ts_cached_head := (case head of None \<Rightarrow> 0 | Some h \<Rightarrow> h)\<rparr>"

section \<open>The file of toxic tokens\<close>

text \<open>
  For a configured path, a parent directory that exists or can be created and a file that can be
  written; otherwise nothing is written and the error is ignored by the caller.
  \<open>toml_addresses\<close> reads the \<open>addresses\<close> array of a TOML text (empty when there is none), \<open>lines\<close> are the
  trimmed lines of the legacy format, \<open>show_address\<close> and \<open>lower\<close> the printed form and ASCII lower case.
\<close>

fun dedup_by :: "('a \<Rightarrow> 'a \<Rightarrow> bool) \<Rightarrow> 'a list \<Rightarrow> 'a list" where
  "dedup_by same [] = []"
| "dedup_by same [x] = [x]"
| "dedup_by same (x # y # ys) = (if same y x then dedup_by same (x # ys) else x # dedup_by same (y # ys))"

definition toxic_addresses :: "(string \<Rightarrow> string list) \<Rightarrow> (string \<Rightarrow> string list) \<Rightarrow> string option \<Rightarrow> string list" where
  "toxic_addresses toml_addresses lines file =
    (case file of
       None \<Rightarrow> []
     | Some contents \<Rightarrow>
         (let addresses = toml_addresses contents
          in if addresses = [] then filter (\<lambda>l. l \<noteq> [] \<and> hd l \<noteq> CHR ''#'') (lines contents) else addresses))"

definition add_toxic :: "(string \<Rightarrow> string) \<Rightarrow> string \<Rightarrow> string list \<Rightarrow> string list" where
  "add_toxic lower token_str addresses =
    (if list_ex (\<lambda>a. lower a = lower token_str) addresses then addresses
     else dedup_by (\<lambda>a b. lower a = lower b) (sort (addresses @ [token_str])))"

definition persist_toxic_token_file ::
    "(string \<Rightarrow> string list) \<Rightarrow> (string \<Rightarrow> string list) \<Rightarrow> (string \<Rightarrow> string) \<Rightarrow> (string list \<Rightarrow> string) \<Rightarrow>
     (address \<Rightarrow> string) \<Rightarrow> address \<Rightarrow> string option \<Rightarrow> string option" where
  "persist_toxic_token_file toml_addresses lines lower toml_body show_address token file =
    Some (toml_body (add_toxic lower (show_address token) (toxic_addresses toml_addresses lines file)))"


section \<open>What is posted\<close>

text \<open>Transactions signed for a step of the worker \<open>w\<close> in \<open>env\<close> for the path \<open>v\<close> with the nonce \<open>n\<close>.\<close>

definition signed_for :: "sender_env \<Rightarrow> tx_sender \<Rightarrow> valid_path \<Rightarrow> u64 \<Rightarrow> eip1559_tx \<Rightarrow> u8 list \<Rightarrow> bool" where
  "signed_for env w v n tx raw \<longleftrightarrow>
     (\<exists>signer. se_sign env signer tx = Inr raw) \<and> tx_nonce tx = n \<and>
     tx_to tx = tc_bot_address (tw_config w) \<and> tx_chain_id tx = tc_chain_id (tw_config w) \<and>
     tx_gas_limit tx = tc_max_gas_limit (tw_config w) \<and>
     (\<exists>provider \<in> {tc_flash_loan_provider (tw_config w), 0}.
        tx_input tx = encode_calldata_with_provider env v provider) \<and>
     (se_skip_preflight env \<or> preflight_eth_call env w (tx_input tx) = Inr ())"

text \<open>What a step may do to the nonce and the posted transactions.\<close>

definition posts_at_most_one :: "sender_env \<Rightarrow> tx_sender \<Rightarrow> valid_path \<Rightarrow> sender_state \<Rightarrow> sender_state \<Rightarrow> bool" where
  "posts_at_most_one env w v st st' \<longleftrightarrow>
     ts_posted st' = ts_posted st \<and> (ts_nonce st' = ts_nonce st \<or> ts_nonce st' = ts_nonce st + 1) \<or>
     (\<exists>tx raw. signed_for env w v (ts_nonce st) tx raw \<and> ts_posted st' = ts_posted st @ [raw] \<and>
        ts_nonce st' = ts_nonce st + 1)"

definition same_lists :: "sender_state \<Rightarrow> sender_state \<Rightarrow> bool" where
  "same_lists st st' \<longleftrightarrow>
     ts_strike_counts st' = ts_strike_counts st \<and> ts_token_strike_counts st' = ts_token_strike_counts st \<and>
     ts_blacklisted_paths st' = ts_blacklisted_paths st \<and> ts_blacklisted_tokens st' = ts_blacklisted_tokens st \<and>
     ts_persisted st' = ts_persisted st"

lemma build_raw_tx_cases:
  assumes "build_raw_tx env w calldata max_fee prio st = (r, st')"
  obtains (none) e where "r = Inl e" "st' = st"
    | (failed) e where "r = Inl e" "st' = st\<lparr>ts_nonce := ts_nonce st + 1\<rparr>"
    | (signed) tx raw signer where "r = Inr raw" "st' = st\<lparr>ts_nonce := ts_nonce st + 1\<rparr>" "se_sign env signer tx = Inr raw"
        "tx_nonce tx = ts_nonce st" "tx_to tx = tc_bot_address (tw_config w)"
        "tx_chain_id tx = tc_chain_id (tw_config w)" "tx_gas_limit tx = tc_max_gas_limit (tw_config w)"
        "tx_input tx = calldata"
proof -
  let ?tx = "\<lparr> tx_to = tc_bot_address (tw_config w), tx_nonce = ts_nonce st, tx_gas_limit = tc_max_gas_limit (tw_config w),
               tx_chain_id = tc_chain_id (tw_config w), tx_max_fee_per_gas = ucast max_fee,
               tx_max_priority_fee_per_gas = ucast prio, tx_input = calldata \<rparr>"
  have "(\<exists>e. r = Inl e) \<and> st' = st \<or>
        st' = st\<lparr>ts_nonce := ts_nonce st + 1\<rparr> \<and> ((\<exists>e. r = Inl e) \<or> (\<exists>signer raw. r = Inr raw \<and> se_sign env signer ?tx = Inr raw))"
    using assms by (auto simp: build_raw_tx_def Let_def split: if_splits sum.splits) metis+
  then show ?thesis
  proof (elim disjE exE conjE)
    fix signer raw
    assume "st' = st\<lparr>ts_nonce := ts_nonce st + 1\<rparr>" "r = Inr raw" "se_sign env signer ?tx = Inr raw"
    then show ?thesis by (intro signed [of raw signer ?tx]) simp_all
  qed (use none failed in blast)+
qed

lemma submit_raw_tx_state: "snd (submit_raw_tx env raw st) = st\<lparr>ts_posted := ts_posted st @ [raw]\<rparr>"
  by (simp add: submit_raw_tx_def)

lemma proceed_posts:
  assumes "calldata = encode_calldata_with_provider env v provider"
    and "provider \<in> {tc_flash_loan_provider (tw_config w), 0}"
    and "se_skip_preflight env \<or> preflight_eth_call env w calldata = Inr ()"
    and "(case build_raw_tx env w calldata max_fee prio st of
            (Inl e, st) \<Rightarrow> (Inl e, st) | (Inr tx, st) \<Rightarrow> submit_raw_tx env tx st) = (r, st')"
  shows "posts_at_most_one env w v st st' \<and> same_lists st st'"
proof -
  obtain b st1 where b: "build_raw_tx env w calldata max_fee prio st = (b, st1)" by force
  from b show ?thesis
  proof (cases rule: build_raw_tx_cases)
    case (signed tx raw signer)
    have "st' = st1\<lparr>ts_posted := ts_posted st1 @ [raw]\<rparr>"
      using assms(4) b signed(1) submit_raw_tx_state [of env raw st1] by simp
    moreover have "signed_for env w v (ts_nonce st) tx raw"
      using signed assms(1-3) by (auto simp: signed_for_def)
    ultimately show ?thesis using signed(2) by (auto simp: posts_at_most_one_def same_lists_def)
  qed (use assms(4) b in \<open>auto simp: posts_at_most_one_def same_lists_def\<close>)
qed

lemma try_providers_posts:
  assumes "set providers \<subseteq> {tc_flash_loan_provider (tw_config w), 0}"
    and "try_providers env w v max_fee prio providers e st = (r, st')"
  shows "posts_at_most_one env w v st st' \<and> same_lists st st' \<and>
         (tc_dry_run (tw_config w) \<and> providers \<noteq> [] \<longrightarrow> st' = st \<and> r = Inr ''0x_dry_run'')"
  using assms
proof (induction providers arbitrary: e)
  case Nil
  then show ?case by (simp add: posts_at_most_one_def same_lists_def)
next
  case (Cons provider providers)
  let ?data = "encode_calldata_with_provider env v provider"
  let ?proceed = "case build_raw_tx env w ?data max_fee prio st of
            (Inl e, st) \<Rightarrow> (Inl e, st) | (Inr tx, st) \<Rightarrow> submit_raw_tx env tx st"
  have in_set: "provider \<in> {tc_flash_loan_provider (tw_config w), 0}" using Cons.prems(1) by simp
  note proceed = proceed_posts [OF refl in_set]
  consider (dry) "tc_dry_run (tw_config w)"
    | (skip) "\<not> tc_dry_run (tw_config w)" "se_skip_preflight env \<or> preflight_eth_call env w ?data = Inr ()"
    | (bad) err where "\<not> tc_dry_run (tw_config w)" "\<not> se_skip_preflight env" "preflight_eth_call env w ?data = Inl err"
    by (metis (full_types) old.unit.exhaust sumE)
  then show ?case
  proof cases
    case dry
    then show ?thesis using Cons.prems(2) by (simp add: posts_at_most_one_def same_lists_def)
  next
    case skip
    then have "?proceed = (r, st')" using Cons.prems(2)
      by (cases "se_skip_preflight env") (simp_all add: Let_def)
    then show ?thesis using proceed [OF skip(2)] skip(1) by blast
  next
    case bad
    have "st' = st \<or> try_providers env w v max_fee prio providers err st = (r, st')"
      using Cons.prems(2) bad by (auto split: if_splits)
    then show ?thesis
    proof
      assume "st' = st"
      then show ?thesis using bad by (simp add: posts_at_most_one_def same_lists_def)
    next
      assume "try_providers env w v max_fee prio providers err st = (r, st')"
      then show ?thesis using Cons.IH Cons.prems(1) bad by simp
    qed
  qed
qed


lemma strike_path_keeps: "ts_posted (strike_path w i ph st) = ts_posted st" "ts_nonce (strike_path w i ph st) = ts_nonce st"
  by (simp_all add: strike_path_def Let_def)

lemma strike_token_keeps: "ts_posted (strike_token w i tok st) = ts_posted st" "ts_nonce (strike_token w i tok st) = ts_nonce st"
  by (simp_all add: strike_token_def Let_def)

lemma strike_tokens_keep:
  "ts_posted (fold (strike_token w i) toks st) = ts_posted st \<and> ts_nonce (fold (strike_token w i) toks st) = ts_nonce st"
  by (induction toks arbitrary: st) (simp_all add: strike_token_keeps)

lemma handle_error_keeps: "ts_posted (handle_error w v e st) = ts_posted st" "ts_nonce (handle_error w v e st) = ts_nonce st"
  by (simp_all add: handle_error_def Let_def strike_tokens_keep strike_path_keeps)

definition refreshed :: "u64 option option \<Rightarrow> sender_state \<Rightarrow> sender_state" where
  "refreshed refresh st = (case refresh of Some (Some head) \<Rightarrow> st\<lparr>ts_cached_head := head\<rparr> | _ \<Rightarrow> st)"

lemma refreshed_keeps [simp]:
  "ts_posted (refreshed r st) = ts_posted st" "ts_nonce (refreshed r st) = ts_nonce st"
  "ts_blacklisted_paths (refreshed r st) = ts_blacklisted_paths st"
  "ts_blacklisted_tokens (refreshed r st) = ts_blacklisted_tokens st"
  "ts_strike_counts (refreshed r st) = ts_strike_counts st"
  "ts_token_strike_counts (refreshed r st) = ts_token_strike_counts st"
  "ts_persisted (refreshed r st) = ts_persisted st"
  by (simp_all add: refreshed_def split: option.splits)

definition sender_stale :: "tx_sender \<Rightarrow> valid_path \<Rightarrow> sender_state \<Rightarrow> bool" where
  "sender_stale w v st \<longleftrightarrow>
     0 < ts_cached_head st \<and> ap_block_number (vp_arb v) + tc_max_stale_blocks (tw_config w) < ts_cached_head st"

lemma sender_step_cases:
  assumes "sender_step env w refresh v st = Some st'"
  obtains (poor) "vp_net_profit v < tc_min_submit_profit_wei (tw_config w)" "st' = st"
    | (stale) "sender_stale w v (refreshed refresh st)" "st' = refreshed refresh st"
    | (sent) max_fee prio providers r st1 where
        "tc_min_submit_profit_wei (tw_config w) \<le> vp_net_profit v" "\<not> sender_stale w v (refreshed refresh st)"
        "providers \<noteq> []" "set providers \<subseteq> {tc_flash_loan_provider (tw_config w), 0}"
        "try_providers env w v max_fee prio providers '''' (refreshed refresh st) = (r, st1)"
        "st' = (case r of Inr _ \<Rightarrow> st1 | Inl e \<Rightarrow> handle_error w v e st1)"
proof -
  have eq: "sender_step env w refresh v st =
    (if vp_net_profit v < tc_min_submit_profit_wei (tw_config w) then Some st
     else if sender_stale w v (refreshed refresh st) then Some (refreshed refresh st)
     else do {
       (r, st) \<leftarrow> build_and_send env w v (refreshed refresh st);
       Some (case r of Inr _ \<Rightarrow> st | Inl e \<Rightarrow> handle_error w v e st)
     })"
    by (simp only: sender_step_def Let_def sender_stale_def refreshed_def [symmetric])
  show ?thesis
  proof (cases "vp_net_profit v < tc_min_submit_profit_wei (tw_config w) \<or> sender_stale w v (refreshed refresh st)")
    case True
    with assms [unfolded eq] have "st' = (if vp_net_profit v < tc_min_submit_profit_wei (tw_config w) then st
                                         else refreshed refresh st)"
      by (cases "vp_net_profit v < tc_min_submit_profit_wei (tw_config w)") simp_all
    then show ?thesis using True poor stale by (simp split: if_splits)
  next
    case False
    then obtain r st1 where b: "build_and_send env w v (refreshed refresh st) = Some (r, st1)"
      and st': "st' = (case r of Inr _ \<Rightarrow> st1 | Inl e \<Rightarrow> handle_error w v e st1)"
      using assms [unfolded eq] by (auto simp del: sum.case_distrib split: bind_splits)
    let ?primary = "tc_flash_loan_provider (tw_config w)"
    let ?providers = "if ?primary \<noteq> 0 then [?primary, 0] else [0]"
    from b obtain max_fee prio where
      "try_providers env w v max_fee prio ?providers '''' (refreshed refresh st) = (r, st1)"
      by (auto simp: build_and_send_def Let_def simp del: try_providers.simps split: bind_splits)
    moreover have "?providers \<noteq> []" "set ?providers \<subseteq> {?primary, 0}" by simp_all
    ultimately show ?thesis using False st' sent by (simp add: not_less)
  qed
qed

definition live_checks :: "sender_env \<Rightarrow> tx_sender \<Rightarrow> u64 option option \<Rightarrow> valid_path \<Rightarrow> sender_state \<Rightarrow> bool" where
  "live_checks env w refresh v st \<longleftrightarrow>
     \<not> tc_dry_run (tw_config w) \<and> tc_min_submit_profit_wei (tw_config w) \<le> vp_net_profit v \<and>
     \<not> sender_stale w v (refreshed refresh st)"

lemma sender_step_posts:
  assumes "sender_step env w refresh v st = Some st'"
  shows "posts_at_most_one env w v st st' \<and>
         (ts_posted st' \<noteq> ts_posted st \<or> \<not> same_lists st st' \<or> ts_nonce st' \<noteq> ts_nonce st \<longrightarrow>
          live_checks env w refresh v st)"
  using assms
proof (cases rule: sender_step_cases)
  case (sent max_fee prio providers r st1)
  note t = try_providers_posts [OF sent(4,5)]
  have keep: "ts_posted st' = ts_posted st1" "ts_nonce st' = ts_nonce st1"
    using sent(6) by (simp_all add: handle_error_keeps split: sum.splits)
  have "posts_at_most_one env w v st st'" using t keep by (simp add: posts_at_most_one_def)
  moreover have "st' = refreshed refresh st" if "tc_dry_run (tw_config w)" using t that sent(3,6) by simp
  ultimately show ?thesis using sent(1,2) by (auto simp: live_checks_def same_lists_def)
qed (simp_all add: posts_at_most_one_def same_lists_def)

text \<open>
  C12. The sender posts at most one transaction per path, with the next nonce, to the bot contract with
  the configured chain id and gas limit, for the configured provider or Aave, only after the preflight of
  that very call passed (or when it is switched off), never in a dry run, and only for a path at or
  above the minimum profit that is not stale; otherwise neither nonce nor strikes nor blacklists change.
\<close>

theorem sender_step_guarded:
  assumes "sender_step env w refresh v st = Some st'"
  shows "(ts_posted st' = ts_posted st \<and> (ts_nonce st' = ts_nonce st \<or> ts_nonce st' = ts_nonce st + 1) \<or>
          (\<exists>tx raw. signed_for env w v (ts_nonce st) tx raw \<and> ts_posted st' = ts_posted st @ [raw] \<and>
             ts_nonce st' = ts_nonce st + 1)) \<and>
         (live_checks env w refresh v st \<or>
          ts_posted st' = ts_posted st \<and> ts_nonce st' = ts_nonce st \<and> same_lists st st')"
  using sender_step_posts [OF assms] unfolding posts_at_most_one_def by blast

section \<open>Nonces of a run\<close>

text \<open>
  The signed transactions of a run: the nonces lie between the start and the end nonce and rise strictly.
\<close>

definition nonces_rise :: "u64 \<Rightarrow> u64 \<Rightarrow> eip1559_tx list \<Rightarrow> bool" where
  "nonces_rise n n' txs \<longleftrightarrow>
     sorted_wrt (<) (map tx_nonce txs) \<and> (\<forall>tx \<in> set txs. n \<le> tx_nonce tx \<and> tx_nonce tx < n')"

lemma sender_run_nonces:
  assumes "sender_run w vs st = Some st'" "unat (ts_nonce st) + length vs < 2 ^ 64"
  shows "\<exists>signed. ts_posted st' = ts_posted st @ map snd signed \<and>
           nonces_rise (ts_nonce st) (ts_nonce st') (map fst signed) \<and>
           ts_nonce st \<le> ts_nonce st' \<and> unat (ts_nonce st') \<le> unat (ts_nonce st) + length vs \<and>
           (\<forall>(tx, raw) \<in> set signed. \<exists>(env, refresh, v) \<in> set vs. signed_for env w v (tx_nonce tx) tx raw)"
  using assms
proof (induction vs arbitrary: st)
  case Nil
  then show ?case by (simp add: nonces_rise_def)
next
  case (Cons m vs)
  obtain env refresh v where m: "m = (env, refresh, v)" by (cases m)
  from Cons.prems(1) m obtain st1 where s: "sender_step env w refresh v st = Some st1" and r: "sender_run w vs st1 = Some st'"
    by (auto split: bind_splits)
  have next_nonce: "unat (ts_nonce st + 1) = unat (ts_nonce st) + 1" using Cons.prems(2) by (simp add: unat_add_exact)
  from sender_step_posts [OF s] have p: "posts_at_most_one env w v st st1" by simp
  then have bound: "ts_nonce st \<le> ts_nonce st1" "unat (ts_nonce st1) \<le> unat (ts_nonce st) + 1"
    using next_nonce by (auto simp: posts_at_most_one_def word_le_nat_alt)
  then have "unat (ts_nonce st1) + length vs < 2 ^ 64" using Cons.prems(2) by simp
  then obtain signed where ih: "ts_posted st' = ts_posted st1 @ map snd signed"
    "nonces_rise (ts_nonce st1) (ts_nonce st') (map fst signed)" "ts_nonce st1 \<le> ts_nonce st'"
    "unat (ts_nonce st') \<le> unat (ts_nonce st1) + length vs"
    "\<forall>(tx, raw) \<in> set signed. \<exists>(env, refresh, v) \<in> set vs. signed_for env w v (tx_nonce tx) tx raw"
    using Cons.IH [OF r] by auto
  have weaker: "nonces_rise (ts_nonce st) (ts_nonce st') (map fst signed)"
    using ih(2) bound(1) unfolding nonces_rise_def by (meson order_trans)
  have total: "ts_nonce st \<le> ts_nonce st'" "unat (ts_nonce st') \<le> unat (ts_nonce st) + length (m # vs)"
    using bound ih(3,4) by simp_all
  from p show ?case unfolding posts_at_most_one_def
  proof (elim disjE exE conjE)
    fix tx raw
    assume tx: "signed_for env w v (ts_nonce st) tx raw" "ts_posted st1 = ts_posted st @ [raw]" "ts_nonce st1 = ts_nonce st + 1"
    have n: "tx_nonce tx = ts_nonce st" using tx(1) by (simp add: signed_for_def)
    then have "tx_nonce tx < ts_nonce st1" using tx(3) next_nonce by (simp add: word_less_nat_alt)
    then have "nonces_rise (ts_nonce st) (ts_nonce st') (map fst ((tx, raw) # signed))"
      using ih(2,3) n by (auto simp: nonces_rise_def)
    moreover have "\<forall>(tx', raw') \<in> set ((tx, raw) # signed).
        \<exists>(env, refresh, v) \<in> set (m # vs). signed_for env w v (tx_nonce tx') tx' raw'"
      using ih(5) tx(1) n m by fastforce
    ultimately show ?thesis using ih(1) tx(2) total by (intro exI [of _ "(tx, raw) # signed"]) simp
  next
    assume st: "ts_posted st1 = ts_posted st"
    show ?thesis using ih(1,5) weaker total st by (intro exI [of _ signed]) auto
  next
    assume st: "ts_posted st1 = ts_posted st"
    show ?thesis using ih(1,5) weaker total st by (intro exI [of _ signed]) auto
  qed
qed


text \<open>
  C13. Over a run the worker never reuses a nonce: the posted transactions carry strictly rising nonces
  from the start nonce on, each signed for a path of the run by the guarded step, and the nonce never
  runs ahead of the number of paths received (below the 64-bit wrap).
\<close>

theorem posted_nonces_rise:
  assumes "sender_run w vs st = Some st'" "unat (ts_nonce st) + length vs < 2 ^ 64"
  shows "\<exists>signed. ts_posted st' = ts_posted st @ map snd signed \<and>
           sorted_wrt (<) (map (\<lambda>(tx, _). tx_nonce tx) signed) \<and>
           (\<forall>(tx, raw) \<in> set signed. ts_nonce st \<le> tx_nonce tx \<and> tx_nonce tx < ts_nonce st' \<and>
              (\<exists>(env, refresh, v) \<in> set vs. signed_for env w v (tx_nonce tx) tx raw)) \<and>
           unat (ts_nonce st') \<le> unat (ts_nonce st) + length vs"
proof -
  obtain signed where s: "ts_posted st' = ts_posted st @ map snd signed"
    "nonces_rise (ts_nonce st) (ts_nonce st') (map fst signed)"
    "unat (ts_nonce st') \<le> unat (ts_nonce st) + length vs"
    "\<forall>(tx, raw) \<in> set signed. \<exists>(env, refresh, v) \<in> set vs. signed_for env w v (tx_nonce tx) tx raw"
    using sender_run_nonces [OF assms] by auto
  have "map (\<lambda>(tx, _). tx_nonce tx) signed = map tx_nonce (map fst signed)" by (simp add: case_prod_beta')
  then have "sorted_wrt (<) (map (\<lambda>(tx, _). tx_nonce tx) signed)" using s(2) by (simp only: nonces_rise_def)
  moreover have "\<forall>(tx, raw) \<in> set signed. ts_nonce st \<le> tx_nonce tx \<and> tx_nonce tx < ts_nonce st' \<and>
      (\<exists>(env, refresh, v) \<in> set vs. signed_for env w v (tx_nonce tx) tx raw)"
    using s(2,4) by (fastforce simp: nonces_rise_def)
  ultimately show ?thesis using s(1,3) by blast
qed

section \<open>Blacklists\<close>

text \<open>
  What holds of the blacklists over a run: start tokens are never added, whatever has reached the
  threshold is blacklisted, and nothing is ever taken off.
\<close>

definition blacklists_ok :: "tx_sender \<Rightarrow> sender_state \<Rightarrow> bool" where
  "blacklists_ok w st \<longleftrightarrow>
     ts_blacklisted_tokens st \<inter> tw_start_tokens w = {} \<and> set (ts_persisted st) \<subseteq> ts_blacklisted_tokens st \<and>
     (\<forall>ph c. ts_strike_counts st ph = Some c \<and> tc_strike_threshold (tw_config w) \<le> c \<longrightarrow> ph \<in> ts_blacklisted_paths st) \<and>
     (\<forall>t c. ts_token_strike_counts st t = Some c \<and> tc_strike_threshold (tw_config w) \<le> c \<longrightarrow> t \<in> ts_blacklisted_tokens st)"

text \<open>The blacklists grow, and only by the hashes \<open>H\<close> and the tokens \<open>T\<close>; each new token is persisted.\<close>

definition blacklists_grow :: "u64 set \<Rightarrow> address set \<Rightarrow> sender_state \<Rightarrow> sender_state \<Rightarrow> bool" where
  "blacklists_grow H T st st' \<longleftrightarrow>
     ts_blacklisted_paths st \<subseteq> ts_blacklisted_paths st' \<and> ts_blacklisted_paths st' \<subseteq> ts_blacklisted_paths st \<union> H \<and>
     (\<exists>new. ts_persisted st' = ts_persisted st @ new \<and> distinct new \<and> set new \<subseteq> T \<and>
        set new \<inter> ts_blacklisted_tokens st = {} \<and>
        ts_blacklisted_tokens st' = ts_blacklisted_tokens st \<union> set new)"

lemma blacklists_grow_refl: "same_lists st st' \<Longrightarrow> blacklists_grow H T st st'"
  by (auto simp: blacklists_grow_def same_lists_def)

lemma blacklists_grow_trans:
  assumes "blacklists_grow H T st st1" "blacklists_grow H' T' st1 st2"
  shows "blacklists_grow (H \<union> H') (T \<union> T') st st2"
proof -
  from assms obtain new new' where
    n: "ts_persisted st1 = ts_persisted st @ new" "distinct new" "set new \<subseteq> T" "set new \<inter> ts_blacklisted_tokens st = {}"
      "ts_blacklisted_tokens st1 = ts_blacklisted_tokens st \<union> set new"
    and n': "ts_persisted st2 = ts_persisted st1 @ new'" "distinct new'" "set new' \<subseteq> T'"
      "set new' \<inter> ts_blacklisted_tokens st1 = {}" "ts_blacklisted_tokens st2 = ts_blacklisted_tokens st1 \<union> set new'"
    unfolding blacklists_grow_def by blast
  have "ts_persisted st2 = ts_persisted st @ (new @ new') \<and> distinct (new @ new') \<and> set (new @ new') \<subseteq> T \<union> T' \<and>
        set (new @ new') \<inter> ts_blacklisted_tokens st = {} \<and>
        ts_blacklisted_tokens st2 = ts_blacklisted_tokens st \<union> set (new @ new')"
    using n n' by auto
  moreover have "ts_blacklisted_paths st \<subseteq> ts_blacklisted_paths st2"
    "ts_blacklisted_paths st2 \<subseteq> ts_blacklisted_paths st \<union> (H \<union> H')"
    using assms by (auto simp: blacklists_grow_def)
  ultimately show ?thesis unfolding blacklists_grow_def by blast
qed

lemma same_lists_ok: "same_lists st st' \<Longrightarrow> blacklists_ok w st \<Longrightarrow> blacklists_ok w st'"
  by (auto simp: blacklists_ok_def same_lists_def)

lemma strike_path_ok:
  "blacklists_ok w st \<Longrightarrow> blacklists_ok w (strike_path w i ph st) \<and> blacklists_grow {ph} {} st (strike_path w i ph st)"
  by (auto simp: blacklists_ok_def blacklists_grow_def strike_path_def Let_def)

lemma strike_token_ok:
  "blacklists_ok w st \<Longrightarrow> blacklists_ok w (strike_token w i tok st) \<and>
   blacklists_grow {} ({tok} - tw_start_tokens w) st (strike_token w i tok st)"
  by (auto simp: blacklists_ok_def blacklists_grow_def strike_token_def Let_def split: if_splits)

lemma strike_tokens_ok:
  "blacklists_ok w st \<Longrightarrow> blacklists_ok w (fold (strike_token w i) toks st) \<and>
   blacklists_grow {} (set toks - tw_start_tokens w) st (fold (strike_token w i) toks st)"
proof (induction toks arbitrary: st)
  case Nil
  then show ?case by (simp add: blacklists_grow_refl same_lists_def)
next
  case (Cons t toks)
  note s = strike_token_ok [OF Cons.prems, of i t]
  have "({t} - tw_start_tokens w) \<union> (set toks - tw_start_tokens w) = set (t # toks) - tw_start_tokens w" by auto
  then show ?case using Cons.IH [of "strike_token w i t st"] s
      blacklists_grow_trans [of "{}" "{t} - tw_start_tokens w" st "strike_token w i t st" "{}" "set toks - tw_start_tokens w"]
    by simp
qed

definition msg_hashes :: "valid_path \<Rightarrow> u64 set" where
  "msg_hashes v = {path_hash (ap_path (vp_arb v))}"

definition msg_tokens :: "tx_sender \<Rightarrow> valid_path \<Rightarrow> address set" where
  "msg_tokens w v = set (step_tokens (path_steps (ap_path (vp_arb v)))) - tw_start_tokens w"

lemma blacklists_grow_mono:
  "blacklists_grow H T st st' \<Longrightarrow> H \<subseteq> H' \<Longrightarrow> T \<subseteq> T' \<Longrightarrow> blacklists_grow H' T' st st'"
  unfolding blacklists_grow_def by blast

lemma handle_error_ok:
  assumes "blacklists_ok w st"
  shows "blacklists_ok w (handle_error w v e st) \<and> blacklists_grow (msg_hashes v) (msg_tokens w v) st (handle_error w v e st)"
proof (cases "handle_error w v e st = st")
  case True
  then show ?thesis using assms by (simp add: blacklists_grow_refl same_lists_def)
next
  case False
  let ?p = "ap_path (vp_arb v)"
  let ?i = "str_contains ''INSTANT_BLACKLIST'' e"
  let ?st1 = "strike_path w ?i (path_hash ?p) st"
  have eq: "handle_error w v e st = fold (strike_token w ?i) (step_tokens (path_steps ?p)) ?st1"
    using False by (auto simp: handle_error_def Let_def)
  note s = strike_path_ok [OF assms, of ?i "path_hash ?p"]
  note s2 = strike_tokens_ok [OF conjunct1 [OF s], of ?i "step_tokens (path_steps ?p)"]
  show ?thesis using s s2 blacklists_grow_trans [OF conjunct2 [OF s] conjunct2 [OF s2]]
    unfolding eq by (simp add: msg_hashes_def msg_tokens_def)
qed

lemma sender_step_lists:
  assumes "sender_step env w refresh v st = Some st'" "blacklists_ok w st"
  shows "blacklists_ok w st' \<and> blacklists_grow (msg_hashes v) (msg_tokens w v) st st'"
  using assms(1)
proof (cases rule: sender_step_cases)
  case (sent max_fee prio providers r st1)
  have same: "same_lists st st1"
    using try_providers_posts [OF sent(4,5)] by (auto simp: same_lists_def)
  have grow: "blacklists_grow {} {} st st1" by (rule blacklists_grow_refl [OF same])
  show ?thesis
  proof (cases r)
    case (Inl e)
    then have "st' = handle_error w v e st1" using sent(6) by simp
    then show ?thesis using handle_error_ok [OF same_lists_ok [OF same assms(2)], of v e]
        blacklists_grow_trans [OF grow] by force
  next
    case (Inr h)
    then show ?thesis using sent(6) same_lists_ok [OF same assms(2)] blacklists_grow_refl [OF same] by simp
  qed
qed (use assms(2) in \<open>auto intro!: blacklists_grow_refl same_lists_ok [OF _ assms(2)] simp: same_lists_def\<close>)

lemma sender_run_lists:
  assumes "sender_run w vs st = Some st'" "blacklists_ok w st"
  shows "blacklists_ok w st' \<and>
         blacklists_grow (\<Union>(env, refresh, v) \<in> set vs. msg_hashes v) (\<Union>(env, refresh, v) \<in> set vs. msg_tokens w v) st st'"
  using assms
proof (induction vs arbitrary: st)
  case Nil
  then show ?case by (simp add: blacklists_grow_refl same_lists_def)
next
  case (Cons m vs)
  obtain env refresh v where m: "m = (env, refresh, v)" by (cases m)
  from Cons.prems(1) m obtain st1 where s: "sender_step env w refresh v st = Some st1" and r: "sender_run w vs st1 = Some st'"
    by (auto split: bind_splits)
  note one = sender_step_lists [OF s Cons.prems(2)]
  note rest = Cons.IH [OF r conjunct1 [OF one]]
  show ?case using rest blacklists_grow_trans [OF conjunct2 [OF one] conjunct2 [OF rest]] m by simp
qed

text \<open>
  C31. The blacklists are sound over every run: start tokens are never blacklisted, every path and token
  at the strike threshold is, entries are never taken off, a new path entry is the hash of a path of the
  run, and the new tokens, persisted exactly once each, are tokens of such paths other than start tokens.
\<close>

theorem sender_blacklists_sound:
  assumes "sender_run w vs st = Some st'" "blacklists_ok w st"
  shows "blacklists_ok w st' \<and>
         blacklists_grow (\<Union>(env, refresh, v) \<in> set vs. msg_hashes v) (\<Union>(env, refresh, v) \<in> set vs. msg_tokens w v) st st'"
  by (rule sender_run_lists [OF assms])

lemma sender_start_ok:
  assumes "blacklisted_tokens \<inter> tw_start_tokens w = {}"
  shows "blacklists_ok w (sender_start env w count head blacklisted_paths blacklisted_tokens)"
  using assms
  by (auto simp: sender_start_def seed_nonce_from_rpc_def blacklists_ok_def split: sum.splits option.splits)

section \<open>Concrete runs\<close>

text \<open>A node with the given replies and a signer that writes down the nonce.\<close>

definition tx_sample_env :: "rpc_reply \<Rightarrow> rpc_reply \<Rightarrow> sender_env" where
  "tx_sample_env call_reply send_reply =
    \<lparr> se_decode_key = (\<lambda>_. Inr [1]), se_secret_key = (\<lambda>_. Inr 7),
      se_sign = (\<lambda>_ tx. Inr [ucast (tx_nonce tx)]), se_encode_execute = (\<lambda>_. []),
      se_eth_call = (\<lambda>_ _ _ _. call_reply), se_send_raw = (\<lambda>_. send_reply), se_skip_preflight = False \<rparr>"

definition tx_sample_worker :: tx_sender where
  "tx_sample_worker =
    \<lparr> tw_config = tx_sender_config_default\<lparr>tc_signer_key := ''k'', tc_dry_run := False, tc_flash_loan_provider := 0\<rparr>,
      tw_gas_station = \<lparr> gs_base_fee = 1, gs_last_gas_used = 0, gs_last_gas_limit = 0, gs_elasticity_multiplier = 2,
                         gs_base_fee_change_denominator = 8, gs_min_base_fee_wei = 1, gs_priority_fee_cap_wei = 10 \<rparr>,
      tw_start_tokens = {1} \<rparr>"

text \<open>A cycle from the start token 1 to the token 2 and back.\<close>

definition tx_sample_msg :: valid_path where
  "tx_sample_msg =
    \<lparr> vp_arb = \<lparr> ap_path = \<lparr> path_steps =
                              [\<lparr> st_pool_address = 8, st_token_in = 1, st_token_out = 2, st_protocol = UniswapV2, st_fee = 0 \<rparr>,
                               \<lparr> st_pool_address = 9, st_token_in = 2, st_token_out = 1, st_protocol = UniswapV2, st_fee = 0 \<rparr>],
                             path_hash = 5 \<rparr>,
                ap_expected_profit = 0, ap_gas_estimate = 1000, ap_block_number = 10 \<rparr>,
      vp_amount_in = 1, vp_amount_out = 2, vp_gas_cost = 0, vp_net_profit = 5000000000000 \<rparr>"

definition tx_sample_start :: sender_state where
  "tx_sample_start = sender_start (tx_sample_env (Unreachable '''') (Unreachable '''')) tx_sample_worker (\<lambda>_. None) None {} {}"

lemmas tx_sample_defs = tx_sample_env_def tx_sample_worker_def tx_sample_msg_def tx_sample_start_def
  sender_start_def seed_nonce_from_rpc_def tx_sender_config_default_def

lemma tx_sample_fees: "\<exists>a b. fees_for tx_sample_worker tx_sample_msg = Some (a, b)"
  by (simp add: fees_for_def predict_next_base_fee_def calc_next_base_fee_def tx_sample_worker_def Let_def)

lemma tx_sample_config:
  "tc_min_submit_profit_wei (tw_config tx_sample_worker) = 5000000000000"
  "\<not> tc_dry_run (tw_config tx_sample_worker)" "tc_flash_loan_provider (tw_config tx_sample_worker) = 0"
  "\<not> se_skip_preflight (tx_sample_env c s)"
  by (simp_all add: tx_sample_defs)

lemma tx_sample_posts:
  "sender_step (tx_sample_env (Json None (Some ''0x'') '''') (Unreachable ''timeout'')) tx_sample_worker None tx_sample_msg
     tx_sample_start
   = Some (tx_sample_start\<lparr>ts_nonce := 1, ts_posted := [[0]]\<rparr>)"
proof -
  obtain a b where "fees_for tx_sample_worker tx_sample_msg = Some (a, b)" using tx_sample_fees by blast
  then show ?thesis
    by (simp add: sender_step_def build_and_send_def preflight_eth_call_def build_raw_tx_def submit_raw_tx_def
        handle_error_def PREFLIGHT_REVERTED_def tx_sample_defs Let_def)
qed


definition tx_live_msg :: "sender_env \<times> u64 option option \<times> valid_path" where
  "tx_live_msg = (tx_sample_env (Json None (Some ''0x'') '''') (Unreachable ''timeout''), None, tx_sample_msg)"

definition tx_lost_msg :: "sender_env \<times> u64 option option \<times> valid_path" where
  "tx_lost_msg = (tx_sample_env (Unreachable ''timeout'') (Unreachable ''timeout''), None, tx_sample_msg)"

text \<open>
  Submissions that the sequencer never received still take nonces: the next transaction carries nonce 1,
  then 2, while the account is still at 0, and nothing reads the nonce of the account again.
\<close>

lemma failed_submissions_burn_nonces:
  "sender_run tx_sample_worker [tx_live_msg, tx_live_msg] tx_sample_start
   = Some (tx_sample_start\<lparr>ts_nonce := 2, ts_posted := [[0], [1]]\<rparr>)"
proof -
  obtain a b where "fees_for tx_sample_worker tx_sample_msg = Some (a, b)" using tx_sample_fees by blast
  then show ?thesis
    by (simp add: sender_step_def build_and_send_def preflight_eth_call_def build_raw_tx_def submit_raw_tx_def
        handle_error_def PREFLIGHT_REVERTED_def tx_sample_defs tx_live_msg_def Let_def)
qed

lemma tx_lost_error:
  "str_contains PREFLIGHT_REVERTED ''preflight eth_call reverted: preflight eth_call request failed: timeout''"
  "\<not> str_contains ''repay insufficient'' ''preflight eth_call reverted: preflight eth_call request failed: timeout''"
  "\<not> str_contains ''726570617920696e73756666696369656e74'' ''preflight eth_call reverted: preflight eth_call request failed: timeout''"
  "\<not> str_contains ''INSTANT_BLACKLIST'' ''preflight eth_call reverted: preflight eth_call request failed: timeout''"
  "\<not> is_instant_blacklist_error ''preflight eth_call request failed: timeout''"
  by code_simp+

lemma tx_lost_step:
  assumes "ts_cached_head st = 0"
  shows "sender_step (tx_sample_env (Unreachable ''timeout'') (Unreachable ''timeout'')) tx_sample_worker None tx_sample_msg st
         = Some (fold (strike_token tx_sample_worker False) [1, 2, 2, 1] (strike_path tx_sample_worker False 5 st))"
proof -
  obtain a b where "fees_for tx_sample_worker tx_sample_msg = Some (a, b)" using tx_sample_fees by blast
  moreover have "preflight_eth_call (tx_sample_env (Unreachable ''timeout'') (Unreachable ''timeout'')) tx_sample_worker c
      = Inl ''preflight eth_call request failed: timeout''" for c
    by (simp add: preflight_eth_call_def tx_sample_defs)
  ultimately show ?thesis unfolding tx_sample_msg_def using assms
    by (simp add: sender_step_def build_and_send_def tx_lost_error tx_sample_config handle_error_def step_tokens_def
        tx_sample_msg_def Let_def del: str_contains.simps)
qed

text \<open>
  Two \<open>eth_call\<close> requests that never reached the node blacklist the token 2 of the path at a threshold of
  3: a request that fails is reported as a revert, and a token between two steps gets a strike from each.
\<close>

lemma lost_preflights_blacklist_token:
  "sender_run tx_sample_worker [tx_lost_msg, tx_lost_msg] tx_sample_start
   = Some (tx_sample_start\<lparr>ts_strike_counts := [5 \<mapsto> 2], ts_token_strike_counts := [2 \<mapsto> 4],
                            ts_blacklisted_tokens := {2}, ts_persisted := [2]\<rparr>)"
proof -
  have w: "tc_strike_threshold (tw_config tx_sample_worker) = 3" "tw_start_tokens tx_sample_worker = {1}"
    by (simp_all add: tx_sample_defs)
  define S where "S p t bt pe = tx_sample_start\<lparr>ts_strike_counts := p, ts_token_strike_counts := t,
      ts_blacklisted_tokens := bt, ts_persisted := pe\<rparr>" for p t bt pe
  have head: "ts_cached_head (S p t bt pe) = 0" for p t bt pe by (simp add: S_def tx_sample_defs)
  have start: "tx_sample_start = S Map.empty Map.empty {} []" by (simp add: S_def tx_sample_defs)
  have path: "strike_path tx_sample_worker False 5 (S Map.empty t bt pe) = S [5 \<mapsto> 1] t bt pe"
    "strike_path tx_sample_worker False 5 (S [5 \<mapsto> 1] t bt pe) = S [5 \<mapsto> 2] t bt pe" for t bt pe
    by (simp_all add: strike_path_def strike_def w S_def Let_def word_le_nat_alt)
  have skip: "strike_token tx_sample_worker False 1 st = st" for st by (simp add: strike_token_def w)
  have token: "strike_token tx_sample_worker False 2 (S p Map.empty {} []) = S p [2 \<mapsto> 1] {} []"
    "strike_token tx_sample_worker False 2 (S p [2 \<mapsto> 1] {} []) = S p [2 \<mapsto> 2] {} []"
    "strike_token tx_sample_worker False 2 (S p [2 \<mapsto> 2] {} []) = S p [2 \<mapsto> 3] {2} [2]"
    "strike_token tx_sample_worker False 2 (S p [2 \<mapsto> 3] {2} [2]) = S p [2 \<mapsto> 4] {2} [2]" for p
    by (simp_all add: strike_token_def strike_def w S_def Let_def word_le_nat_alt tx_sample_start_def
        sender_start_def seed_nonce_from_rpc_def)
  have "sender_run tx_sample_worker [tx_lost_msg, tx_lost_msg] (S Map.empty Map.empty {} [])
      = Some (S [5 \<mapsto> 2] [2 \<mapsto> 4] {2} [2])"
    by (simp add: tx_lost_msg_def tx_lost_step head path skip token)
  then show ?thesis unfolding start [symmetric] by (simp add: S_def)
qed

theorem sender_step_guarded_witness:
  "live_checks (tx_sample_env (Json None (Some ''0x'') '''') (Unreachable ''timeout'')) tx_sample_worker None
     tx_sample_msg tx_sample_start"
  using sender_step_guarded [OF tx_sample_posts] by (simp add: tx_sample_defs)

theorem posted_nonces_rise_witness:
  "\<exists>signed :: (eip1559_tx \<times> u8 list) list.
     [[0], [1]] = map snd signed \<and> sorted_wrt (<) (map (\<lambda>(tx, _). tx_nonce tx) signed)"
proof -
  have "unat (ts_nonce tx_sample_start) + length [tx_live_msg, tx_live_msg] < 2 ^ 64" by (simp add: tx_sample_defs)
  note run = posted_nonces_rise [OF failed_submissions_burn_nonces this]
  have "ts_posted tx_sample_start = []" by (simp add: tx_sample_defs)
  then show ?thesis by - (rule ex_forward [OF run], simp)
qed

theorem sender_blacklists_sound_witness:
  "blacklists_ok tx_sample_worker (tx_sample_start\<lparr>ts_strike_counts := [5 \<mapsto> 2], ts_token_strike_counts := [2 \<mapsto> 4],
                            ts_blacklisted_tokens := {2}, ts_persisted := [2]\<rparr>)"
proof -
  have "blacklists_ok tx_sample_worker tx_sample_start"
    unfolding tx_sample_start_def by (rule sender_start_ok) simp
  from sender_blacklists_sound [OF lost_preflights_blacklist_token this] show ?thesis by simp
qed

end
