(* ===== verification/Mempool.thy ===== *)
theory Mempool
  imports PoolTypes PipelineEvents RpcText
begin

text \<open>
  \<open>src/mempool.rs\<close>: the mempool listener. It decodes the calldata of pending calls of DEX routers
  (V2 paths, V3 single and packed paths, multicalls), maps consecutive tokens to pools and sends the
  pools as touched to the searcher. \<open>usize\<close> arithmetic wraps at 64 bits and a slice whose start lies
  above its end, or whose end lies behind the data, panics. The subscription is a parameter.
\<close>

section \<open>Calldata\<close>

definition len_of :: "'a list \<Rightarrow> u64" where
  "len_of xs = of_nat (length xs)"

text \<open>The low 64 bits of the 32-byte word at a position.\<close>

definition read_usize :: "u8 list \<Rightarrow> u64 \<Rightarrow> u64 run" where
  "read_usize calldata pos =
    do {
      word_bytes \<leftarrow> slice calldata pos (pos + 32);
      Some (from_be_bytes (drop 24 word_bytes))
    }"

definition read_address :: "u8 list \<Rightarrow> u64 \<Rightarrow> address run" where
  "read_address calldata pos =
    do {
      bs \<leftarrow> slice calldata pos (pos + 20);
      Some (from_be_bytes bs)
    }"

type_synonym selector = "u8 list"

definition SWAP_EXACT_TOKENS_FOR_TOKENS :: selector where
  "SWAP_EXACT_TOKENS_FOR_TOKENS = [0x38, 0xed, 0x17, 0x39]"
definition SWAP_TOKENS_FOR_EXACT_TOKENS :: selector where
  "SWAP_TOKENS_FOR_EXACT_TOKENS = [0x88, 0x03, 0xdb, 0xee]"
definition SWAP_EXACT_ETH_FOR_TOKENS :: selector where
  "SWAP_EXACT_ETH_FOR_TOKENS = [0x7f, 0xf3, 0x6a, 0xb5]"
definition SWAP_EXACT_TOKENS_FOR_ETH :: selector where
  "SWAP_EXACT_TOKENS_FOR_ETH = [0x18, 0xcb, 0xaf, 0xe5]"
definition SWAP_EXACT_TOKENS_FOR_TOKENS_FEE :: selector where
  "SWAP_EXACT_TOKENS_FOR_TOKENS_FEE = [0x5c, 0x11, 0xd7, 0x95]"
definition SWAP_EXACT_TOKENS_FOR_ETH_FEE :: selector where
  "SWAP_EXACT_TOKENS_FOR_ETH_FEE = [0x79, 0x1a, 0xc9, 0x47]"
definition EXACT_INPUT_SINGLE :: selector where
  "EXACT_INPUT_SINGLE = [0x41, 0x4b, 0xf3, 0x89]"
definition EXACT_INPUT :: selector where
  "EXACT_INPUT = [0xc0, 0x4b, 0x8d, 0x59]"
definition EXACT_OUTPUT_SINGLE :: selector where
  "EXACT_OUTPUT_SINGLE = [0xdb, 0x3e, 0x21, 0x98]"
definition EXACT_OUTPUT :: selector where
  "EXACT_OUTPUT = [0xf2, 0x8c, 0x04, 0x98]"
definition EXACT_INPUT_SINGLE_V3_ALT :: selector where
  "EXACT_INPUT_SINGLE_V3_ALT = [0x04, 0xe4, 0x5a, 0xaf]"
definition MULTICALL_DEADLINE :: selector where
  "MULTICALL_DEADLINE = [0x5a, 0xe4, 0x01, 0xdc]"
definition MULTICALL_NO_DEADLINE :: selector where
  "MULTICALL_NO_DEADLINE = [0xac, 0x96, 0x50, 0xd8]"

lemmas selector_defs = SWAP_EXACT_TOKENS_FOR_TOKENS_def SWAP_TOKENS_FOR_EXACT_TOKENS_def
  SWAP_EXACT_ETH_FOR_TOKENS_def SWAP_EXACT_TOKENS_FOR_ETH_def SWAP_EXACT_TOKENS_FOR_TOKENS_FEE_def
  SWAP_EXACT_TOKENS_FOR_ETH_FEE_def EXACT_INPUT_SINGLE_def EXACT_INPUT_def EXACT_OUTPUT_SINGLE_def
  EXACT_OUTPUT_def EXACT_INPUT_SINGLE_V3_ALT_def MULTICALL_DEADLINE_def MULTICALL_NO_DEADLINE_def

section \<open>Decoders\<close>

text \<open>A decoder panics (\<open>None\<close>), finds no swap (\<open>Some None\<close>) or returns the tokens.\<close>

definition path_word_idx :: "selector \<Rightarrow> u64 option" where
  "path_word_idx sel =
    (if sel = SWAP_EXACT_TOKENS_FOR_TOKENS then Some 2
     else if sel = SWAP_TOKENS_FOR_EXACT_TOKENS then Some 2
     else if sel = SWAP_EXACT_ETH_FOR_TOKENS then Some 1
     else if sel = SWAP_EXACT_TOKENS_FOR_ETH then Some 2
     else if sel = SWAP_EXACT_TOKENS_FOR_TOKENS_FEE then Some 2
     else if sel = SWAP_EXACT_TOKENS_FOR_ETH_FEE then Some 2
     else None)"

text \<open>The addresses \<open>i\<close>, \<open>i + 1\<close>, ... of the array, \<open>n\<close> of them.\<close>

fun read_addrs :: "u8 list \<Rightarrow> u64 \<Rightarrow> u64 \<Rightarrow> nat \<Rightarrow> address list option run" where
  "read_addrs calldata data_start i 0 = Some (Some [])"
| "read_addrs calldata data_start i (Suc n) =
    (let addr_start = data_start + i * 32 + 12
     in if len_of calldata < addr_start + 20 then Some None
        else do {
          addr \<leftarrow> read_address calldata addr_start;
          rest \<leftarrow> read_addrs calldata data_start (i + 1) n;
          Some (map_option ((#) addr) rest)
        })"

definition decode_v2_swap_path :: "u8 list \<Rightarrow> address list option run" where
  "decode_v2_swap_path calldata =
    (if len_of calldata < 4 then Some None
     else case path_word_idx (take 4 calldata) of
       None \<Rightarrow> Some None
     | Some idx \<Rightarrow>
         (let offset_start = 4 + idx * 32
          in if len_of calldata < offset_start + 32 then Some None
             else do {
               offset \<leftarrow> read_usize calldata offset_start;
               let array_start = 4 + offset;
               if len_of calldata < array_start + 32 then Some None
               else do {
                 path_len \<leftarrow> read_usize calldata array_start;
                 if path_len < 2 \<or> 10 < path_len then Some None
                 else let data_start = array_start + 32
                      in if len_of calldata < data_start + path_len * 32 then Some None
                         else read_addrs calldata data_start 0 (unat path_len)
               }
             }))"

definition decode_v3_single_swap :: "u8 list \<Rightarrow> address list option run" where
  "decode_v3_single_swap calldata =
    (if len_of calldata < 68 then Some None
     else do {
       token_in \<leftarrow> read_address calldata (4 + 12);
       token_out \<leftarrow> read_address calldata (4 + 32 + 12);
       Some (Some [token_in, token_out])
     })"

text \<open>The hops of a packed path from the position on, up to a rest too short for one.\<close>

fun v3_hops :: "u8 list \<Rightarrow> address list" where
  "v3_hops rest =
    (if 23 \<le> length rest then from_be_bytes (take 20 (drop 3 rest)) # v3_hops (drop 23 rest) else [])"

declare v3_hops.simps [simp del]

definition decode_v3_path_bytes :: "u8 list \<Rightarrow> address list option" where
  "decode_v3_path_bytes path =
    (if length path < 43 then None
     else let addrs = from_be_bytes (take 20 path) # v3_hops (drop 20 path)
          in if 2 \<le> length addrs then Some addrs else None)"

definition decode_v3_multi_swap :: "u8 list \<Rightarrow> address list option run" where
  "decode_v3_multi_swap calldata =
    (if len_of calldata < 4 + 32 then Some None
     else do {
       offset \<leftarrow> read_usize calldata 4;
       let path_start = 4 + offset;
       if len_of calldata < path_start + 32 then Some None
       else do {
         path_len \<leftarrow> read_usize calldata path_start;
         let data_start = path_start + 32;
         if len_of calldata < data_start + path_len then Some None
         else do {
           path_data \<leftarrow> slice calldata data_start (data_start + path_len);
           Some (decode_v3_path_bytes path_data)
         }
       }
     })"

definition is_v3_single :: "selector \<Rightarrow> bool" where
  "is_v3_single sel \<longleftrightarrow> sel = EXACT_INPUT_SINGLE \<or> sel = EXACT_OUTPUT_SINGLE \<or> sel = EXACT_INPUT_SINGLE_V3_ALT"

definition is_v3_multi :: "selector \<Rightarrow> bool" where
  "is_v3_multi sel \<longleftrightarrow> sel = EXACT_INPUT \<or> sel = EXACT_OUTPUT"

definition decode_sub_call :: "u8 list \<Rightarrow> address list option run" where
  "decode_sub_call sub_call =
    (let sub_sel = take 4 sub_call
     in if is_v3_single sub_sel then decode_v3_single_swap sub_call
        else if is_v3_multi sub_sel then decode_v3_multi_swap sub_call
        else if path_word_idx sub_sel \<noteq> None then decode_v2_swap_path sub_call
        else Some None)"

text \<open>The sub-calls \<open>i\<close>, \<open>i + 1\<close>, ..., \<open>n\<close> of them; a word behind the data ends the loop.\<close>

fun multicall_loop :: "u8 list \<Rightarrow> u64 \<Rightarrow> u64 \<Rightarrow> nat \<Rightarrow> address list run" where
  "multicall_loop calldata arr_start i 0 = Some []"
| "multicall_loop calldata arr_start i (Suc n) =
    (let elem_off_pos = arr_start + 32 + i * 32
     in if len_of calldata < elem_off_pos + 32 then Some []
        else do {
          elem_offset \<leftarrow> read_usize calldata elem_off_pos;
          let elem_start = arr_start + 32 + elem_offset;
          if len_of calldata < elem_start + 32 then Some []
          else do {
            sub_len \<leftarrow> read_usize calldata elem_start;
            let sub_data_start = elem_start + 32;
            if len_of calldata < sub_data_start + sub_len \<or> sub_len < 4
            then multicall_loop calldata arr_start (i + 1) n
            else do {
              sub_call \<leftarrow> slice calldata sub_data_start (sub_data_start + sub_len);
              tokens \<leftarrow> decode_sub_call sub_call;
              rest \<leftarrow> multicall_loop calldata arr_start (i + 1) n;
              Some ((case tokens of Some toks \<Rightarrow> toks | None \<Rightarrow> []) @ rest)
            }
          }
        })"

definition array_offset_word :: "selector \<Rightarrow> u64 option" where
  "array_offset_word sel =
    (if sel = MULTICALL_DEADLINE then Some 1
     else if sel = MULTICALL_NO_DEADLINE then Some 0
     else None)"

definition decode_multicall_swaps :: "u8 list \<Rightarrow> address list option run" where
  "decode_multicall_swaps calldata =
    (if len_of calldata < 4 then Some None
     else case array_offset_word (take 4 calldata) of
       None \<Rightarrow> Some None
     | Some w \<Rightarrow>
         (let off_start = 4 + w * 32
          in if len_of calldata < off_start + 32 then Some None
             else do {
               offset \<leftarrow> read_usize calldata off_start;
               let arr_start = 4 + offset;
               if len_of calldata < arr_start + 32 then Some None
               else do {
                 num_calls \<leftarrow> read_usize calldata arr_start;
                 if num_calls = 0 \<or> 20 < num_calls then Some None
                 else do {
                   all_tokens \<leftarrow> multicall_loop calldata arr_start 0 (unat num_calls);
                   Some (if all_tokens = [] then None else Some all_tokens)
                 }
               }
             }))"

definition decode_any_swap :: "u8 list \<Rightarrow> address list option run" where
  "decode_any_swap calldata =
    (if len_of calldata < 4 then Some None
     else
       let sel = take 4 calldata
       in if path_word_idx sel \<noteq> None then decode_v2_swap_path calldata
          else if is_v3_single sel then decode_v3_single_swap calldata
          else if is_v3_multi sel then decode_v3_multi_swap calldata
          else if array_offset_word sel \<noteq> None then decode_multicall_swaps calldata
          else Some None)"

section \<open>The listener\<close>

type_synonym pair_lookup = "address \<times> address \<rightharpoonup> address list"

record mempool_config =
  mc_router_addresses :: "address set"
  mc_token_pair_to_pool :: pair_lookup

text \<open>The receiver (none for a contract creation) and the input of a pending transaction.\<close>

record pending_tx =
  px_to :: "address option"
  px_input :: "u8 list"

record mempool_stats =
  ms_total_seen :: u64
  ms_dex_swaps :: u64
  ms_pools_forwarded :: u64

definition canonical_pair :: "address \<Rightarrow> address \<Rightarrow> address \<times> address" where
  "canonical_pair a b = (if a < b then (a, b) else (b, a))"

fun affected_pools :: "pair_lookup \<Rightarrow> address list \<Rightarrow> address list" where
  "affected_pools lookup (a # b # rest) =
    (case lookup (canonical_pair a b) of Some pools \<Rightarrow> pools | None \<Rightarrow> []) @ affected_pools lookup (b # rest)"
| "affected_pools lookup _ = []"

text \<open>One pending transaction: the event that is sent, if any.\<close>

definition mempool_step ::
    "mempool_config \<Rightarrow> pending_tx \<Rightarrow> mempool_stats \<Rightarrow> (pools_touched option \<times> mempool_stats) run" where
  "mempool_step config tx st =
    (let st = st\<lparr>ms_total_seen := ms_total_seen st + 1\<rparr>
     in case px_to tx of
          None \<Rightarrow> Some (None, st)
        | Some to_addr \<Rightarrow>
            if to_addr \<notin> mc_router_addresses config then Some (None, st)
            else
              let st = st\<lparr>ms_dex_swaps := ms_dex_swaps st + 1\<rparr>
              in do {
                path \<leftarrow> decode_any_swap (px_input tx);
                Some (case path of
                  None \<Rightarrow> (None, st)
                | Some token_path \<Rightarrow>
                    (let pools = affected_pools (mc_token_pair_to_pool config) token_path
                     in if pools = [] then (None, st)
                        else let pools = remdups_adj (sort pools)
                             in (Some \<lparr> pt_block_number = 0, pt_touched_pools = pools \<rparr>,
                                 st\<lparr>ms_pools_forwarded := ms_pools_forwarded st + len_of pools\<rparr>)))
              })"

text \<open>The stream of pending transactions; \<open>open_until\<close> sends find the channel open.\<close>

fun stream_pending_swaps ::
    "mempool_config \<Rightarrow> nat \<Rightarrow> pending_tx list \<Rightarrow> mempool_stats \<Rightarrow> (pools_touched list \<times> mempool_stats) run" where
  "stream_pending_swaps config open_until [] st = Some ([], st)"
| "stream_pending_swaps config open_until (tx # txs) st =
    do {
      (event, st) \<leftarrow> mempool_step config tx st;
      (case event of
         None \<Rightarrow> stream_pending_swaps config open_until txs st
       | Some e \<Rightarrow>
           if open_until = 0 then Some ([], st)
           else do {
             (events, st) \<leftarrow> stream_pending_swaps config (open_until - 1) txs st;
             Some (e # events, st)
           })
    }"

definition push_pair :: "pool_meta \<Rightarrow> pair_lookup \<Rightarrow> pair_lookup" where
  "push_pair meta m =
    (let key = canonical_pair (pm_token0 meta) (pm_token1 meta)
     in m(key \<mapsto> (case m key of None \<Rightarrow> [] | Some pools \<Rightarrow> pools) @ [pm_address meta]))"

definition build_token_pair_lookup :: "pool_meta list \<Rightarrow> pair_lookup" where
  "build_token_pair_lookup pool_metas =
    (let m = fold push_pair pool_metas Map.empty
     in (\<lambda>key. map_option (\<lambda>pools. remdups_adj (sort pools)) (m key)))"


section \<open>Reading what was written\<close>

lemma len_of_eq: "length xs < 2 ^ 64 \<Longrightarrow> unat (len_of xs) = length xs"
  by (simp add: len_of_def unat_of_nat_small)

lemma from_be_bytes_low:
  assumes "LENGTH('b) \<le> LENGTH('a)" "LENGTH('b) \<le> 8 * n"
  shows "(from_be_bytes (be_bytes n (x :: 'a::len word)) :: 'b::len word) = ucast x"
  by (rule bit_word_eqI) (use assms in \<open>auto simp: bit_from_be_bytes_be_bytes bit_simps\<close>)

lemma drop_be_bytes: "k \<le> n \<Longrightarrow> drop k (be_bytes n x) = be_bytes (n - k) x"
proof (induction k arbitrary: n)
  case (Suc k)
  then obtain m where "n = Suc m" by (cases n) auto
  with Suc show ?case by (simp add: be_bytes_Suc)
qed simp

lemma read_usize_mid:
  assumes "unat a = length pre" "length pre + 32 < 2 ^ 64"
  shows "read_usize (pre @ be_bytes 32 (x :: u256) @ post) a = Some (ucast x)"
proof -
  have "unat (a + 32) = length pre + 32" using assms by (simp add: unat_add_exact)
  then have "slice (pre @ be_bytes 32 x @ post) a (a + 32) = Some (be_bytes 32 x)"
    using assms by (intro slice_mid) simp_all
  then show ?thesis by (simp add: read_usize_def drop_be_bytes from_be_bytes_low)
qed

lemma read_address_mid:
  assumes "unat a = length pre" "length pre + 20 < 2 ^ 64"
  shows "read_address (pre @ be_bytes 20 (x :: address) @ post) a = Some x"
proof -
  have "unat (a + 20) = length pre + 20" using assms by (simp add: unat_add_exact)
  then have "slice (pre @ be_bytes 20 x @ post) a (a + 20) = Some (be_bytes 20 x)"
    using assms by (intro slice_mid) simp_all
  then show ?thesis by (simp add: read_address_def from_be_bytes_be_bytes)
qed

text \<open>An address as a 32-byte word: twelve zero bytes, then the address.\<close>

definition address_word :: "address \<Rightarrow> u8 list" where
  "address_word a = be_bytes 32 (ucast a :: u256)"

lemma length_address_word [simp]: "length (address_word a) = 32"
  by (simp add: address_word_def)

lemma be_bytes_ucast:
  assumes "LENGTH('a) \<le> 8 * n" "LENGTH('a) \<le> LENGTH('b)"
  shows "be_bytes n (ucast (x :: 'a::len word) :: 'b::len word) = be_bytes n x"
proof -
  have "k < LENGTH('b) \<and> bit x k \<longleftrightarrow> bit x k" for k using assms(2) by (auto dest: bit_imp_le_length)
  then show ?thesis
    unfolding be_bytes_def by (intro map_cong refl bit_word_eqI) (simp add: bit_simps)
qed

lemma address_word_split: "\<exists>pad. length pad = 12 \<and> address_word a = pad @ be_bytes 20 a"
proof (intro exI conjI)
  let ?w = "be_bytes 32 (ucast a :: u256)"
  have "drop 12 ?w = be_bytes 20 (ucast a :: u256)" by (simp add: drop_be_bytes)
  also have "\<dots> = be_bytes 20 a" by (rule be_bytes_ucast) simp_all
  finally show "address_word a = take 12 ?w @ be_bytes 20 a"
    unfolding address_word_def by (metis append_take_drop_id)
qed simp

lemma read_addrs_encoded:
  assumes "length (pre @ concat (map address_word path) @ post) < 2 ^ 63"
    and "unat data_start = length pre"
  shows "read_addrs (pre @ concat (map address_word path) @ post) data_start 0 (length path) = Some (Some path)"
proof -
  have "read_addrs (pre @ concat (map address_word (done @ path)) @ post) data_start (of_nat (length done)) (length path)
        = Some (Some path)"
    if "length (pre @ concat (map address_word (done @ path)) @ post) < 2 ^ 63" for "done" path
    using that
  proof (induction path arbitrary: "done")
    case (Cons a path)
    let ?all = "pre @ concat (map address_word (done @ a # path)) @ post"
    obtain pad where pad: "length pad = 12" "address_word a = pad @ be_bytes 20 a" using address_word_split by blast
    have len: "length (concat (map address_word xs)) = 32 * length xs" for xs by (induction xs) auto
    have bound: "length pre + 32 * length done + 32 < 2 ^ 63" using Cons.prems by (simp add: len)
    have n: "unat (of_nat (length done) :: u64) = length done" using bound by (simp add: unat_of_nat_small)
    have n32: "unat (of_nat (length done) * 32 :: u64) = length done * 32" using bound n by (simp add: unat_mult_exact)
    have "unat (data_start + of_nat (length done) * 32) = length pre + length done * 32"
      using assms(2) bound n32 by (simp add: unat_add_exact)
    then have start: "unat (data_start + of_nat (length done) * 32 + 12) = length pre + length done * 32 + 12"
      using bound by (simp add: unat_add_exact)
    then have fits: "unat (data_start + of_nat (length done) * 32 + 12 + 20) = length pre + length done * 32 + 32"
      using bound unat_add_exact [of "data_start + of_nat (length done) * 32 + 12" "20 :: u64"] by (simp add: add.assoc)
    have "unat (len_of ?all) = length ?all" using Cons.prems by (intro len_of_eq) simp
    then have "\<not> len_of ?all < data_start + of_nat (length done) * 32 + 12 + 20"
      unfolding word_less_nat_alt fits by (simp add: len)
    moreover have "read_address ?all (data_start + of_nat (length done) * 32 + 12) = Some a"
      using read_address_mid [of _ "pre @ concat (map address_word done) @ pad" a "concat (map address_word path) @ post"]
        start bound by (simp add: pad len)
    moreover have "read_addrs ?all data_start (of_nat (length done) + 1) (length path) = Some (Some path)"
      using Cons.IH [of "done @ [a]"] Cons.prems by (simp add: add.commute)
    ultimately show ?case by (simp add: Let_def)
  qed simp
  from this [of "[]" path] assms show ?thesis by simp
qed


section \<open>V2 calls\<close>

text \<open>
  The ABI encoding of a router call with a path: the words before the offset word, the offset, the
  words up to the array, the array.
\<close>

definition encode_path_call :: "selector \<Rightarrow> u8 list \<Rightarrow> u8 list \<Rightarrow> address list \<Rightarrow> u8 list \<Rightarrow> u8 list" where
  "encode_path_call sel head between path rest =
    sel @ head @ be_bytes 32 (of_nat (length head + 32 + length between) :: u256) @ between @
    be_bytes 32 (of_nat (length path) :: u256) @ concat (map address_word path) @ rest"

lemma path_word_idx_cases:
  assumes "path_word_idx sel = Some idx"
  shows "length sel = 4" "idx = 1 \<or> idx = 2"
  using assms by (auto simp: path_word_idx_def selector_defs split: if_splits)

lemma ucast_of_nat_u256 [simp]: "ucast (of_nat n :: u256) = (of_nat n :: u64)"
  by (simp add: unsigned_of_nat word_of_nat_eq_iff)

lemma decode_v2_encoded:
  assumes "path_word_idx sel = Some idx" "length head = 32 * unat idx"
    and "2 \<le> length path" "length path \<le> 10"
    and "length (encode_path_call sel head between path rest) < 2 ^ 63"
  shows "decode_v2_swap_path (encode_path_call sel head between path rest) = Some (Some path)"
proof -
  let ?data = "encode_path_call sel head between path rest"
  note sel = path_word_idx_cases [OF assms(1)]
  have len: "length (concat (map address_word path)) = 32 * length path" by (induction path) auto
  have total: "length ?data = 4 + length head + 32 + length between + 32 + 32 * length path + length rest"
    using sel(1) by (simp add: encode_path_call_def len)
  then have bound: "4 + length head + 32 + length between + 32 + 32 * length path + length rest < 2 ^ 63"
    using assms(5) by simp
  have size: "unat (len_of ?data) = length ?data" using assms(5) by (intro len_of_eq) simp
  have take4: "take 4 ?data = sel" using sel(1) by (simp add: encode_path_call_def)
  have "unat (idx * 32) = length head" using sel(2) assms(2) by auto
  then have start: "unat (4 + idx * 32) = 4 + length head" using bound by (simp add: unat_add_exact)
  then have start32: "unat (4 + idx * 32 + 32) = 4 + length head + 32"
    using bound unat_add_exact [of "4 + idx * 32" "32 :: u64"] by simp
  let ?offset = "of_nat (length head + 32 + length between) :: u64"
  have "read_usize ?data (4 + idx * 32) = Some (ucast (of_nat (length head + 32 + length between) :: u256))"
    using read_usize_mid [of "4 + idx * 32" "sel @ head"] start sel(1) bound by (simp add: encode_path_call_def)
  then have offset: "read_usize ?data (4 + idx * 32) = Some ?offset" by (simp only: ucast_of_nat_u256)
  have "unat ?offset = length head + 32 + length between" using bound by (intro unat_of_nat_small) simp
  then have arr: "unat (4 + ?offset) = 4 + (length head + 32 + length between)"
    using bound unat_add_exact [of 4 ?offset] by simp
  then have arr32: "unat (4 + ?offset + 32) = 4 + (length head + 32 + length between) + 32"
    using bound unat_add_exact [of "4 + ?offset" 32] by simp
  let ?pre = "sel @ head @ be_bytes 32 (of_nat (length head + 32 + length between) :: u256) @ between"
  have "read_usize ?data (4 + ?offset) = Some (ucast (of_nat (length path) :: u256))"
    using read_usize_mid [of "4 + ?offset" ?pre] arr sel(1) bound by (simp add: encode_path_call_def)
  then have n: "read_usize ?data (4 + ?offset) = Some (of_nat (length path))" by simp
  have n_nat: "unat (of_nat (length path) :: u64) = length path" using assms(4) by (intro unat_of_nat_small) simp
  then have n_ok: "\<not> ((of_nat (length path) :: u64) < 2 \<or> 10 < (of_nat (length path) :: u64))"
    using assms(3,4) by (simp add: word_less_nat_alt)
  have "unat (of_nat (length path) * 32 :: u64) = length path * 32" using n_nat assms(4) by (simp add: unat_mult_exact)
  then have fits: "unat (4 + ?offset + 32 + of_nat (length path) * 32) = 4 + (length head + 32 + length between) + 32 + length path * 32"
    using arr32 bound unat_add_exact [of "4 + ?offset + 32" "of_nat (length path) * 32"] by simp
  have "read_addrs ?data (4 + ?offset + 32) 0 (length path) = Some (Some path)"
    using read_addrs_encoded [of "?pre @ be_bytes 32 (of_nat (length path) :: u256)" path rest "4 + ?offset + 32"]
      arr32 sel(1) assms(5) by (simp add: encode_path_call_def)
  moreover have "\<not> len_of ?data < 4" "\<not> len_of ?data < 4 + idx * 32 + 32" "\<not> len_of ?data < 4 + ?offset + 32"
    "\<not> len_of ?data < 4 + ?offset + 32 + of_nat (length path) * 32"
    unfolding word_less_nat_alt size total start32 arr32 fits by simp_all
  ultimately show ?thesis
    using offset n n_ok by (simp add: decode_v2_swap_path_def take4 assms(1) n_nat Let_def del: of_nat_add)
qed

text \<open>
  V2 calldata round trip: for each of the six V2 router functions, any other arguments and any path
  of two to ten tokens, the decoder returns the encoded path.
\<close>

lemma decode_any_encoded:
  assumes "path_word_idx sel = Some idx" "length head = 32 * unat idx"
    and "2 \<le> length path" "length path \<le> 10"
    and "length (encode_path_call sel head between path rest) < 2 ^ 63"
  shows "decode_any_swap (encode_path_call sel head between path rest) = Some (Some path)"
proof -
  let ?data = "encode_path_call sel head between path rest"
  have "take 4 ?data = sel" using path_word_idx_cases(1) [OF assms(1)] by (simp add: encode_path_call_def)
  moreover have "\<not> len_of ?data < 4"
    using assms(5) path_word_idx_cases(1) [OF assms(1)] len_of_eq [of ?data]
    by (simp add: word_less_nat_alt) (simp add: encode_path_call_def)
  ultimately show ?thesis using decode_v2_encoded [OF assms] assms(1) by (simp add: decode_any_swap_def)
qed


section \<open>Crafted offsets\<close>

lemma slice_total: "unat a \<le> unat b \<Longrightarrow> unat b \<le> length xs \<Longrightarrow> \<exists>ys. slice xs a b = Some ys"
  by (simp add: slice_def word_le_nat_alt)

lemma read_usize_total:
  assumes "unat a + 32 \<le> length calldata" "length calldata < 2 ^ 64"
  shows "\<exists>v. read_usize calldata a = Some v"
proof -
  have "unat (a + 32) = unat a + 32" using assms by (simp add: unat_add_exact)
  then show ?thesis using slice_total [of a "a + 32" calldata] assms by (auto simp: read_usize_def)
qed

lemma read_address_total:
  assumes "unat a + 20 \<le> length calldata" "length calldata < 2 ^ 64"
  shows "\<exists>v. read_address calldata a = Some v"
proof -
  have "unat (a + 20) = unat a + 20" using assms by (simp add: unat_add_exact)
  then show ?thesis using slice_total [of a "a + 20" calldata] assms by (auto simp: read_address_def)
qed

text \<open>A start in the last 32 positions of the address space: the end wraps below the start.\<close>

lemma unat_add_wraps:
  "2 ^ LENGTH('a) \<le> unat (a :: 'a::len word) + unat b \<Longrightarrow> unat (a + b) = unat a + unat b - 2 ^ LENGTH('a)"
proof -
  assume le: "2 ^ LENGTH('a) \<le> unat a + unat b"
  have "unat a + unat b - 2 ^ LENGTH('a) < 2 ^ LENGTH('a)" using unat_less [of a] unat_less [of b] by linarith
  then show ?thesis using le by (simp add: unat_word_ariths(1) le_mod_geq)
qed

lemma read_usize_wraps:
  assumes "2 ^ 64 - 32 \<le> unat a"
  shows "read_usize calldata a = None" "unat (a + 32) < 32"
proof -
  have "unat (a + 32) = unat a + 32 - 2 ^ 64" using assms unat_add_wraps [of a "32 :: u64"] by simp
  then show "read_usize calldata a = None" "unat (a + 32) < 32"
    using assms unat_less [of a] by (auto simp: read_usize_def slice_def word_le_nat_alt)
qed

lemma read_addrs_total:
  assumes "unat data_start + 32 * (unat i + n) \<le> 2 ^ 63" "length calldata < 2 ^ 63"
  shows "read_addrs calldata data_start i n \<noteq> None"
  using assms
proof (induction n arbitrary: i)
  case (Suc n)
  let ?start = "data_start + i * 32 + 12"
  have "unat (i * 32) = unat i * 32" using Suc.prems by (simp add: unat_mult_exact)
  then have "unat (data_start + i * 32) = unat data_start + unat i * 32" using Suc.prems by (simp add: unat_add_exact)
  then have s: "unat ?start = unat data_start + unat i * 32 + 12"
    using Suc.prems unat_add_exact [of "data_start + i * 32" "12 :: u64"] by simp
  then have e: "unat (?start + 20) = unat data_start + unat i * 32 + 32"
    using Suc.prems unat_add_exact [of ?start "20 :: u64"] by simp
  have i: "unat (i + 1) = unat i + 1" using Suc.prems by (simp add: unat_add_exact)
  have rest: "read_addrs calldata data_start (i + 1) n \<noteq> None" using Suc.prems i by (intro Suc.IH) simp_all
  show ?case
  proof (cases "len_of calldata < ?start + 20")
    case True
    then show ?thesis by (simp add: Let_def)
  next
    case False
    then have "unat ?start + 20 \<le> length calldata"
      using s e len_of_eq [of calldata] Suc.prems(2) by (simp add: not_less word_le_nat_alt)
    then obtain v where "read_address calldata ?start = Some v"
      using read_address_total [of ?start calldata] Suc.prems(2) by auto
    then show ?thesis using False rest by (auto simp: Let_def)
  qed
qed simp

definition v2_offset :: "u8 list \<Rightarrow> u64 option" where
  "v2_offset calldata =
    (case path_word_idx (take 4 calldata) of
       None \<Rightarrow> None
     | Some idx \<Rightarrow> if length calldata < 36 + 32 * unat idx then None else read_usize calldata (4 + idx * 32))"

lemma v2_offset_None:
  assumes "length calldata < 2 ^ 63" "v2_offset calldata = None"
  shows "decode_v2_swap_path calldata = Some None"
proof (cases "path_word_idx (take 4 calldata)")
  case None
  then show ?thesis by (simp add: decode_v2_swap_path_def)
next
  case (Some idx)
  note sel = path_word_idx_cases(2) [OF Some]
  have start: "unat (4 + idx * 32) = 4 + 32 * unat idx" "unat (4 + idx * 32 + 32) = 36 + 32 * unat idx" using sel by auto
  have "length calldata < 36 + 32 * unat idx"
  proof (rule ccontr)
    assume "\<not> length calldata < 36 + 32 * unat idx"
    then show False using assms read_usize_total [of "4 + idx * 32" calldata] Some start by (auto simp: v2_offset_def)
  qed
  then have "len_of calldata < 4 + idx * 32 + 32"
    using assms(1) start len_of_eq [of calldata] by (simp add: word_less_nat_alt)
  then show ?thesis using Some by (simp add: decode_v2_swap_path_def)
qed

lemma v2_offset_Some:
  assumes "length calldata < 2 ^ 63" "v2_offset calldata = Some offset"
  shows "decode_v2_swap_path calldata =
    (let array_start = 4 + offset in
     if len_of calldata < array_start + 32 then Some None
     else do {
       path_len \<leftarrow> read_usize calldata array_start;
       if path_len < 2 \<or> 10 < path_len then Some None
       else let data_start = array_start + 32
            in if len_of calldata < data_start + path_len * 32 then Some None
               else read_addrs calldata data_start 0 (unat path_len)
     })" "100 \<le> length calldata \<or> 68 \<le> length calldata"
proof -
  from assms(2) obtain idx where idx: "path_word_idx (take 4 calldata) = Some idx" "36 + 32 * unat idx \<le> length calldata"
    "read_usize calldata (4 + idx * 32) = Some offset"
    by (auto simp: v2_offset_def not_less split: option.splits if_splits)
  note sel = path_word_idx_cases(2) [OF idx(1)]
  then show "100 \<le> length calldata \<or> 68 \<le> length calldata" using idx(2) by auto
  have size: "unat (len_of calldata) = length calldata" using assms(1) by (intro len_of_eq) simp
  have start: "unat (4 + idx * 32 + 32) = 36 + 32 * unat idx" using sel by auto
  have "\<not> len_of calldata < 4" "\<not> len_of calldata < 4 + idx * 32 + 32"
    unfolding word_less_nat_alt size start using idx(2) by simp_all
  then show "decode_v2_swap_path calldata =
    (let array_start = 4 + offset in
     if len_of calldata < array_start + 32 then Some None
     else do {
       path_len \<leftarrow> read_usize calldata array_start;
       if path_len < 2 \<or> 10 < path_len then Some None
       else let data_start = array_start + 32
            in if len_of calldata < data_start + path_len * 32 then Some None
               else read_addrs calldata data_start 0 (unat path_len)
     })"
    using idx by (simp add: decode_v2_swap_path_def Let_def)
qed

text \<open>
  C33. The V2 decoder panics exactly on the offsets from \<open>2 ^ 64 - 36\<close> below \<open>2 ^ 64 - 4\<close>, which a sender
  of a pending transaction is free to write: the end of the length word wraps below its start. Every
  other calldata is decoded or rejected.
\<close>

theorem v2_decoder_panics_iff:
  assumes "length calldata < 2 ^ 63"
  shows "decode_v2_swap_path calldata = None \<longleftrightarrow>
         (\<exists>offset. v2_offset calldata = Some offset \<and> 2 ^ 64 - 36 \<le> unat offset \<and> unat offset < 2 ^ 64 - 4)"
proof (cases "v2_offset calldata")
  case None
  then show ?thesis using v2_offset_None [OF assms None] by simp
next
  case (Some offset)
  note eq = v2_offset_Some [OF assms Some]
  have size: "unat (len_of calldata) = length calldata" using assms by (intro len_of_eq) simp
  let ?arr = "4 + offset"
  have arr: "unat ?arr = (if unat offset < 2 ^ 64 - 4 then unat offset + 4 else unat offset + 4 - 2 ^ 64)"
    using unat_add_exact [of 4 offset] unat_add_wraps [of 4 offset] by (simp add: not_less)
  have off: "unat offset < 2 ^ 64" using unat_less [of offset] by simp
  show ?thesis
  proof (cases "2 ^ 64 - 32 \<le> unat ?arr")
    case True
    then have "\<not> len_of calldata < ?arr + 32"
      using read_usize_wraps(2) [OF True] eq(2) unfolding word_less_nat_alt size by auto
    then have "decode_v2_swap_path calldata = None" using eq(1) read_usize_wraps(1) [OF True] by (simp add: Let_def)
    moreover have "2 ^ 64 - 36 \<le> unat offset \<and> unat offset < 2 ^ 64 - 4" using True arr off by (auto split: if_splits)
    ultimately show ?thesis using Some by simp
  next
    case False
    then have arr32: "unat (?arr + 32) = unat ?arr + 32" using unat_add_exact [of ?arr "32 :: u64"] by simp
    have "decode_v2_swap_path calldata \<noteq> None"
    proof (cases "len_of calldata < ?arr + 32")
      case False
      then have fits: "unat ?arr + 32 \<le> length calldata" unfolding word_less_nat_alt size arr32 by simp
      then obtain n where n: "read_usize calldata ?arr = Some n" using read_usize_total [of ?arr calldata] assms by auto
      have "read_addrs calldata (?arr + 32) 0 (unat n) \<noteq> None"
        if "\<not> (n < 2 \<or> 10 < n)" "\<not> len_of calldata < ?arr + 32 + n * 32"
      proof -
        have n10: "unat n \<le> 10" using that(1) by (simp add: not_less word_le_nat_alt)
        then have "unat (n * 32) = unat n * 32" by (simp add: unat_mult_exact)
        then have "unat (?arr + 32 + n * 32) = unat ?arr + 32 + unat n * 32"
          using unat_add_exact [of "?arr + 32" "n * 32"] arr32 fits assms n10 by simp
        then have "unat ?arr + 32 + unat n * 32 \<le> length calldata" using that(2) unfolding word_less_nat_alt size by simp
        then show ?thesis using arr32 assms by (intro read_addrs_total) simp_all
      qed
      then show ?thesis using eq(1) n False by (simp add: Let_def)
    qed (simp add: eq(1) Let_def)
    moreover have "\<not> (2 ^ 64 - 36 \<le> unat offset \<and> unat offset < 2 ^ 64 - 4)" using False arr off by auto
    ultimately show ?thesis unfolding Some by blast
  qed
qed


definition crafted_call :: "u8 list" where
  "crafted_call = SWAP_EXACT_ETH_FOR_TOKENS @ replicate 32 0 @ be_bytes 32 (2 ^ 64 - 36 :: u256)"

lemma crafted_offset: "v2_offset crafted_call = Some (2 ^ 64 - 36)"
proof -
  have "path_word_idx (take 4 crafted_call) = Some 1"
    by (simp add: crafted_call_def path_word_idx_def selector_defs)
  moreover have "read_usize crafted_call 36 = Some (2 ^ 64 - 36)"
    using read_usize_mid [of 36 "SWAP_EXACT_ETH_FOR_TOKENS @ replicate 32 0" "2 ^ 64 - 36" "[]"]
    by (simp add: crafted_call_def SWAP_EXACT_ETH_FOR_TOKENS_def)
  moreover have "length crafted_call = 68" by (simp add: crafted_call_def SWAP_EXACT_ETH_FOR_TOKENS_def)
  ultimately show ?thesis by (simp add: v2_offset_def)
qed

theorem v2_decoder_panics_iff_witness: "decode_v2_swap_path crafted_call = None"
proof -
  have "length crafted_call < 2 ^ 63" by (simp add: crafted_call_def SWAP_EXACT_ETH_FOR_TOKENS_def)
  from v2_decoder_panics_iff [OF this] show ?thesis by (simp add: crafted_offset)
qed

section \<open>V3 paths\<close>

text \<open>The packed path: an address, then per hop three bytes of fee and an address.\<close>

definition pack_path :: "address \<Rightarrow> (u8 list \<times> address) list \<Rightarrow> u8 list" where
  "pack_path a hops = be_bytes 20 a @ concat (map (\<lambda>(fee, b). fee @ be_bytes 20 b) hops)"

lemma v3_hops_packed:
  assumes "\<forall>(fee, b) \<in> set hops. length fee = 3"
  shows "v3_hops (concat (map (\<lambda>(fee, b). fee @ be_bytes 20 b) hops)) = map snd hops"
  using assms
proof (induction hops)
  case (Cons h hops)
  then show ?case
    by (cases h) (simp add: v3_hops.simps [of "_ @ _"] from_be_bytes_be_bytes del: concat.simps(1))
qed (simp add: v3_hops.simps)

text \<open>Round trip of packed V3 paths: the decoder returns the tokens of every packed path with a hop.\<close>

lemma v3_path_roundtrip:
  assumes "\<forall>(fee, b) \<in> set hops. length fee = 3" "hops \<noteq> []"
  shows "decode_v3_path_bytes (pack_path a hops) = Some (a # map snd hops)"
proof -
  obtain h rest where "hops = h # rest" using assms(2) by (cases hops) auto
  then have "43 \<le> length (pack_path a hops)" using assms(1) by (cases h) (simp add: pack_path_def)
  moreover have "take 20 (pack_path a hops) = be_bytes 20 a"
    "drop 20 (pack_path a hops) = concat (map (\<lambda>(fee, b). fee @ be_bytes 20 b) hops)" by (simp_all add: pack_path_def)
  ultimately show ?thesis
    using v3_hops_packed [OF assms(1)] assms(2)
    by (simp add: decode_v3_path_bytes_def from_be_bytes_be_bytes Suc_le_eq)
qed

text \<open>
  The ABI encoding of \<open>exactInput\<close> and \<open>exactOutput\<close>. Their argument is a tuple with a dynamic member, so
  the parameters start with the offset 32 of the tuple; the tuple holds the offset 160 of the path, the
  four other members and the path.
\<close>

definition encode_exact_input :: "selector \<Rightarrow> u8 list \<Rightarrow> u8 list \<Rightarrow> u8 list \<Rightarrow> u8 list" where
  "encode_exact_input sel members path rest =
    sel @ be_bytes 32 (32 :: u256) @ be_bytes 32 (160 :: u256) @ members @
    be_bytes 32 (of_nat (length path) :: u256) @ path @ rest"

text \<open>
  On the ABI encoding of \<open>exactInput\<close> and \<open>exactOutput\<close> the decoder never looks at the path. It takes
  the tuple for the path: its tokens are cut out of the recipient, the deadline, the amounts and the
  length word.
\<close>

lemma exact_input_misread:
  assumes "is_v3_multi sel" "length members = 128" "length (encode_exact_input sel members path rest) < 2 ^ 63"
  shows "decode_any_swap (encode_exact_input sel members path rest)
         = Some (decode_v3_path_bytes (members @ be_bytes 32 (of_nat (length path) :: u256)))"
proof -
  let ?data = "encode_exact_input sel members path rest"
  let ?len = "be_bytes 32 (of_nat (length path) :: u256)"
  have "sel = EXACT_INPUT \<or> sel = EXACT_OUTPUT" using assms(1) by (simp add: is_v3_multi_def)
  then have sel: "length sel = 4" "path_word_idx sel = None" "\<not> is_v3_single sel"
    by (elim disjE; simp add: is_v3_single_def path_word_idx_def selector_defs)+
  have size: "unat (len_of ?data) = length ?data" using assms(3) by (intro len_of_eq) simp
  have long: "228 \<le> length ?data" using sel(1) assms(2) by (simp add: encode_exact_input_def)
  have take4: "take 4 ?data = sel" using sel(1) by (simp add: encode_exact_input_def)
  have "read_usize ?data 4 = Some 32"
    using read_usize_mid [of 4 sel 32] sel(1) by (simp add: encode_exact_input_def)
  moreover have "read_usize ?data 36 = Some 160"
    using read_usize_mid [of 36 "sel @ be_bytes 32 (32 :: u256)" 160] sel(1) by (simp add: encode_exact_input_def)
  moreover have "slice ?data 68 228 = Some (members @ ?len)"
    using slice_mid [of 68 "sel @ be_bytes 32 (32 :: u256) @ be_bytes 32 (160 :: u256)" 228 "members @ ?len" "path @ rest"]
      sel(1) assms(2) by (simp add: encode_exact_input_def)
  moreover have "\<not> len_of ?data < 4" "\<not> len_of ?data < 36" "\<not> len_of ?data < 68" "\<not> len_of ?data < 228"
    unfolding word_less_nat_alt size using long by simp_all
  ultimately show ?thesis
    using assms(1) sel(2,3) by (simp add: decode_any_swap_def take4 decode_v3_multi_swap_def)
qed

section \<open>The touched pools\<close>

lemma distinct_remdups_adj_sorted: "sorted xs \<Longrightarrow> distinct (remdups_adj xs)"
proof (induction xs rule: remdups_adj.induct)
  case (3 x y xs)
  then show ?case by (cases "x = y") (auto simp: order_antisym)
qed simp_all

lemma remdups_adj_sort: "remdups_adj (sort xs) = sorted_list_of_set (set xs)"
  by (rule sorted_distinct_set_unique) (simp_all add: distinct_remdups_adj_sorted)

lemma canonical_pair_eq: "canonical_pair a b = canonical_pair c d \<longleftrightarrow> {a, b} = {c, d}"
  by (auto simp: canonical_pair_def doubleton_eq_iff)

lemma fold_push_pair:
  "fold push_pair metas m key =
    (let new = map pm_address (filter (\<lambda>p. canonical_pair (pm_token0 p) (pm_token1 p) = key) metas)
     in if new = [] then m key else Some ((case m key of None \<Rightarrow> [] | Some pools \<Rightarrow> pools) @ new))"
  by (induction metas arbitrary: m) (auto simp: push_pair_def Let_def)

text \<open>The pools of a pair of tokens.\<close>

definition pools_of_pair :: "pool_meta list \<Rightarrow> address \<Rightarrow> address \<Rightarrow> address set" where
  "pools_of_pair metas a b = pm_address ` {p \<in> set metas. {pm_token0 p, pm_token1 p} = {a, b}}"

lemma build_token_pair_lookup_eq:
  "build_token_pair_lookup metas (canonical_pair a b) =
    (if pools_of_pair metas a b = {} then None else Some (sorted_list_of_set (pools_of_pair metas a b)))"
proof -
  let ?new = "filter (\<lambda>p. canonical_pair (pm_token0 p) (pm_token1 p) = canonical_pair a b) metas"
  have "set (map pm_address ?new) = pools_of_pair metas a b"
    by (simp add: pools_of_pair_def canonical_pair_eq)
  moreover have "map pm_address ?new = [] \<longleftrightarrow> pools_of_pair metas a b = {}"
    unfolding calculation [symmetric] by (auto simp: filter_empty_conv)
  ultimately show ?thesis
    by (simp add: build_token_pair_lookup_def fold_push_pair remdups_adj_sort)
qed

lemma finite_pools_of_pair [simp]: "finite (pools_of_pair metas a b)"
  by (simp add: pools_of_pair_def)

lemma pools_of_pair_single:
  "pools_of_pair [p] a b = (if {pm_token0 p, pm_token1 p} = {a, b} then {pm_address p} else {})"
  by (auto simp: pools_of_pair_def)

text \<open>The pools between consecutive tokens of a path.\<close>

definition pools_along :: "pool_meta list \<Rightarrow> address list \<Rightarrow> address set" where
  "pools_along metas path = (\<Union>(a, b) \<in> set (zip path (tl path)). pools_of_pair metas a b)"

lemma set_affected_pools:
  "set (affected_pools (build_token_pair_lookup metas) path) = pools_along metas path"
  by (induction "build_token_pair_lookup metas" path rule: affected_pools.induct)
    (auto simp: pools_along_def build_token_pair_lookup_eq)

text \<open>
  C32. A pending V2 swap touches exactly the pools along its path: for a call of a known router with the
  encoded path and the lookup built from the pools, the listener sends the pools between consecutive
  tokens, each once and in order, with block 0, and sends nothing when there are none.
\<close>

theorem pending_swap_touches_path:
  assumes "mc_token_pair_to_pool config = build_token_pair_lookup metas"
    and "px_to tx = Some router" "router \<in> mc_router_addresses config"
    and "px_input tx = encode_path_call sel head between path rest"
    and "path_word_idx sel = Some idx" "length head = 32 * unat idx"
    and "2 \<le> length path" "length path \<le> 10"
    and "length (px_input tx) < 2 ^ 63"
  shows "\<exists>st'. mempool_step config tx st =
           Some (if pools_along metas path = {} then None
                 else Some \<lparr> pt_block_number = 0, pt_touched_pools = sorted_list_of_set (pools_along metas path) \<rparr>, st') \<and>
         ms_total_seen st' = ms_total_seen st + 1 \<and> ms_dex_swaps st' = ms_dex_swaps st + 1"
proof -
  have dec: "decode_any_swap (px_input tx) = Some (Some path)"
    using decode_any_encoded [OF assms(5-8)] assms(4,9) by simp
  let ?pools = "affected_pools (build_token_pair_lookup metas) path"
  have "?pools = [] \<longleftrightarrow> pools_along metas path = {}" using set_affected_pools [of metas path] by (metis set_empty)
  then show ?thesis
    using assms(1-3) dec by (simp add: mempool_step_def remdups_adj_sort set_affected_pools Let_def)
qed

definition sample_metas :: "pool_meta list" where
  "sample_metas =
    [\<lparr> pm_address = 11, pm_token0 = 2, pm_token1 = 1, pm_decimals0 = 18, pm_decimals1 = 18, pm_is_v3 = False,
       pm_fee = 30, pm_tick_spacing = 0, pm_protocol = UniswapV2 \<rparr>]"

theorem pending_swap_touches_path_witness:
  "\<exists>st'. mempool_step
      \<lparr> mc_router_addresses = {5}, mc_token_pair_to_pool = build_token_pair_lookup sample_metas \<rparr>
      \<lparr> px_to = Some 5, px_input = encode_path_call SWAP_EXACT_ETH_FOR_TOKENS (replicate 32 0) [] [1, 2, 3] [] \<rparr>
      \<lparr> ms_total_seen = 0, ms_dex_swaps = 0, ms_pools_forwarded = 0 \<rparr>
    = Some (Some \<lparr> pt_block_number = 0, pt_touched_pools = [11] \<rparr>, st')"
proof -
  have along: "pools_along sample_metas [1, 2, 3] = {11}"
  proof -
    have "pools_of_pair sample_metas 1 2 = {11}" "pools_of_pair sample_metas 2 3 = {}"
      by (simp_all add: sample_metas_def pools_of_pair_single doubleton_eq_iff)
    then show ?thesis by (simp add: pools_along_def)
  qed
  let ?config = "\<lparr> mc_router_addresses = {5}, mc_token_pair_to_pool = build_token_pair_lookup sample_metas \<rparr>"
  let ?input = "encode_path_call SWAP_EXACT_ETH_FOR_TOKENS (replicate 32 0) [] [1, 2, 3] []"
  let ?st = "\<lparr> ms_total_seen = 0, ms_dex_swaps = 0, ms_pools_forwarded = 0 \<rparr>"
  have sel: "path_word_idx SWAP_EXACT_ETH_FOR_TOKENS = Some 1" by (simp add: path_word_idx_def selector_defs)
  have len: "length ?input < 2 ^ 63" by (simp add: encode_path_call_def SWAP_EXACT_ETH_FOR_TOKENS_def)
  have "\<exists>st'. mempool_step ?config \<lparr> px_to = Some 5, px_input = ?input \<rparr> ?st =
      Some (if pools_along sample_metas [1, 2, 3] = {} then None
            else Some \<lparr> pt_block_number = 0, pt_touched_pools = sorted_list_of_set (pools_along sample_metas [1, 2, 3]) \<rparr>, st') \<and>
      ms_total_seen st' = ms_total_seen ?st + 1 \<and> ms_dex_swaps st' = ms_dex_swaps ?st + 1"
    by (rule pending_swap_touches_path [OF _ _ _ _ sel]) (simp, simp, simp, simp, simp, simp, simp, use len in simp)
  then show ?thesis unfolding along by auto
qed

end
