(* ===== verification/BlockStream.thy ===== *)
theory BlockStream
  imports ArbPrelude PipelineEvents
begin

text \<open>
  \<open>src/block_stream.rs\<close>: the streams of new blocks. The WebSocket endpoints are parameters: what they do
  is a sequence of events, interleaved over the endpoints in any order, and the answers of the
  broadcast channel are given. The dedup state is shared by all endpoints under a lock.
\<close>

section \<open>Deduplication\<close>

definition DEDUP_WINDOW :: nat where
  "DEDUP_WINDOW = 64"

record block_dedup =
  bd_seen :: "u64 set"
  bd_ring :: "u64 list"
  bd_head :: nat

definition dedup_new :: block_dedup where
  "dedup_new = \<lparr> bd_seen = {}, bd_ring = replicate DEDUP_WINDOW 0, bd_head = 0 \<rparr>"

definition dedup_try_insert :: "u64 \<Rightarrow> block_dedup \<Rightarrow> bool \<times> block_dedup" where
  "dedup_try_insert block_number dd =
    (if block_number \<in> bd_seen dd then (False, dd)
     else
       let seen = insert block_number (bd_seen dd);
           evicted = bd_ring dd ! bd_head dd;
           seen = (if evicted \<noteq> 0 then seen - {evicted} else seen)
       in (True, \<lparr> bd_seen = seen, bd_ring = (bd_ring dd)[bd_head dd := block_number],
                   bd_head = (bd_head dd + 1) mod DEDUP_WINDOW \<rparr>))"

section \<open>Endpoints\<close>

record block_header =
  bh_number :: u64
  bh_base_fee_per_gas :: "u128 option"
  bh_gas_used :: u128
  bh_gas_limit :: u128
  bh_timestamp :: u64

definition new_block_event :: "block_header \<Rightarrow> pipeline_event" where
  "new_block_event h =
    NewBlock (bh_number h) (ucast (case bh_base_fee_per_gas h of None \<Rightarrow> 0 | Some f \<Rightarrow> f))
      (ucast (bh_gas_used h)) (ucast (bh_gas_limit h)) (bh_timestamp h)"

text \<open>The single stream: the headers of a subscription; \<open>open_until\<close> sends find a receiver.\<close>

fun stream_new_blocks :: "nat \<Rightarrow> block_header list \<Rightarrow> pipeline_event list" where
  "stream_new_blocks open_until [] = []"
| "stream_new_blocks open_until (h # hs) =
    (if open_until = 0 then [] else new_block_event h # stream_new_blocks (open_until - 1) hs)"

definition INITIAL_BACKOFF_MS :: u64 where
  "INITIAL_BACKOFF_MS = 500"

definition MAX_BACKOFF_MS :: u64 where
  "MAX_BACKOFF_MS = 30000"

text \<open>
  What happens at an endpoint. A header comes with the answer of the broadcast channel to a send: whether
  there was a receiver.
\<close>

datatype gossip_event =
    Connect_Failed nat
  | Subscribe_Failed nat
  | Subscribed nat
  | Header nat block_header bool
  | Stream_Ended nat

text \<open>
  The backoff of each endpoint, the endpoints that have returned, the shared dedup state, the sleeps and
  the blocks sent.
\<close>

record gossip_state =
  go_backoff_ms :: "nat \<Rightarrow> u64"
  go_exited :: "nat set"
  go_dedup :: block_dedup
  go_sleeps :: "(nat \<times> u64) list"
  go_sent :: "pipeline_event list"

definition gossip_start :: gossip_state where
  "gossip_start =
    \<lparr> go_backoff_ms = (\<lambda>_. INITIAL_BACKOFF_MS), go_exited = {}, go_dedup = dedup_new, go_sleeps = [], go_sent = [] \<rparr>"

definition back_off :: "nat \<Rightarrow> gossip_state \<Rightarrow> gossip_state" where
  "back_off i st =
    (let backoff_ms = go_backoff_ms st i
     in st\<lparr>go_sleeps := go_sleeps st @ [(i, backoff_ms)],
           go_backoff_ms := (go_backoff_ms st)(i := min (backoff_ms * 2) MAX_BACKOFF_MS)\<rparr>)"

definition receive_header :: "nat \<Rightarrow> block_header \<Rightarrow> bool \<Rightarrow> gossip_state \<Rightarrow> gossip_state" where
  "receive_header i h receivers st =
    (let (is_first, dd) = dedup_try_insert (bh_number h) (go_dedup st);
         st = st\<lparr>go_dedup := dd\<rparr>
     in if \<not> is_first then st
        else if receivers then st\<lparr>go_sent := go_sent st @ [new_block_event h]\<rparr>
        else st\<lparr>go_exited := insert i (go_exited st)\<rparr>)"

fun endpoint_of :: "gossip_event \<Rightarrow> nat" where
  "endpoint_of (Connect_Failed i) = i"
| "endpoint_of (Subscribe_Failed i) = i"
| "endpoint_of (Subscribed i) = i"
| "endpoint_of (Header i _ _) = i"
| "endpoint_of (Stream_Ended i) = i"

fun gossip_react :: "gossip_event \<Rightarrow> gossip_state \<Rightarrow> gossip_state" where
  "gossip_react (Connect_Failed i) st = back_off i st"
| "gossip_react (Subscribe_Failed i) st = back_off i st"
| "gossip_react (Subscribed i) st = st\<lparr>go_backoff_ms := (go_backoff_ms st)(i := INITIAL_BACKOFF_MS)\<rparr>"
| "gossip_react (Header i h receivers) st = receive_header i h receivers st"
| "gossip_react (Stream_Ended i) st = back_off i st"

text \<open>An endpoint that has returned does nothing any more.\<close>

inductive gossip_step :: "gossip_state \<Rightarrow> gossip_event \<Rightarrow> gossip_state \<Rightarrow> bool" where
  running: "endpoint_of e \<notin> go_exited st \<Longrightarrow> gossip_step st e (gossip_react e st)"

inductive gossip_reaches :: "gossip_state \<Rightarrow> gossip_event list \<Rightarrow> bool" where
  start: "gossip_reaches gossip_start []"
| step: "gossip_reaches st es \<Longrightarrow> gossip_step st e st' \<Longrightarrow> gossip_reaches st' (es @ [e])"

inductive_cases gossip_stepE: "gossip_step st e st'"

section \<open>The dedup state is a window of the last blocks\<close>

text \<open>The ring read from its oldest entry on.\<close>

definition window :: "block_dedup \<Rightarrow> u64 list" where
  "window dd = drop (bd_head dd) (bd_ring dd) @ take (bd_head dd) (bd_ring dd)"

definition dedup_inv :: "block_dedup \<Rightarrow> bool" where
  "dedup_inv dd \<longleftrightarrow>
     length (bd_ring dd) = DEDUP_WINDOW \<and> bd_head dd < DEDUP_WINDOW \<and>
     bd_seen dd - {0} = set (window dd) - {0} \<and>
     distinct (filter (\<lambda>b. b \<noteq> 0) (window dd))"

lemma window_insert:
  assumes "length ring = n" "h < n"
  shows "drop ((h + 1) mod n) (ring[h := b]) @ take ((h + 1) mod n) (ring[h := b])
         = tl (drop h ring @ take h ring) @ [b]"
proof -
  have d: "drop h ring = ring ! h # drop (Suc h) ring" using assms by (simp add: Cons_nth_drop_Suc)
  have t: "take (Suc h) (ring[h := b]) = take h ring @ [b]" using assms by (simp add: take_Suc_conv_app_nth)
  show ?thesis
  proof (cases "Suc h = n")
    case True
    then show ?thesis using assms d t by simp
  next
    case False
    then have "(h + 1) mod n = Suc h" using assms by simp
    then show ?thesis using d t by simp
  qed
qed

lemma dedup_new_inv: "dedup_inv dedup_new"
  by (simp add: dedup_inv_def dedup_new_def window_def DEDUP_WINDOW_def)

lemma try_insert_window:
  assumes "dedup_inv dd" "dedup_try_insert b dd = (True, dd')"
  shows "b \<notin> bd_seen dd \<and> window dd' = tl (window dd) @ [b] \<and> dedup_inv dd'"
proof -
  obtain x rest where w: "window dd = x # rest" using assms(1)
    by (cases "window dd") (auto simp: dedup_inv_def window_def DEDUP_WINDOW_def)
  have hd: "bd_ring dd ! bd_head dd = x"
    using assms(1) w by (auto simp: dedup_inv_def window_def Cons_nth_drop_Suc [symmetric])
  have new: "b \<notin> bd_seen dd" using assms(2) by (auto simp: dedup_try_insert_def split: if_splits)
  have dd': "dd' = \<lparr> bd_seen = (if x \<noteq> 0 then insert b (bd_seen dd) - {x} else insert b (bd_seen dd)),
                     bd_ring = (bd_ring dd)[bd_head dd := b], bd_head = (bd_head dd + 1) mod DEDUP_WINDOW \<rparr>"
    using assms(2) new by (simp add: dedup_try_insert_def Let_def hd split: if_splits)
  have "window dd' = tl (window dd) @ [b]"
    using window_insert [of "bd_ring dd" DEDUP_WINDOW "bd_head dd" b] assms(1)
    by (simp add: dd' window_def dedup_inv_def)
  then have win: "window dd' = rest @ [b]" using w by simp
  have "bd_seen dd' - {0} = set (rest @ [b]) - {0}" "distinct (filter (\<lambda>b. b \<noteq> 0) (rest @ [b]))"
    using assms(1) new w by (auto simp: dd' dedup_inv_def split: if_splits)
  then show ?thesis using assms(1) new w win by (simp add: dedup_inv_def dd' DEDUP_WINDOW_def)
qed


lemma seen_iff: "dedup_inv dd \<Longrightarrow> b \<noteq> 0 \<Longrightarrow> b \<in> bd_seen dd \<longleftrightarrow> b \<in> set (window dd)"
  unfolding dedup_inv_def by blast

text \<open>The headers that pass the dedup, and the headers of a history.\<close>

fun first_deliveries :: "block_header list \<Rightarrow> block_dedup \<Rightarrow> block_header list" where
  "first_deliveries [] dd = []"
| "first_deliveries (h # hs) dd =
    (case dedup_try_insert (bh_number h) dd of
       (True, dd) \<Rightarrow> h # first_deliveries hs dd
     | (False, dd) \<Rightarrow> first_deliveries hs dd)"

text \<open>
  \<open>dd\<close> remembers the history \<open>hist\<close> of accepted blocks: its window is the end of the padded history,
  and block 0, which is also the mark of an empty entry, is remembered for good.
\<close>

definition remembers :: "block_dedup \<Rightarrow> u64 list \<Rightarrow> bool" where
  "remembers dd hist \<longleftrightarrow>
     dedup_inv dd \<and> window dd = drop (length hist) (replicate DEDUP_WINDOW 0 @ hist) \<and>
     (0 \<in> bd_seen dd \<longleftrightarrow> 0 \<in> set hist)"

lemma remembers_new: "remembers dedup_new []"
  using dedup_new_inv by (simp add: remembers_def dedup_new_def window_def DEDUP_WINDOW_def)

lemma remembers_accept:
  assumes "remembers dd hist" "dedup_try_insert b dd = (True, dd')"
  shows "remembers dd' (hist @ [b])"
proof -
  note t = try_insert_window [of dd b dd']
  have inv: "dedup_inv dd" using assms(1) by (simp add: remembers_def)
  have "tl (drop n L) @ [b] = drop (Suc n) (L @ [b])" if "n < length L" for n and L :: "u64 list"
    using that by (cases L) (simp_all add: tl_drop drop_Suc)
  from this [of "length hist" "replicate DEDUP_WINDOW 0 @ hist"]
  have "tl (drop (length hist) (replicate DEDUP_WINDOW 0 @ hist)) @ [b]
      = drop (length (hist @ [b])) (replicate DEDUP_WINDOW 0 @ hist @ [b])"
    by (simp add: DEDUP_WINDOW_def del: drop_append tl_append2)
  moreover have "0 \<in> bd_seen dd' \<longleftrightarrow> b = 0 \<or> 0 \<in> bd_seen dd"
    using assms(2) by (auto simp: dedup_try_insert_def Let_def split: if_splits)
  ultimately show ?thesis
    using t [OF inv assms(2)] assms(1) by (auto simp: remembers_def)
qed

lemma not_in_recent:
  assumes "remembers dd hist" "b \<notin> bd_seen dd" "length hist < k + DEDUP_WINDOW"
  shows "b \<notin> set (drop k hist)"
proof
  assume b: "b \<in> set (drop k hist)"
  have "set (drop k hist) \<subseteq> set (window dd)"
  proof (cases "length hist \<le> DEDUP_WINDOW")
    case True
    then have "window dd = replicate (DEDUP_WINDOW - length hist) 0 @ hist"
      using assms(1) by (simp add: remembers_def)
    then show ?thesis using set_drop_subset [of k hist] by auto
  next
    case False
    then have "window dd = drop (length hist - DEDUP_WINDOW) hist" using assms(1) by (simp add: remembers_def)
    moreover have "length hist - DEDUP_WINDOW \<le> k" using assms(3) by simp
    ultimately show ?thesis by (simp add: set_drop_subset_set_drop)
  qed
  then have "b \<in> set (window dd)" using b by auto
  then have "b = 0" using assms(1,2) seen_iff by (metis remembers_def)
  then have "0 \<in> set hist" using in_set_dropD [OF b] by simp
  then show False using assms(1,2) \<open>b = 0\<close> by (simp add: remembers_def)
qed

definition windows_distinct :: "u64 list \<Rightarrow> bool" where
  "windows_distinct bs \<longleftrightarrow> (\<forall>k. distinct (take DEDUP_WINDOW (drop k bs)))"

lemma windows_distinct_snoc:
  assumes "windows_distinct hist" "\<And>k. length hist < k + DEDUP_WINDOW \<Longrightarrow> b \<notin> set (drop k hist)"
  shows "windows_distinct (hist @ [b])"
  unfolding windows_distinct_def
proof
  fix k
  show "distinct (take DEDUP_WINDOW (drop k (hist @ [b])))"
  proof (cases "k + DEDUP_WINDOW \<le> length hist")
    case True
    then have "drop k (hist @ [b]) = drop k hist @ [b]" "DEDUP_WINDOW \<le> length (drop k hist)" by simp_all
    then have "take DEDUP_WINDOW (drop k (hist @ [b])) = take DEDUP_WINDOW (drop k hist)" by simp
    moreover have "distinct (take DEDUP_WINDOW (drop k hist))" using assms(1) by (simp add: windows_distinct_def)
    ultimately show ?thesis by (simp only:)
  next
    case False
    have "distinct (take DEDUP_WINDOW (drop k hist))" using assms(1) by (simp add: windows_distinct_def)
    then have "distinct (drop k hist)" using False by simp
    moreover have "b \<notin> set (drop k hist)" using assms(2) False by simp
    ultimately have "distinct (drop k hist @ [b])" by simp
    then have "distinct (drop k (hist @ [b]))" by (cases "k \<le> length hist") simp_all
    then show ?thesis by (rule distinct_take)
  qed
qed

lemma first_deliveries_ok:
  assumes "remembers dd hist" "windows_distinct hist"
  shows "windows_distinct (hist @ map bh_number (first_deliveries hs dd)) \<and>
         set (map bh_number hs) \<subseteq> set (hist @ map bh_number (first_deliveries hs dd)) \<and>
         set (first_deliveries hs dd) \<subseteq> set hs"
  using assms
proof (induction hs arbitrary: dd hist)
  case (Cons h hs)
  obtain first dd' where t: "dedup_try_insert (bh_number h) dd = (first, dd')" by force
  show ?case
  proof (cases first)
    case True
    have new: "bh_number h \<notin> bd_seen dd" using t True by (auto simp: dedup_try_insert_def split: if_splits)
    have "remembers dd' (hist @ [bh_number h])" using remembers_accept [OF Cons.prems(1)] t True by simp
    moreover have "windows_distinct (hist @ [bh_number h])"
      using windows_distinct_snoc [OF Cons.prems(2)] not_in_recent [OF Cons.prems(1) new] by blast
    ultimately show ?thesis using Cons.IH [of dd' "hist @ [bh_number h]"] t True by auto
  next
    case False
    then have same: "dd' = dd" "bh_number h \<in> bd_seen dd"
      using t by (auto simp: dedup_try_insert_def Let_def split: if_splits)
    have "bd_seen dd \<subseteq> set hist"
    proof
      fix x assume x: "x \<in> bd_seen dd"
      show "x \<in> set hist"
      proof (cases "x = 0")
        case True
        then show ?thesis using x Cons.prems(1) by (simp add: remembers_def)
      next
        case False
        then have "x \<in> set (window dd)" using x Cons.prems(1) seen_iff by (simp add: remembers_def)
        then have "x \<in> set (replicate DEDUP_WINDOW 0 @ hist)"
          using Cons.prems(1) unfolding remembers_def by (simp only: in_set_dropD)
        then show ?thesis using False by auto
      qed
    qed
    then have "bh_number h \<in> set hist" using same(2) by blast
    moreover have "first_deliveries (h # hs) dd = first_deliveries hs dd" using t False same(1) by simp
    ultimately show ?thesis using Cons.IH [OF Cons.prems] by (simp add: subset_insertI2)
  qed
qed simp


section \<open>The gossip stream\<close>

text \<open>The headers an event list delivers to a running endpoint, while the channel has receivers.\<close>

fun delivered :: "gossip_event list \<Rightarrow> block_header list" where
  "delivered [] = []"
| "delivered (Header i h receivers # es) = h # delivered es"
| "delivered (e # es) = delivered es"

fun has_receivers :: "gossip_event \<Rightarrow> bool" where
  "has_receivers (Header i h receivers) = receivers"
| "has_receivers e = True"

lemma delivered_append: "delivered (es @ fs) = delivered es @ delivered fs"
  by (induction es rule: delivered.induct) simp_all

text \<open>The dedup state after a list of headers.\<close>

fun dedup_all :: "block_header list \<Rightarrow> block_dedup \<Rightarrow> block_dedup" where
  "dedup_all [] dd = dd"
| "dedup_all (h # hs) dd = dedup_all hs (snd (dedup_try_insert (bh_number h) dd))"

lemma first_deliveries_append:
  "first_deliveries (hs @ gs) dd = first_deliveries hs dd @ first_deliveries gs (dedup_all hs dd)"
  by (induction hs arbitrary: dd) (auto split: prod.splits bool.splits)

lemma dedup_all_append: "dedup_all (hs @ gs) dd = dedup_all gs (dedup_all hs dd)"
  by (induction hs arbitrary: dd) simp_all

definition backoff_ok :: "u64 \<Rightarrow> bool" where
  "backoff_ok ms \<longleftrightarrow> INITIAL_BACKOFF_MS \<le> ms \<and> ms \<le> MAX_BACKOFF_MS"

lemma backoff_ok_doubled: "backoff_ok ms \<Longrightarrow> backoff_ok (min (ms * 2) MAX_BACKOFF_MS)"
proof -
  assume "backoff_ok ms"
  then have b: "500 \<le> unat ms" "unat ms \<le> 30000"
    by (simp_all add: backoff_ok_def INITIAL_BACKOFF_MS_def MAX_BACKOFF_MS_def word_le_nat_alt)
  then have "unat (ms * 2) = unat ms * 2" by (simp add: unat_mult_exact)
  then show "backoff_ok (min (ms * 2) MAX_BACKOFF_MS)"
    using b by (simp add: backoff_ok_def min_def INITIAL_BACKOFF_MS_def MAX_BACKOFF_MS_def word_le_nat_alt)
qed

definition gossip_inv :: "gossip_state \<Rightarrow> gossip_event list \<Rightarrow> bool" where
  "gossip_inv st es \<longleftrightarrow>
     (\<forall>i. backoff_ok (go_backoff_ms st i)) \<and> (\<forall>(i, ms) \<in> set (go_sleeps st). backoff_ok ms) \<and>
     go_dedup st = dedup_all (delivered es) dedup_new \<and>
     (list_all has_receivers es \<longrightarrow>
        go_exited st = {} \<and> go_sent st = map new_block_event (first_deliveries (delivered es) dedup_new))"

lemma back_off_inv:
  assumes "gossip_inv st es" "delivered [e] = []" "has_receivers e"
  shows "gossip_inv (back_off i st) (es @ [e])"
  using assms by (auto simp: gossip_inv_def back_off_def Let_def delivered_append backoff_ok_doubled)

lemma receive_inv:
  assumes "gossip_inv st es"
  shows "gossip_inv (receive_header i h receivers st) (es @ [Header i h receivers])"
proof -
  obtain first dd where t: "dedup_try_insert (bh_number h) (go_dedup st) = (first, dd)" by force
  then show ?thesis
    using assms
    by (cases first; cases receivers)
      (simp_all add: gossip_inv_def receive_header_def delivered_append first_deliveries_append dedup_all_append)
qed

lemma gossip_reaches_inv: "gossip_reaches st es \<Longrightarrow> gossip_inv st es"
proof (induction rule: gossip_reaches.induct)
  case start
  then show ?case
    by (simp add: gossip_inv_def gossip_start_def backoff_ok_def INITIAL_BACKOFF_MS_def MAX_BACKOFF_MS_def)
next
  case (step st es e st')
  from step.hyps(2) have st': "st' = gossip_react e st" by (cases rule: gossip_stepE)
  show ?case
  proof (cases e)
    case (Subscribed i)
    then show ?thesis using step.IH st'
      by (auto simp: gossip_inv_def delivered_append backoff_ok_def INITIAL_BACKOFF_MS_def MAX_BACKOFF_MS_def)
  next
    case (Header i h receivers)
    then show ?thesis using receive_inv [OF step.IH] st' by simp
  qed (use back_off_inv [OF step.IH] st' in simp_all)
qed

text \<open>
  C34. The gossip stream under any interleaving of its endpoints: every backoff and sleep lies between
  500 and 30000 ms, and as long as the channel has receivers no endpoint returns, the blocks sent are
  delivered headers, every delivered block is sent, and no two of any 64 consecutive blocks sent have
  the same number.
\<close>

theorem gossip_stream_dedups:
  assumes "gossip_reaches st es"
  shows "(\<forall>i. 500 \<le> go_backoff_ms st i \<and> go_backoff_ms st i \<le> 30000) \<and>
         (\<forall>(i, ms) \<in> set (go_sleeps st). 500 \<le> ms \<and> ms \<le> 30000) \<and>
         (list_all has_receivers es \<longrightarrow>
            go_exited st = {} \<and>
            (\<exists>sent. go_sent st = map new_block_event sent \<and> set sent \<subseteq> set (delivered es) \<and>
               bh_number ` set (delivered es) \<subseteq> bh_number ` set sent \<and>
               (\<forall>k. distinct (take 64 (drop k (map bh_number sent))))))"
proof -
  let ?sent = "first_deliveries (delivered es) dedup_new"
  have inv: "gossip_inv st es" using assms by (rule gossip_reaches_inv)
  have "windows_distinct []" by (simp add: windows_distinct_def)
  from first_deliveries_ok [OF remembers_new this, of "delivered es"]
  have d: "\<forall>k. distinct (take 64 (drop k (map bh_number ?sent)))" "set ?sent \<subseteq> set (delivered es)"
    "bh_number ` set (delivered es) \<subseteq> bh_number ` set ?sent"
    by (simp_all add: windows_distinct_def DEDUP_WINDOW_def)
  have b: "(\<forall>i. 500 \<le> go_backoff_ms st i \<and> go_backoff_ms st i \<le> 30000) \<and>
      (\<forall>(i, ms) \<in> set (go_sleeps st). 500 \<le> ms \<and> ms \<le> 30000)"
    using inv unfolding gossip_inv_def backoff_ok_def INITIAL_BACKOFF_MS_def MAX_BACKOFF_MS_def by blast
  have "list_all has_receivers es \<Longrightarrow> go_exited st = {} \<and> go_sent st = map new_block_event ?sent"
    using inv unfolding gossip_inv_def by blast
  then show ?thesis using b d by blast
qed

theorem gossip_stream_dedups_witness:
  "\<exists>st. gossip_reaches st [Connect_Failed 1] \<and> (\<forall>k. 500 \<le> go_backoff_ms st k)"
proof -
  have "gossip_reaches (gossip_react (Connect_Failed 1) gossip_start) ([] @ [Connect_Failed 1])"
    by (rule gossip_reaches.step [OF gossip_reaches.start gossip_step.running]) (simp add: gossip_start_def)
  then have r: "gossip_reaches (gossip_react (Connect_Failed 1) gossip_start) [Connect_Failed 1]" by simp
  have "500 \<le> go_backoff_ms (gossip_react (Connect_Failed 1) gossip_start) k" for k
    using conjunct1 [OF gossip_stream_dedups [OF r]] by (simp only:)
  then show ?thesis using r by (intro exI conjI allI)
qed

end
