(* ===== verification/Tracing.thy ===== *)
theory Tracing
  imports RpcText
begin

text \<open>
  \<open>src/tracing_revm.rs\<close>: the changes of a block. The logs of the block say which tracked pools were
  touched and whether they are V3 pools; their key slots are then read from the node. The node and
  \<open>hex::decode\<close> are parameters; the texts of errors that no caller reads are left out.
\<close>

section \<open>Differences\<close>

record block_trace_diffs =
  td_block_number :: u64
  td_diffs :: "address \<rightharpoonup> (u256 \<rightharpoonup> u256)"
  td_touched_addresses :: "address set"

definition trace_diffs_new :: "u64 \<Rightarrow> block_trace_diffs" where
  "trace_diffs_new block_number =
    \<lparr> td_block_number = block_number, td_diffs = Map.empty, td_touched_addresses = {} \<rparr>"

definition or_empty :: "('a \<rightharpoonup> 'b) option \<Rightarrow> ('a \<rightharpoonup> 'b)" where
  "or_empty m = (case m of None \<Rightarrow> Map.empty | Some m \<Rightarrow> m)"

definition add_diff :: "address \<Rightarrow> u256 \<Rightarrow> u256 \<Rightarrow> block_trace_diffs \<Rightarrow> block_trace_diffs" where
  "add_diff a slot new_value d =
    d\<lparr>td_touched_addresses := insert a (td_touched_addresses d),
      td_diffs := (td_diffs d)(a \<mapsto> (or_empty (td_diffs d a))(slot \<mapsto> new_value))\<rparr>"

definition get_address_diffs :: "block_trace_diffs \<Rightarrow> address \<Rightarrow> (u256 \<rightharpoonup> u256) option" where
  "get_address_diffs d a = td_diffs d a"

text \<open>The iteration orders of the set of addresses and of a slot map are parameters.\<close>

definition filter_tracked ::
    "(address set \<Rightarrow> address list) \<Rightarrow> ((u256 \<rightharpoonup> u256) \<Rightarrow> (u256 \<times> u256) list) \<Rightarrow> address set \<Rightarrow>
     block_trace_diffs \<Rightarrow> block_trace_diffs" where
  "filter_tracked addresses slots tracked d =
    fold (\<lambda>a filtered.
        if a \<in> tracked
        then (case td_diffs d a of
                Some m \<Rightarrow> fold (\<lambda>(slot, value). add_diff a slot value) (slots m) filtered
              | None \<Rightarrow> filtered)
        else filtered)
      (addresses (td_touched_addresses d)) (trace_diffs_new (td_block_number d))"

section \<open>Text\<close>

definition parse_address :: "(string \<Rightarrow> u8 list option) \<Rightarrow> string \<Rightarrow> address option" where
  "parse_address hex_decode s =
    (case hex_decode (pad40 (trim_0x s)) of
       None \<Rightarrow> None
     | Some bs \<Rightarrow> if length bs \<noteq> 20 then None else Some (from_be_bytes bs))"

definition parse_u256 :: "(string \<Rightarrow> u8 list option) \<Rightarrow> string \<Rightarrow> u256 option" where
  "parse_u256 hex_decode s =
    (case hex_decode (pad64 (trim_0x s)) of
       None \<Rightarrow> None
     | Some bs \<Rightarrow> if length bs \<noteq> 32 then None else Some (from_be_bytes bs))"

text \<open>\<open>to_lowercase\<close> on ASCII text.\<close>

definition ascii_lower :: "char \<Rightarrow> char" where
  "ascii_lower c = (let n = of_char c :: nat in if 65 \<le> n \<and> n \<le> 90 then char_of (n + 32) else c)"

definition to_lowercase :: "string \<Rightarrow> string" where
  "to_lowercase s = map ascii_lower s"

section \<open>Tracing a block\<close>

definition V3_SWAP_TOPIC :: string where
  "V3_SWAP_TOPIC = ''0xc42079f94a6350d7e6235f29174924f928cc2ac818eb64fed8004e115fbcca67''"
definition V2_SYNC_U112_TOPIC :: string where
  "V2_SYNC_U112_TOPIC = ''0x1c411e9a96e071241c2f21f7726b17ae89e3cab4c78be50e062b03a9fffbbad1''"
definition V2_SYNC_U256_TOPIC :: string where
  "V2_SYNC_U256_TOPIC = ''0xcf2aa50876cdfbb541206f89af0ee78d44a2abf8d328e37fa4917f982149848a''"

text \<open>The members of a log entry that are text; topics are \<open>None\<close> when there is no array.\<close>

record log_entry =
  le_address :: "string option"
  le_topics :: "string option list option"

datatype logs_reply =
    Logs_Unreachable string
  | Logs_Bad_Json string
  | Logs_Result "log_entry list"
  | Logs_Error "string option"

text \<open>
  The node during one trace: the client, the answers to the attempts, the storage answers at the latest
  block (\<open>None\<close> when the request fails or has no result text) and the iteration order of the pools.
\<close>

record trace_env =
  te_client :: "string + unit"
  te_get_logs :: "nat \<Rightarrow> u64 \<Rightarrow> logs_reply"
  te_get_storage :: "address \<Rightarrow> u64 \<Rightarrow> string option"
  te_hex_decode :: "string \<Rightarrow> u8 list option"
  te_order :: "(address \<rightharpoonup> bool) \<Rightarrow> (address \<times> bool) list"

definition show_digit :: "nat \<Rightarrow> string" where
  "show_digit n = [char_of (48 + n)]"

fun fetch_logs :: "trace_env \<Rightarrow> u64 \<Rightarrow> nat list \<Rightarrow> string \<Rightarrow> string + log_entry list" where
  "fetch_logs env block_number [] last_err = Inl (''eth_getLogs error: '' @ last_err)"
| "fetch_logs env block_number (attempt # attempts) last_err =
    (case te_get_logs env attempt block_number of
       Logs_Unreachable e \<Rightarrow>
         fetch_logs env block_number attempts (''eth_getLogs send attempt '' @ show_digit attempt @ '': '' @ e)
     | Logs_Bad_Json e \<Rightarrow>
         fetch_logs env block_number attempts (''eth_getLogs json attempt '' @ show_digit attempt @ '': '' @ e)
     | Logs_Result a \<Rightarrow> Inr a
     | Logs_Error e \<Rightarrow>
         fetch_logs env block_number attempts (case e of None \<Rightarrow> ''no result'' | Some t \<Rightarrow> t))"

definition topic0_of :: "log_entry \<Rightarrow> string" where
  "topic0_of log =
    (let topics = (case le_topics log of None \<Rightarrow> [] | Some ts \<Rightarrow> ts);
         first = (case topics of [] \<Rightarrow> None | t # _ \<Rightarrow> t)
     in to_lowercase (case first of None \<Rightarrow> '''' | Some t \<Rightarrow> t))"

text \<open>One log: the pools touched so far, with a flag for V3.\<close>

definition classify_log ::
    "(string \<Rightarrow> u8 list option) \<Rightarrow> address set \<Rightarrow> log_entry \<Rightarrow> (address \<rightharpoonup> bool) \<Rightarrow> (address \<rightharpoonup> bool)" where
  "classify_log hex_decode tracked_pools log touched =
    (case parse_address hex_decode (case le_address log of None \<Rightarrow> '''' | Some s \<Rightarrow> s) of
       None \<Rightarrow> touched
     | Some addr \<Rightarrow>
         if addr \<notin> tracked_pools then touched
         else
           let topic0 = topic0_of log;
               is_v3 = (topic0 = V3_SWAP_TOPIC);
               is_v2 = (topic0 = V2_SYNC_U112_TOPIC \<or> topic0 = V2_SYNC_U256_TOPIC);
               entry = (case touched addr of None \<Rightarrow> False | Some b \<Rightarrow> b);
               touched = touched(addr \<mapsto> entry)
           in if is_v3 then touched(addr \<mapsto> True)
              else if is_v2 \<and> \<not> entry then touched(addr \<mapsto> False)
              else touched)"

definition get_storage_at_raw :: "trace_env \<Rightarrow> address \<Rightarrow> u64 \<Rightarrow> u256 option" where
  "get_storage_at_raw env addr slot =
    (case te_get_storage env addr slot of
       None \<Rightarrow> None
     | Some result_str \<Rightarrow> parse_u256 (te_hex_decode env) result_str)"

definition read_slot :: "trace_env \<Rightarrow> address \<Rightarrow> u64 \<Rightarrow> (u256 \<times> u256) list" where
  "read_slot env addr slot =
    (case get_storage_at_raw env addr slot of Some v \<Rightarrow> [(ucast slot, v)] | None \<Rightarrow> [])"

definition fetch_pool :: "trace_env \<Rightarrow> address \<times> bool \<Rightarrow> address \<times> (u256 \<times> u256) list" where
  "fetch_pool env pool =
    (case pool of (addr, is_v3) \<Rightarrow>
       (addr, if is_v3 then read_slot env addr 0 @ read_slot env addr 4 else read_slot env addr 8))"

definition trace_block_diffs :: "trace_env \<Rightarrow> u64 \<Rightarrow> address set \<Rightarrow> string + block_trace_diffs" where
  "trace_block_diffs env block_number tracked_pools =
    (case te_client env of
       Inl e \<Rightarrow> Inl (''Client build: '' @ e)
     | Inr _ \<Rightarrow>
         (case fetch_logs env block_number [0, 1, 2] '''' of
            Inl e \<Rightarrow> Inl e
          | Inr logs \<Rightarrow>
              (let touched = fold (classify_log (te_hex_decode env) tracked_pools) logs Map.empty
               in if touched = Map.empty then Inr (trace_diffs_new block_number)
                  else
                    let results = map (fetch_pool env) (te_order env touched)
                    in Inr (fold (\<lambda>(addr, pairs). fold (\<lambda>(slot, value). add_diff addr slot value) pairs)
                             results (trace_diffs_new block_number)))))"

section \<open>What a trace contains\<close>

lemma td_add_diff [simp]:
  "td_block_number (add_diff a s v d) = td_block_number d"
  "td_touched_addresses (add_diff a s v d) = insert a (td_touched_addresses d)"
  "td_diffs (add_diff a s v d) b =
     (if b = a then Some ((or_empty (td_diffs d a))(s \<mapsto> v)) else td_diffs d b)"
  by (simp_all add: add_diff_def)

lemma or_empty_simps [simp]: "or_empty None = Map.empty" "or_empty (Some m) = m"
  by (simp_all add: or_empty_def)

lemma fold_add_diff:
  "td_block_number (fold (\<lambda>(s, v). add_diff a s v) pairs d) = td_block_number d"
  "td_touched_addresses (fold (\<lambda>(s, v). add_diff a s v) pairs d)
     = (if pairs = [] then td_touched_addresses d else insert a (td_touched_addresses d))"
  "td_diffs (fold (\<lambda>(s, v). add_diff a s v) pairs d) b =
     (if b = a \<and> pairs \<noteq> [] then Some (or_empty (td_diffs d a) ++ map_of (rev pairs)) else td_diffs d b)"
  by (induction pairs arbitrary: d) auto

definition add_pools :: "(address \<times> (u256 \<times> u256) list) list \<Rightarrow> block_trace_diffs \<Rightarrow> block_trace_diffs" where
  "add_pools results d = fold (\<lambda>(a, pairs). fold (\<lambda>(s, v). add_diff a s v) pairs) results d"

lemma add_pools_simps [simp]:
  "add_pools [] d = d"
  "add_pools ((a, pairs) # results) d = add_pools results (fold (\<lambda>(s, v). add_diff a s v) pairs d)"
  by (simp_all add: add_pools_def)

lemma td_add_pools [simp]:
  "td_block_number (add_pools results d) = td_block_number d"
  "x \<in> td_touched_addresses (add_pools results d) \<longleftrightarrow>
     x \<in> td_touched_addresses d \<or> (\<exists>pairs. (x, pairs) \<in> set results \<and> pairs \<noteq> [])"
proof (induction results arbitrary: d)
  case (Cons r results)
  obtain a pairs where r: "r = (a, pairs)" by (cases r)
  { case 1 show ?case using Cons.IH(1) r by (simp add: fold_add_diff) }
  { case 2 show ?case unfolding r using Cons.IH(2) by (cases "pairs = []") (auto simp: fold_add_diff) }
qed simp_all

lemma td_diffs_add_pools:
  assumes "distinct (map fst results)" "\<forall>a \<in> fst ` set results. td_diffs d a = None"
  shows "td_diffs (add_pools results d) b =
           (case map_of results b of
              None \<Rightarrow> td_diffs d b
            | Some pairs \<Rightarrow> if pairs = [] then None else Some (map_of (rev pairs)))"
  using assms
proof (induction results arbitrary: d)
  case (Cons r results)
  obtain a pairs where r: "r = (a, pairs)" by (cases r)
  let ?d = "fold (\<lambda>(s, v). add_diff a s v) pairs d"
  have dist: "distinct (map fst results)" "a \<notin> fst ` set results" using Cons.prems(1) r by auto
  have fresh: "\<forall>c \<in> fst ` set results. td_diffs ?d c = None"
    using Cons.prems(2) r dist(2) by (auto simp: fold_add_diff)
  have "map_of results a = None" using dist(2) by (simp add: map_of_eq_None_iff)
  moreover have "td_diffs d a = None" using Cons.prems(2) r by simp
  ultimately show ?case
    using Cons.IH [OF dist(1) fresh] r by (simp add: fold_add_diff split: option.split)
qed simp

text \<open>The pools a trace considers, with their V3 flag.\<close>

definition touched_pools :: "trace_env \<Rightarrow> address set \<Rightarrow> log_entry list \<Rightarrow> (address \<rightharpoonup> bool)" where
  "touched_pools env tracked logs = fold (classify_log (te_hex_decode env) tracked) logs Map.empty"

text \<open>The address a log names.\<close>

definition log_pool :: "trace_env \<Rightarrow> log_entry \<Rightarrow> address option" where
  "log_pool env log = parse_address (te_hex_decode env) (case le_address log of None \<Rightarrow> '''' | Some s \<Rightarrow> s)"

lemma classify_log_eq:
  "classify_log (te_hex_decode env) tracked log touched a =
    (if log_pool env log = Some a \<and> a \<in> tracked
     then Some (touched a = Some True \<or> topic0_of log = V3_SWAP_TOPIC)
     else touched a)"
  by (auto simp: classify_log_def log_pool_def Let_def split: option.splits)

lemma classify_logs:
  "fold (classify_log (te_hex_decode env) tracked) logs touched a =
    (if a \<in> tracked \<and> (\<exists>log \<in> set logs. log_pool env log = Some a)
     then Some (touched a = Some True \<or>
                (\<exists>log \<in> set logs. log_pool env log = Some a \<and> topic0_of log = V3_SWAP_TOPIC))
     else touched a)"
  by (induction logs arbitrary: touched) (auto simp: classify_log_eq)

lemma touched_pools_eq:
  "touched_pools env tracked logs a =
    (if a \<in> tracked \<and> (\<exists>log \<in> set logs. log_pool env log = Some a)
     then Some (\<exists>log \<in> set logs. log_pool env log = Some a \<and> topic0_of log = V3_SWAP_TOPIC)
     else None)"
  by (simp add: touched_pools_def classify_logs)

text \<open>The order of a hash map: each entry once.\<close>

definition enumerates :: "('a \<times> 'b) list \<Rightarrow> ('a \<rightharpoonup> 'b) \<Rightarrow> bool" where
  "enumerates xs m \<longleftrightarrow> distinct (map fst xs) \<and> map_of xs = m"

text \<open>The slots a trace refreshes of a pool, as the node answers them.\<close>

definition slot_answers :: "trace_env \<Rightarrow> address \<Rightarrow> bool \<Rightarrow> (u256 \<rightharpoonup> u256)" where
  "slot_answers env a is_v3 slot =
    (if is_v3 then if slot = 0 then get_storage_at_raw env a 0
                   else if slot = 4 then get_storage_at_raw env a 4 else None
     else if slot = 8 then get_storage_at_raw env a 8 else None)"

lemma map_of_fetch_pool:
  "map_of (rev (snd (fetch_pool env (a, v3)))) = slot_answers env a v3"
  by (auto simp: fetch_pool_def read_slot_def slot_answers_def fun_eq_iff split: option.splits if_splits)

lemma fetch_pool_Nil: "snd (fetch_pool env (a, v3)) = [] \<longleftrightarrow> slot_answers env a v3 = Map.empty"
  using map_of_fetch_pool [of env a v3] by (metis map_of_eq_empty_iff rev_is_Nil_conv)

lemma map_of_fetch_pools:
  "map_of (map (fetch_pool env) pools) a = map_option (\<lambda>v3. snd (fetch_pool env (a, v3))) (map_of pools a)"
proof (induction pools)
  case (Cons p pools)
  obtain b v where p: "p = (b, v)" by (cases p)
  have "fst (fetch_pool env (b, v)) = b" by (simp add: fetch_pool_def)
  then obtain pairs where "fetch_pool env (b, v) = (b, pairs)" by (metis prod.collapse)
  then show ?case using Cons.IH p by simp
qed simp

lemma trace_block_diffs_eq:
  assumes "te_client env = Inr ()" "fetch_logs env n [0, 1, 2] '''' = Inr logs"
  shows "trace_block_diffs env n tracked =
    (let touched = touched_pools env tracked logs
     in Inr (if touched = Map.empty then trace_diffs_new n
             else add_pools (map (fetch_pool env) (te_order env touched)) (trace_diffs_new n)))"
proof -
  have if_Inr: "(if b then Inr x else Inr y) = Inr (if b then x else y)" for b and x y :: block_trace_diffs by simp
  show ?thesis
    unfolding trace_block_diffs_def assms sum.case touched_pools_def [symmetric] add_pools_def [symmetric] Let_def if_Inr ..
qed

text \<open>The differences of a trace.\<close>

lemma trace_diffs_exact:
  assumes "te_client env = Inr ()" "fetch_logs env n [0, 1, 2] '''' = Inr logs"
    and "enumerates (te_order env (touched_pools env tracked logs)) (touched_pools env tracked logs)"
  shows "\<exists>d. trace_block_diffs env n tracked = Inr d \<and> td_block_number d = n \<and>
    td_touched_addresses d = {a. td_diffs d a \<noteq> None} \<and>
    (\<forall>a. td_diffs d a =
       (case touched_pools env tracked logs a of
          None \<Rightarrow> None
        | Some v3 \<Rightarrow> if slot_answers env a v3 = Map.empty then None else Some (slot_answers env a v3)))"
proof -
  let ?touched = "touched_pools env tracked logs"
  let ?pools = "te_order env ?touched"
  let ?d = "add_pools (map (fetch_pool env) ?pools) (trace_diffs_new n)"
  have en: "distinct (map fst ?pools)" "map_of ?pools = ?touched" using assms(3) by (simp_all add: enumerates_def)
  have "map fst (map (fetch_pool env) ?pools) = map fst ?pools" by (simp add: fetch_pool_def split_beta)
  then have dist: "distinct (map fst (map (fetch_pool env) ?pools))" using en(1) by (simp only:)
  have new: "td_diffs (trace_diffs_new n) = Map.empty" by (simp add: trace_diffs_new_def)
  have diffs: "td_diffs ?d a = (case ?touched a of None \<Rightarrow> None
      | Some v3 \<Rightarrow> if slot_answers env a v3 = Map.empty then None else Some (slot_answers env a v3))" for a
    using td_diffs_add_pools [OF dist, of "trace_diffs_new n" a] new
    by (simp add: map_of_fetch_pools map_of_fetch_pool fetch_pool_Nil en(2) split: option.split)
  have "td_touched_addresses ?d = {a. td_diffs ?d a \<noteq> None}"
  proof (rule set_eqI)
    fix a

    have "a \<in> td_touched_addresses ?d \<longleftrightarrow> (\<exists>pairs. (a, pairs) \<in> set (map (fetch_pool env) ?pools) \<and> pairs \<noteq> [])"
      by (simp add: trace_diffs_new_def)
    also have "\<dots> \<longleftrightarrow> (\<exists>pairs. map_of (map (fetch_pool env) ?pools) a = Some pairs \<and> pairs \<noteq> [])"
      using map_of_is_SomeI [OF dist] map_of_SomeD by metis
    also have "\<dots> \<longleftrightarrow> td_diffs ?d a \<noteq> None"
      unfolding diffs map_of_fetch_pools en(2) by (auto simp: fetch_pool_Nil split: option.split)
    finally show "a \<in> td_touched_addresses ?d \<longleftrightarrow> a \<in> {a. td_diffs ?d a \<noteq> None}" by simp
  qed
  moreover have "td_block_number ?d = n" by (simp add: trace_diffs_new_def)
  moreover have "trace_block_diffs env n tracked = Inr ?d"
  proof (cases "?touched = Map.empty")
    case True
    then have "?pools = []" using en(2) by simp
    then show ?thesis using trace_block_diffs_eq [OF assms(1,2)] True by (simp add: Let_def)
  next
    case False
    then show ?thesis using trace_block_diffs_eq [OF assms(1,2)] by (simp add: Let_def)
  qed
  ultimately show ?thesis using diffs by blast
qed

end
