(* ===== verification/MarketState.thy ===== *)
theory MarketState
  imports Tracing StateDb GasStation PipelineEvents
begin

text \<open>
  \<open>src/market_state.rs\<close>: the market state worker. It traces every new block, applies the changes to the
  shared database and tells the searcher which tracked pools were touched; at the start it replays the
  blocks since the last synced one. A trace is given by the node during it (\<open>trace_env\<close>), the receiver
  of block events by what it yields; a poisoned lock does not occur.
\<close>

section \<open>Applying a trace\<close>

text \<open>The iteration orders of the touched addresses and of a slot map.\<close>

record diff_order =
  do_addresses :: "address set \<Rightarrow> address list"
  do_slots :: "(u256 \<rightharpoonup> u256) \<Rightarrow> (u256 \<times> u256) list"

definition apply_touched ::
    "account_info \<Rightarrow> diff_order \<Rightarrow> block_trace_diffs \<Rightarrow> address \<Rightarrow> block_state_db \<times> address list \<Rightarrow>
     block_state_db \<times> address list" where
  "apply_touched info ord diffs addr st =
    (let (db, touched) = st
     in if addr \<notin> db_tracked_pools db then st
        else case get_address_diffs diffs addr of
          None \<Rightarrow> st
        | Some slots \<Rightarrow>
            (fold (\<lambda>(slot, value). update_slot info addr slot value) (do_slots ord slots) db, touched @ [addr]))"

text \<open>The database after a block and the pools touched.\<close>

definition apply_block ::
    "account_info \<Rightarrow> diff_order \<Rightarrow> u64 \<Rightarrow> block_trace_diffs \<Rightarrow> block_state_db \<Rightarrow> block_state_db \<times> address list" where
  "apply_block info ord block_number diffs db =
    fold (apply_touched info ord diffs) (do_addresses ord (td_touched_addresses diffs)) (set_block block_number db, [])"

section \<open>Catch-up\<close>

definition catch_up_block ::
    "account_info \<Rightarrow> diff_order \<Rightarrow> (u64 \<Rightarrow> trace_env) \<Rightarrow> address set \<Rightarrow> u64 \<Rightarrow> block_state_db \<Rightarrow> block_state_db" where
  "catch_up_block info ord node tracked bn db =
    (case trace_block_diffs (node bn) bn tracked of
       Inl e \<Rightarrow> db
     | Inr diffs \<Rightarrow> fst (apply_block info ord bn diffs db))"

definition catch_up ::
    "account_info \<Rightarrow> diff_order \<Rightarrow> (u64 \<Rightarrow> trace_env) \<Rightarrow> u64 \<Rightarrow> u64 option \<Rightarrow> block_state_db \<Rightarrow> block_state_db" where
  "catch_up info ord node last_synced_block head db =
    (if last_synced_block = 0 then db
     else case head of
       None \<Rightarrow> db
     | Some chain_head \<Rightarrow>
         (let start_at = last_synced_block + 1
          in if last_synced_block < chain_head
             then fold (catch_up_block info ord node (db_tracked_pools db)) (blocks_between start_at chain_head) db
             else db))"

section \<open>Streaming\<close>

record market_state =
  mk_state_db :: block_state_db
  mk_gas_station :: gas_station

text \<open>What the broadcast receiver yields before it is closed.\<close>

datatype block_recv = Event pipeline_event | Lagged u64

definition market_step ::
    "account_info \<Rightarrow> diff_order \<Rightarrow> trace_env \<Rightarrow> block_recv \<Rightarrow> market_state \<Rightarrow> pools_touched option \<times> market_state" where
  "market_step info ord node r st =
    (case r of
       Event (NewBlock block_number base_fee gas_used gas_limit timestamp) \<Rightarrow>
         (let st = st\<lparr>mk_gas_station := update_from_block base_fee gas_used gas_limit (mk_gas_station st)\<rparr>
          in case trace_block_diffs node block_number (db_tracked_pools (mk_state_db st)) of
               Inl e \<Rightarrow> (None, st)
             | Inr block_diffs \<Rightarrow>
                 (let (db, touched) = apply_block info ord block_number block_diffs (mk_state_db st);
                      st = st\<lparr>mk_state_db := db\<rparr>
                  in if touched \<noteq> []
                     then (Some \<lparr> pt_block_number = block_number, pt_touched_pools = touched \<rparr>, st)
                     else (None, st)))
     | _ \<Rightarrow> (None, st))"

text \<open>The loop; \<open>open_until\<close> sends find the channel to the searcher open.\<close>

fun market_run ::
    "account_info \<Rightarrow> diff_order \<Rightarrow> nat \<Rightarrow> (trace_env \<times> block_recv) list \<Rightarrow> market_state \<Rightarrow>
     pools_touched list \<times> market_state" where
  "market_run info ord open_until [] st = ([], st)"
| "market_run info ord open_until ((node, r) # rs) st =
    (case market_step info ord node r st of
       (None, st) \<Rightarrow> market_run info ord open_until rs st
     | (Some e, st) \<Rightarrow>
         if open_until = 0 then ([], st)
         else let (es, st) = market_run info ord (open_until - 1) rs st in (e # es, st))"

section \<open>The database after a block\<close>

definition orders_ok :: "diff_order \<Rightarrow> bool" where
  "orders_ok ord \<longleftrightarrow>
     (\<forall>S. set (do_addresses ord S) = S \<and> distinct (do_addresses ord S)) \<and>
     (\<forall>m. enumerates (do_slots ord m) m)"


lemma tracked_fold_update_slots [simp]:
  "db_tracked_pools (fold (\<lambda>(s, v). update_slot d a s v) slots db) = db_tracked_pools db"
  "db_block_number (fold (\<lambda>(s, v). update_slot d a s v) slots db) = db_block_number db"
  by (induction slots arbitrary: db) (auto simp: update_slot_def put_account_def)

lemma enumerates_rev: "enumerates xs m \<Longrightarrow> map_of (rev xs) = m"
  by (simp add: enumerates_def map_of_rev_distinct)

lemma apply_touched_pair:
  "apply_touched info ord diffs a (db, touched) =
    (if a \<notin> db_tracked_pools db then (db, touched)
     else case td_diffs diffs a of
       None \<Rightarrow> (db, touched)
     | Some m \<Rightarrow> (fold (\<lambda>(s, v). update_slot info a s v) (do_slots ord m) db, touched @ [a]))"
  by (simp add: apply_touched_def get_address_diffs_def)

lemma apply_touched_fold:
  assumes "\<forall>b m. td_diffs diffs b = Some m \<longrightarrow> enumerates (do_slots ord m) m"
    and "fold (apply_touched info ord diffs) addrs (db, touched) = (db', touched')"
  shows "touched' = touched @ filter (\<lambda>a. a \<in> db_tracked_pools db \<and> td_diffs diffs a \<noteq> None) addrs \<and>
         db_tracked_pools db' = db_tracked_pools db \<and> db_block_number db' = db_block_number db \<and>
         (\<forall>b t. slot_of db' b t =
            (if b \<in> set addrs \<and> b \<in> db_tracked_pools db
             then (case td_diffs diffs b of
                     None \<Rightarrow> slot_of db b t
                   | Some m \<Rightarrow> (case m t of Some v \<Rightarrow> Some v | None \<Rightarrow> slot_of db b t))
             else slot_of db b t))"
  using assms(2)
proof (induction addrs arbitrary: db touched)
  case (Cons a addrs)
  show ?case
  proof (cases "a \<in> db_tracked_pools db \<and> td_diffs diffs a \<noteq> None")
    case True
    then obtain m where m: "td_diffs diffs a = Some m" by blast
    let ?db = "fold (\<lambda>(s, v). update_slot info a s v) (do_slots ord m) db"
    have "fold (apply_touched info ord diffs) addrs (?db, touched @ [a]) = (db', touched')"
      using Cons.prems True m by (simp add: apply_touched_pair)
    note ih = Cons.IH [OF this]
    have "slot_of ?db b t = (if b = a then (case m t of Some v \<Rightarrow> Some v | None \<Rightarrow> slot_of db b t) else slot_of db b t)" for b t
      using enumerates_rev [of "do_slots ord m" m] assms(1) m by (simp add: fold_update_slots)
    then show ?thesis using ih True m by (auto split: option.splits)
  next
    case False
    then have "apply_touched info ord diffs a (db, touched) = (db, touched)"
      by (auto simp: apply_touched_pair)
    then show ?thesis using Cons.IH [of db touched] Cons.prems False by (auto split: option.splits)
  qed
qed simp

text \<open>What the trace of a block in which the logs name pools says of a slot.\<close>

definition refreshed_slot :: "trace_env \<Rightarrow> log_entry list \<Rightarrow> address \<Rightarrow> u256 \<Rightarrow> u256 option" where
  "refreshed_slot node logs a =
    (if \<exists>log \<in> set logs. log_pool node log = Some a
     then slot_answers node a (\<exists>log \<in> set logs. log_pool node log = Some a \<and> topic0_of log = V3_SWAP_TOPIC)
     else Map.empty)"

lemma apply_block_traced:
  assumes "orders_ok ord" "te_client node = Inr ()" "fetch_logs node n [0, 1, 2] '''' = Inr logs"
    and "\<forall>m. enumerates (te_order node m) m"
  shows "\<exists>diffs db' touched. trace_block_diffs node n (db_tracked_pools db) = Inr diffs \<and>
           apply_block info ord n diffs db = (db', touched) \<and>
           distinct touched \<and> set touched = {a \<in> db_tracked_pools db. refreshed_slot node logs a \<noteq> Map.empty} \<and>
           db_block_number db' = n \<and> db_tracked_pools db' = db_tracked_pools db \<and>
           (\<forall>a t. slot_of db' a t =
              (case if a \<in> db_tracked_pools db then refreshed_slot node logs a t else None of
                 Some v \<Rightarrow> Some v | None \<Rightarrow> slot_of db a t))"
proof -
  let ?tracked = "db_tracked_pools db"
  let ?touched = "touched_pools node ?tracked logs"
  have "enumerates (te_order node ?touched) ?touched" using assms(4) by blast
  from trace_diffs_exact [OF assms(2,3) this] obtain d where d: "trace_block_diffs node n ?tracked = Inr d"
    "td_touched_addresses d = {a. td_diffs d a \<noteq> None}"
    "\<And>a. td_diffs d a = (case ?touched a of None \<Rightarrow> None
        | Some v3 \<Rightarrow> if slot_answers node a v3 = Map.empty then None else Some (slot_answers node a v3))" by blast
  have diffs: "td_diffs d a = (if a \<in> ?tracked \<and> refreshed_slot node logs a \<noteq> Map.empty
                               then Some (refreshed_slot node logs a) else None)" for a
    unfolding d(3) refreshed_slot_def by (simp add: touched_pools_eq)
  have slots: "\<forall>b m. td_diffs d b = Some m \<longrightarrow> enumerates (do_slots ord m) m"
    using assms(1) by (simp add: orders_ok_def)
  have addrs: "set (do_addresses ord (td_touched_addresses d)) = {a. td_diffs d a \<noteq> None}"
    "distinct (do_addresses ord (td_touched_addresses d))" using assms(1) d(2) by (auto simp: orders_ok_def)
  obtain db' touched where a: "apply_block info ord n d db = (db', touched)" by force
  have same: "slot_of (set_block n db) = slot_of db" "db_tracked_pools (set_block n db) = ?tracked"
    "db_block_number (set_block n db) = n" by (simp_all add: fun_eq_iff slot_of_def set_block_def)
  note ap = apply_touched_fold [OF slots a [unfolded apply_block_def], unfolded same]
  have "set touched = {a \<in> ?tracked. refreshed_slot node logs a \<noteq> Map.empty}" "distinct touched"
    using ap addrs by (auto simp: diffs)
  moreover have "slot_of db' a t = (case if a \<in> ?tracked then refreshed_slot node logs a t else None of
                 Some v \<Rightarrow> Some v | None \<Rightarrow> slot_of db a t)" for a t
    using ap addrs(1) diffs [of a] by (simp split: option.splits if_splits)
  ultimately show ?thesis using d(1) a ap by blast
qed


text \<open>
  C9. The market state after a block, once the logs arrive: the gas station has the block, the database
  has its number, every tracked pool named by a log has the key slots the node answers, read as a V3
  pool exactly when one of its logs is a V3 swap, every other cached slot is unchanged, and the
  searcher is told exactly the pools that got a slot, each once, if there are any.
\<close>

theorem market_block_exact:
  assumes "orders_ok ord" "te_client node = Inr ()" "fetch_logs node n [0, 1, 2] '''' = Inr logs"
    and "\<forall>m. enumerates (te_order node m) m"
    and "market_step info ord node (Event (NewBlock n base_fee gas_used gas_limit ts)) st = (event, st')"
  shows "mk_gas_station st' = update_from_block base_fee gas_used gas_limit (mk_gas_station st) \<and>
         db_block_number (mk_state_db st') = n \<and>
         (\<forall>a t. slot_of (mk_state_db st') a t =
            (case if a \<in> db_tracked_pools (mk_state_db st) then refreshed_slot node logs a t else None of
               Some v \<Rightarrow> Some v | None \<Rightarrow> slot_of (mk_state_db st) a t)) \<and>
         (let pools = {a \<in> db_tracked_pools (mk_state_db st). refreshed_slot node logs a \<noteq> Map.empty}
          in case event of
               None \<Rightarrow> pools = {}
             | Some e \<Rightarrow> pools \<noteq> {} \<and> pt_block_number e = n \<and> distinct (pt_touched_pools e) \<and>
                         set (pt_touched_pools e) = pools)"
proof -
  let ?db = "mk_state_db st"
  from apply_block_traced [OF assms(1-4), of ?db info] obtain diffs db' touched where
    d: "trace_block_diffs node n (db_tracked_pools ?db) = Inr diffs" "apply_block info ord n diffs ?db = (db', touched)"
      "distinct touched" "set touched = {a \<in> db_tracked_pools ?db. refreshed_slot node logs a \<noteq> Map.empty}"
      "db_block_number db' = n"
      "\<forall>a t. slot_of db' a t = (case if a \<in> db_tracked_pools ?db then refreshed_slot node logs a t else None of
                 Some v \<Rightarrow> Some v | None \<Rightarrow> slot_of ?db a t)" by blast
  have st': "mk_state_db st' = db'" "mk_gas_station st' = update_from_block base_fee gas_used gas_limit (mk_gas_station st)"
    "event = (if touched = [] then None else Some \<lparr> pt_block_number = n, pt_touched_pools = touched \<rparr>)"
    using assms(5) d(1,2) by (auto simp: market_step_def Let_def split: if_splits)
  have "touched = [] \<longleftrightarrow> {a \<in> db_tracked_pools ?db. refreshed_slot node logs a \<noteq> Map.empty} = {}"
    unfolding d(4) [symmetric] by simp
  then have "case event of None \<Rightarrow> {a \<in> db_tracked_pools ?db. refreshed_slot node logs a \<noteq> Map.empty} = {}
      | Some e \<Rightarrow> {a \<in> db_tracked_pools ?db. refreshed_slot node logs a \<noteq> Map.empty} \<noteq> {} \<and>
          pt_block_number e = n \<and> distinct (pt_touched_pools e) \<and>
          set (pt_touched_pools e) = {a \<in> db_tracked_pools ?db. refreshed_slot node logs a \<noteq> Map.empty}"
    unfolding st'(3) using d(3,4) by (cases "touched = []") simp_all
  then show ?thesis using d(5,6) st'(1,2) unfolding Let_def by blast
qed

text \<open>
  A block whose logs do not arrive in three attempts changes the gas station only: its changes are
  neither applied nor announced, now or later.
\<close>

lemma market_lost_block:
  assumes "te_client node = Inr ()" "fetch_logs node n [0, 1, 2] '''' = Inl e"
  shows "market_step info ord node (Event (NewBlock n base_fee gas_used gas_limit ts)) st
         = (None, st\<lparr>mk_gas_station := update_from_block base_fee gas_used gas_limit (mk_gas_station st)\<rparr>)"
proof -
  have "trace_block_diffs node n tracked = Inl e" for tracked
    unfolding trace_block_diffs_def assms by simp
  then show ?thesis by (simp add: market_step_def)
qed

text \<open>
  The slot a Pancake V3 pool keeps its liquidity in (5) is never refreshed: a trace asks for the slots
  0 and 4 of a V3 pool, and the liquidity read is the old one when slot 4 is 0 or not answered.
\<close>

lemma pancake_liquidity_stale:
  assumes "orders_ok ord" "te_client node = Inr ()" "fetch_logs node n [0, 1, 2] '''' = Inr logs"
    and "\<forall>m. enumerates (te_order node m) m"
    and "market_step info ord node (Event (NewBlock n base_fee gas_used gas_limit ts)) st = (event, st')"
  shows "slot_of (mk_state_db st') pool V3_LIQUIDITY_SLOT_PANCAKE = slot_of (mk_state_db st) pool V3_LIQUIDITY_SLOT_PANCAKE"
proof -
  from apply_block_traced [OF assms(1-4), of "mk_state_db st" info] obtain diffs db' touched where
    d: "trace_block_diffs node n (db_tracked_pools (mk_state_db st)) = Inr diffs"
      "apply_block info ord n diffs (mk_state_db st) = (db', touched)"
      "\<forall>a t. slot_of db' a t = (case if a \<in> db_tracked_pools (mk_state_db st) then refreshed_slot node logs a t else None of
                 Some v \<Rightarrow> Some v | None \<Rightarrow> slot_of (mk_state_db st) a t)" by blast
  have "mk_state_db st' = db'" using assms(5) d(1,2) by (auto simp: market_step_def Let_def split: if_splits)
  moreover have "refreshed_slot node logs pool V3_LIQUIDITY_SLOT_PANCAKE = None"
    by (simp add: refreshed_slot_def slot_answers_def V3_LIQUIDITY_SLOT_PANCAKE_def)
  ultimately show ?thesis using d(3) by simp
qed

section \<open>A concrete block\<close>

text \<open>A node with one log of the pool 1, iteration in the order of the keys.\<close>

definition sample_order :: diff_order where
  "sample_order = \<lparr> do_addresses = sorted_list_of_set,
     do_slots = (\<lambda>m. map (\<lambda>k. (k, the (m k))) (sorted_list_of_set (dom m))) \<rparr>"

definition sample_node :: trace_env where
  "sample_node =
    \<lparr> te_client = Inr (), te_get_logs = (\<lambda>_ _. Logs_Result [\<lparr> le_address = Some ''1'', le_topics = Some [Some V2_SYNC_U112_TOPIC] \<rparr>]),
      te_get_storage = (\<lambda>_ _. Some ''2a''),
      te_hex_decode = (\<lambda>s. if length s = 40 then Some (be_bytes 20 (1 :: address)) else Some (be_bytes 32 (42 :: u256))),
      te_order = (\<lambda>m. map (\<lambda>k. (k, the (m k))) (sorted_list_of_set (dom m))) \<rparr>"

definition sample_market :: market_state where
  "sample_market =
    \<lparr> mk_state_db = track_pool 1 (state_db_new 8),
      mk_gas_station = \<lparr> gs_base_fee = 1, gs_last_gas_used = 0, gs_last_gas_limit = 0, gs_elasticity_multiplier = 2,
        gs_base_fee_change_denominator = 8, gs_min_base_fee_wei = 1, gs_priority_fee_cap_wei = 10 \<rparr> \<rparr>"

lemma enumerates_sorted:
  fixes m :: "'a::len word \<rightharpoonup> 'b"
  shows "enumerates (map (\<lambda>k. (k, the (m k))) (sorted_list_of_set (dom m))) m"
proof -
  have "map_of (map (\<lambda>k. (k, the (m k))) ks) x = (if x \<in> set ks then Some (the (m x)) else None)" for ks x
    by (induction ks) auto
  then have "map_of (map (\<lambda>k. (k, the (m k))) (sorted_list_of_set (dom m))) x = m x" for x
    by (cases "m x") auto
  then show ?thesis by (simp add: enumerates_def fun_eq_iff comp_def)
qed

lemma sample_order_ok: "orders_ok sample_order"
  using enumerates_sorted by (auto simp: orders_ok_def sample_order_def)

theorem market_block_exact_witness:
  "slot_of (mk_state_db (snd (market_step (env_default_info silent_env) sample_order sample_node
     (Event (NewBlock 9 1 1 1 1)) sample_market))) 1 8 = Some 42"
proof -
  let ?st = sample_market and ?info = "env_default_info silent_env"
  let ?log = "\<lparr> le_address = Some ''1'', le_topics = Some [Some V2_SYNC_U112_TOPIC] \<rparr>"
  obtain event st' where s: "market_step ?info sample_order sample_node (Event (NewBlock 9 1 1 1 1)) ?st = (event, st')" by force
  have client: "te_client sample_node = Inr ()" and
    order: "\<forall>m. enumerates (te_order sample_node m) m"
    and logs: "fetch_logs sample_node 9 [0, 1, 2] '''' = Inr [?log]"
    by (simp_all add: sample_node_def enumerates_sorted)
  have "log_pool sample_node ?log = Some 1"
    by (simp add: log_pool_def sample_node_def parse_address_def pad40_def from_be_bytes_be_bytes)
  moreover have "topic0_of ?log \<noteq> V3_SWAP_TOPIC" by code_simp
  moreover have "get_storage_at_raw sample_node 1 8 = Some 42"
    by (simp add: get_storage_at_raw_def sample_node_def parse_u256_def pad64_def from_be_bytes_be_bytes)
  ultimately have "refreshed_slot sample_node [?log] 1 8 = Some 42"
    by (simp add: refreshed_slot_def slot_answers_def)
  moreover have "(1 :: address) \<in> db_tracked_pools (mk_state_db ?st)" by (simp add: sample_market_def track_pool_def)
  ultimately show ?thesis
    using market_block_exact [OF sample_order_ok client logs order s] s by simp
qed

end
