(* ===== verification/PoolLoader.thy ===== *)
theory PoolLoader
  imports PoolTypes RpcText "HOL-Library.Char_ord" "HOL-Library.Sublist"
begin

text \<open>
  \<open>src/pool_loader.rs\<close>: pools from the cached CSV files and from factory logs. The CSV reader and writer
  (quoting, files), the address parser and the address printer are parameters; a record is the list of
  its fields. Errors carry their text only where the code makes it.
\<close>

section \<open>Text of numbers\<close>

definition decimal_digit :: "char \<Rightarrow> nat option" where
  "decimal_digit c = (let n = of_char c :: nat in if 48 \<le> n \<and> n \<le> 57 then Some (n - 48) else None)"

fun decimal_value :: "nat \<Rightarrow> string \<Rightarrow> nat option" where
  "decimal_value acc [] = Some acc"
| "decimal_value acc (c # s) =
    (case decimal_digit c of None \<Rightarrow> None | Some d \<Rightarrow> decimal_value (acc * 10 + d) s)"

text \<open>\<open>parse::<uN>()\<close>: an optional plus sign, at least one digit, no overflow.\<close>

definition parse_unsigned :: "string \<Rightarrow> 'a::len word option" where
  "parse_unsigned s =
    (let digits = (case s of c # r \<Rightarrow> if c = CHR ''+'' then r else s | [] \<Rightarrow> [])
     in if digits = [] then None
        else case decimal_value 0 digits of
          None \<Rightarrow> None
        | Some n \<Rightarrow> if n < 2 ^ LENGTH('a) then Some (of_nat n) else None)"

text \<open>\<open>parse::<i32>()\<close>.\<close>

definition parse_i32 :: "string \<Rightarrow> 32 word option" where
  "parse_i32 s =
    (let negative = (case s of c # r \<Rightarrow> c = CHR ''-'' | [] \<Rightarrow> False);
         digits = (case s of c # r \<Rightarrow> if c = CHR ''+'' \<or> c = CHR ''-'' then r else s | [] \<Rightarrow> [])
     in if digits = [] then None
        else case decimal_value 0 digits of
          None \<Rightarrow> None
        | Some n \<Rightarrow>
            if negative then (if n \<le> 2 ^ 31 then Some (- of_nat n) else None)
            else if n < 2 ^ 31 then Some (of_nat n) else None)"

text \<open>\<open>to_string\<close> of the unsigned types.\<close>

fun show_nat :: "nat \<Rightarrow> string" where
  "show_nat n = (if n < 10 then [char_of (48 + n)] else show_nat (n div 10) @ [char_of (48 + n mod 10)])"

declare show_nat.simps [simp del]

definition show_unsigned :: "'a::len word \<Rightarrow> string" where
  "show_unsigned x = show_nat (unat x)"

text \<open>\<open>trim\<close> on ASCII text.\<close>

definition is_space :: "char \<Rightarrow> bool" where
  "is_space c = (let n = of_char c :: nat in n = 32 \<or> 9 \<le> n \<and> n \<le> 13)"

definition trim :: "string \<Rightarrow> string" where
  "trim s = rev (dropWhile is_space (rev (dropWhile is_space s)))"

definition contains_text :: "string \<Rightarrow> string \<Rightarrow> bool" where
  "contains_text s pat \<longleftrightarrow> sublist pat s"

section \<open>CSV files\<close>

type_synonym csv_record = "string list"

definition field_or :: "string \<Rightarrow> csv_record \<Rightarrow> nat \<Rightarrow> string" where
  "field_or fallback_text rec i = (if i < length rec then rec ! i else fallback_text)"

definition number_or :: "'a \<Rightarrow> (string \<Rightarrow> 'a option) \<Rightarrow> string \<Rightarrow> csv_record \<Rightarrow> nat \<Rightarrow> 'a" where
  "number_or fallback parse fallback_text rec i =
    (case parse (field_or fallback_text rec i) of None \<Rightarrow> fallback | Some n \<Rightarrow> n)"

definition addr_from_field :: "(string \<Rightarrow> address option) \<Rightarrow> csv_record \<Rightarrow> nat \<Rightarrow> address option" where
  "addr_from_field address_of rec idx =
    address_of (trim (field_or ''0x0000000000000000000000000000000000000000'' rec idx))"

fun protocol_of_version :: "u8 \<Rightarrow> pool_protocol" where
  "protocol_of_version version =
    (if version = 2 then UniswapV2
     else if version = 3 then PancakeSwapV2
     else if version = 4 then Aerodrome
     else if version = 5 then Aerodrome
     else if version = 10 then BalancerV2
     else if version = 11 then CurveTwoCrypto
     else if version = 12 then CurveTriCrypto
     else if version = 13 then MaverickV2
     else UniswapV2)"

definition v2_pool_of_record :: "(string \<Rightarrow> address option) \<Rightarrow> csv_record \<Rightarrow> raw_pool option" where
  "v2_pool_of_record address_of rec =
    do {
      a \<leftarrow> addr_from_field address_of rec 0;
      let version = number_or (2 :: u8) parse_unsigned ''2'' rec 1;
      token0 \<leftarrow> addr_from_field address_of rec 2;
      token1 \<leftarrow> addr_from_field address_of rec 3;
      Some \<lparr> rp_address = a, rp_token0 = token0, rp_token1 = token1,
             rp_decimals0 = number_or 18 parse_unsigned ''18'' rec 4,
             rp_decimals1 = number_or 18 parse_unsigned ''18'' rec 5,
             rp_fee = number_or 30 parse_unsigned ''30'' rec 6,
             rp_tick_spacing = (if version = 5 then 1 else 0),
             rp_protocol = protocol_of_version version \<rparr>
    }"

definition map_v3_protocol :: "string \<Rightarrow> string \<Rightarrow> pool_protocol" where
  "map_v3_protocol protocol dex =
    (let combined = map lower_char (protocol @ dex)
     in if contains_text combined ''sushi'' then SushiSwapV3
        else if contains_text combined ''pancake'' then PancakeSwapV3
        else if contains_text combined ''baseswap'' then BaseSwapV3
        else if contains_text combined ''alienbase'' then AlienBaseV3
        else if contains_text combined ''aero'' \<or> contains_text combined ''slipstream'' then Slipstream
        else if contains_text combined ''algebra'' \<or> contains_text combined ''thena'' \<or> contains_text combined ''fusion''
        then AlgebraV1
        else if contains_text combined ''maverick'' then MaverickV2
        else if contains_text combined ''balancer'' then BalancerV2
        else if contains_text combined ''curve'' \<and> contains_text combined ''tri'' then CurveTriCrypto
        else if contains_text combined ''curve'' then CurveTwoCrypto
        else UniswapV3)"

definition v3_pool_of_record :: "(string \<Rightarrow> address option) \<Rightarrow> csv_record \<Rightarrow> raw_pool option" where
  "v3_pool_of_record address_of rec =
    do {
      let protocol_str = field_or ''UniswapV3CL'' rec 0;
      a \<leftarrow> addr_from_field address_of rec 1;
      let tick_spacing = number_or 1 parse_i32 ''1'' rec 4;
      let fee = number_or 500 parse_unsigned ''500'' rec 5;
      token0 \<leftarrow> addr_from_field address_of rec 6;
      token1 \<leftarrow> addr_from_field address_of rec 7;
      Some \<lparr> rp_address = a, rp_token0 = token0, rp_token1 = token1,
             rp_decimals0 = number_or 18 parse_unsigned ''18'' rec 8,
             rp_decimals1 = number_or 18 parse_unsigned ''18'' rec 9,
             rp_fee = fee, rp_tick_spacing = tick_spacing,
             rp_protocol = map_v3_protocol protocol_str (field_or '''' rec 10) \<rparr>
    }"

text \<open>
  A file that does not exist gives no pools, one that cannot be opened an error. Records are read in
  order; the first that cannot be read or converted ends the load with an error (\<open>None\<close>).
\<close>

datatype csv_file = Missing | Unopenable | Records "csv_record option list"

fun read_records :: "(csv_record \<Rightarrow> raw_pool option) \<Rightarrow> csv_record option list \<Rightarrow> raw_pool list option" where
  "read_records conv [] = Some []"
| "read_records conv (r # rs) =
    do {
      rec \<leftarrow> r;
      pool \<leftarrow> conv rec;
      pools \<leftarrow> read_records conv rs;
      Some (pool # pools)
    }"

definition load_pools_from_csv :: "(csv_record \<Rightarrow> raw_pool option) \<Rightarrow> csv_file \<Rightarrow> raw_pool list option" where
  "load_pools_from_csv conv file =
    (case file of
       Missing \<Rightarrow> Some []
     | Unopenable \<Rightarrow> None
     | Records rs \<Rightarrow> read_records conv rs)"

definition load_v2_pools_from_csv :: "(string \<Rightarrow> address option) \<Rightarrow> csv_file \<Rightarrow> raw_pool list option" where
  "load_v2_pools_from_csv address_of = load_pools_from_csv (v2_pool_of_record address_of)"

definition load_v3_pools_from_csv :: "(string \<Rightarrow> address option) \<Rightarrow> csv_file \<Rightarrow> raw_pool list option" where
  "load_v3_pools_from_csv address_of = load_pools_from_csv (v3_pool_of_record address_of)"

definition load_all_pools_from_cache ::
    "(string \<Rightarrow> address option) \<Rightarrow> csv_file \<Rightarrow> csv_file \<Rightarrow> raw_pool list option" where
  "load_all_pools_from_cache address_of v2_file v3_file =
    do {
      pools \<leftarrow> load_v2_pools_from_csv address_of v2_file;
      v3_pools \<leftarrow> load_v3_pools_from_csv address_of v3_file;
      Some (pools @ v3_pools)
    }"

text \<open>The rows that are appended to the V2 file, without the header.\<close>

definition version_of_protocol :: "pool_protocol \<Rightarrow> u8" where
  "version_of_protocol p = (case p of Aerodrome \<Rightarrow> 5 | _ \<Rightarrow> 2)"

definition v2_row :: "(address \<Rightarrow> string) \<Rightarrow> nat \<Rightarrow> raw_pool \<Rightarrow> csv_record" where
  "v2_row show_address i p =
    [show_address (rp_address p), show_unsigned (version_of_protocol (rp_protocol p)),
     show_address (rp_token0 p), show_address (rp_token1 p), show_unsigned (rp_decimals0 p),
     show_unsigned (rp_decimals1 p), show_unsigned (rp_fee p), ''0'', ''0'', show_nat i]"

definition append_v2_rows :: "(address \<Rightarrow> string) \<Rightarrow> raw_pool list \<Rightarrow> csv_record list" where
  "append_v2_rows show_address pools = map (\<lambda>(i, p). v2_row show_address i p) (enumerate 0 pools)"

definition v2_header :: csv_record where
  "v2_header = [''address'', ''version'', ''token0'', ''token1'', ''decimals0'', ''decimals1'', ''fee'',
                ''block_number'', ''timestamp'', ''id'']"

text \<open>All rows of the file after an append; the reader takes the first row as the header.\<close>

definition append_v2_pools_to_csv ::
    "(address \<Rightarrow> string) \<Rightarrow> raw_pool list \<Rightarrow> csv_record list option \<Rightarrow> csv_record list" where
  "append_v2_pools_to_csv show_address pools file =
    (case file of None \<Rightarrow> [v2_header] | Some rows \<Rightarrow> rows) @ append_v2_rows show_address pools"

section \<open>Factory logs\<close>

record factory_spec =
  fs_address :: address
  fs_protocol :: pool_protocol
  fs_from_block :: u64
  fs_default_tick_spacing :: "32 word"

record factory_log =
  fl_topics :: "u256 list"
  fl_data :: "u8 list"

definition log_fee :: "u256 \<Rightarrow> u32" where
  "log_fee topic =
    (let fee_bytes = be_bytes 32 topic
     in shr (from_be_bytes [fee_bytes ! 29, fee_bytes ! 30, fee_bytes ! 31, 0]) 8 OR shl (ucast (fee_bytes ! 28)) 16)"

definition decode_log :: "factory_spec \<Rightarrow> factory_log \<Rightarrow> raw_pool option" where
  "decode_log spec log =
    (let topics = fl_topics log;
         data = fl_data log
     in if length topics < 3 then None
        else
          let token0 = (ucast (topics ! 1) :: address);
              token1 = (ucast (topics ! 2) :: address)
          in if is_v3 (fs_protocol spec)
             then
               let fee = (if 4 \<le> length topics then log_fee (topics ! 3) else 500)
               in if length data < 64 then None
                  else Some \<lparr> rp_address = from_be_bytes (take 20 (drop 44 data)), rp_token0 = token0, rp_token1 = token1,
                              rp_decimals0 = 18, rp_decimals1 = 18, rp_fee = fee,
                              rp_tick_spacing = from_be_bytes (take 4 (drop 28 data)), rp_protocol = fs_protocol spec \<rparr>
             else if length data < 32 then None
             else Some \<lparr> rp_address = from_be_bytes (take 20 (drop 12 data)), rp_token0 = token0, rp_token1 = token1,
                         rp_decimals0 = 18, rp_decimals1 = 18, rp_fee = 30, rp_tick_spacing = 0,
                         rp_protocol = fs_protocol spec \<rparr>)"

text \<open>The loop over the block ranges, which may not end; \<open>get_logs\<close> is the node (\<open>None\<close> for an error).\<close>

partial_function (option) crawl_loop ::
    "(u64 \<Rightarrow> u64 \<Rightarrow> factory_log list option) \<Rightarrow> factory_spec \<Rightarrow> u64 \<Rightarrow> u64 \<Rightarrow> u64 \<Rightarrow> raw_pool list \<Rightarrow>
     raw_pool list option" where
  "crawl_loop get_logs spec to_block chunk_size from pools =
    (if from \<le> to_block
     then let to = min (from + chunk_size - 1) to_block;
              found = (case get_logs from to of None \<Rightarrow> [] | Some logs \<Rightarrow> List.map_filter (decode_log spec) logs)
          in crawl_loop get_logs spec to_block chunk_size (to + 1) (pools @ found)
     else Some pools)"

definition crawl_factory_logs ::
    "(u64 \<Rightarrow> u64 \<Rightarrow> factory_log list option) \<Rightarrow> factory_spec \<Rightarrow> u64 \<Rightarrow> u64 \<Rightarrow> raw_pool list option" where
  "crawl_factory_logs get_logs spec to_block chunk_size =
    crawl_loop get_logs spec to_block chunk_size (fs_from_block spec) []"

section \<open>Conversions\<close>

definition raw_to_pool_metas :: "raw_pool list \<Rightarrow> pool_meta list" where
  "raw_to_pool_metas pools = map to_pool_meta pools"

definition raw_to_addresses :: "raw_pool list \<Rightarrow> address list" where
  "raw_to_addresses pools = map rp_address pools"

definition raw_to_pools_vec :: "raw_pool list \<Rightarrow> (address \<times> bool) list" where
  "raw_to_pools_vec pools = map (\<lambda>p. (rp_address p, raw_is_v3 p)) pools"


section \<open>Numbers survive printing\<close>

lemma decimal_digit_of_char: "d < 10 \<Longrightarrow> decimal_digit (char_of (48 + d)) = Some d"
  by (simp add: decimal_digit_def of_char_of)

lemma decimal_value_append:
  "decimal_value acc (s @ t) = (case decimal_value acc s of None \<Rightarrow> None | Some v \<Rightarrow> decimal_value v t)"
  by (induction acc s rule: decimal_value.induct) (simp_all split: option.split)

lemma decimal_value_show: "\<exists>k. \<forall>acc. decimal_value acc (show_nat n) = Some (acc * 10 ^ k + n)"
proof (induction n rule: show_nat.induct)
  case (1 n)
  show ?case
  proof (cases "n < 10")
    case True
    then show ?thesis by (intro exI [of _ 1]) (simp add: show_nat.simps [of n] decimal_digit_of_char)
  next
    case False
    then obtain k where k: "\<forall>acc. decimal_value acc (show_nat (n div 10)) = Some (acc * 10 ^ k + n div 10)"
      using 1 by blast
    show ?thesis
      using False k
      by (intro exI [of _ "Suc k"])
        (simp add: show_nat.simps [of n] decimal_value_append decimal_digit_of_char distrib_right)
  qed
qed

lemma show_nat_head: "\<exists>c s. show_nat n = c # s \<and> c \<noteq> CHR ''+''"
proof (induction n rule: show_nat.induct)
  case (1 n)
  have "char_of (48 + d) \<noteq> CHR ''+''" if "d < 10" for d :: nat
  proof
    assume "char_of (48 + d) = CHR ''+''"
    then have "decimal_digit CHR ''+'' = Some d" using decimal_digit_of_char [OF that] by simp
    moreover have "decimal_digit CHR ''+'' = None" by code_simp
    ultimately show False by simp
  qed
  then show ?case using 1 by (cases "n < 10") (auto simp: show_nat.simps [of n])
qed

lemma parse_show_unsigned: "parse_unsigned (show_unsigned (x :: 'a::len word)) = Some x"
proof -
  obtain c s where c: "show_nat (unat x) = c # s" "c \<noteq> CHR ''+''" using show_nat_head by blast
  have "decimal_value 0 (show_nat (unat x)) = Some (unat x)" using decimal_value_show [of "unat x"] by force
  then show ?thesis using c by (simp add: parse_unsigned_def show_unsigned_def)
qed


section \<open>The V2 file\<close>

text \<open>What the code relies on of the address printer and parser.\<close>

definition address_text_ok :: "(address \<Rightarrow> string) \<Rightarrow> (string \<Rightarrow> address option) \<Rightarrow> bool" where
  "address_text_ok show_address address_of \<longleftrightarrow>
     (\<forall>a. trim (show_address a) = show_address a \<and> address_of (show_address a) = Some a)"

text \<open>What an append keeps of a pool.\<close>

definition as_reloaded :: "raw_pool \<Rightarrow> raw_pool" where
  "as_reloaded p =
    p\<lparr>rp_protocol := (if rp_protocol p = Aerodrome then Aerodrome else UniswapV2),
      rp_tick_spacing := (if rp_protocol p = Aerodrome then 1 else 0)\<rparr>"

lemma load_v2_row:
  assumes "address_text_ok show_address address_of"
  shows "v2_pool_of_record address_of (v2_row show_address i p) = Some (as_reloaded p)"
proof -
  have field: "number_or fallback parse_unsigned dflt (v2_row show_address i p) k = n"
    if "k < length (v2_row show_address i p)" "v2_row show_address i p ! k = show_unsigned n"
    for fallback n :: "'a::len word" and dflt k
    using that by (simp add: number_or_def field_or_def parse_show_unsigned)
  have addr: "addr_from_field address_of (v2_row show_address i p) k = Some a"
    if "k < length (v2_row show_address i p)" "v2_row show_address i p ! k = show_address a" for a k
    using that assms by (simp add: addr_from_field_def field_or_def address_text_ok_def)
  have a: "addr_from_field address_of (v2_row show_address i p) 0 = Some (rp_address p)"
    "addr_from_field address_of (v2_row show_address i p) 2 = Some (rp_token0 p)"
    "addr_from_field address_of (v2_row show_address i p) 3 = Some (rp_token1 p)"
    by (rule addr; simp add: v2_row_def)+
  have n: "number_or (2 :: u8) parse_unsigned dflt (v2_row show_address i p) 1 = version_of_protocol (rp_protocol p)"
    "number_or (18 :: u8) parse_unsigned dflt (v2_row show_address i p) 4 = rp_decimals0 p"
    "number_or (18 :: u8) parse_unsigned dflt (v2_row show_address i p) 5 = rp_decimals1 p"
    "number_or (30 :: u32) parse_unsigned dflt (v2_row show_address i p) 6 = rp_fee p" for dflt
    by (rule field; simp add: v2_row_def)+
  have v: "version_of_protocol q = (if q = Aerodrome then 5 else 2)" for q
    by (cases q) (simp_all add: version_of_protocol_def)
  show ?thesis
    unfolding v2_pool_of_record_def Let_def a n
    by (simp add: v as_reloaded_def)
qed

lemma load_v2_rows:
  assumes "address_text_ok show_address address_of"
  shows "read_records (v2_pool_of_record address_of) (map Some (map (\<lambda>(i, p). v2_row show_address i p) (enumerate n pools)))
         = Some (map as_reloaded pools)"
proof (induction pools arbitrary: n)
  case (Cons p pools)
  then show ?case using load_v2_row [OF assms, of n p] Cons.IH [of "Suc n"] by simp
qed simp

lemma read_records_append:
  "read_records conv (rs @ qs) =
     (case read_records conv rs of
        None \<Rightarrow> None
      | Some ps \<Rightarrow> map_option ((@) ps) (read_records conv qs))"
proof (induction rs)
  case Nil
  then show ?case by (cases "read_records conv qs") simp_all
next
  case (Cons r rs)
  then show ?case
    by (cases r; cases "read_records conv rs"; cases "read_records conv qs")
      (auto split: option.split bind_splits)
qed

text \<open>
  C36. Append and load of the V2 file: after appending to a file that loads, or to none, the load gives
  the old pools and then the appended ones in order, with addresses, tokens, decimals and fee kept; the
  protocol is kept for UniswapV2 and Aerodrome, and the tick spacing for the volatile kind, only.
\<close>

theorem csv_append_then_load:
  assumes "address_text_ok show_address address_of"
    and "case before of None \<Rightarrow> old = []
         | Some rows \<Rightarrow> rows \<noteq> [] \<and> load_v2_pools_from_csv address_of (Records (map Some (tl rows))) = Some old"
  shows "load_v2_pools_from_csv address_of
           (Records (map Some (tl (append_v2_pools_to_csv show_address pools before))))
         = Some (old @ map as_reloaded pools)"
proof (cases before)
  case None
  then show ?thesis
    using assms load_v2_rows [OF assms(1), of 0 pools]
    by (simp add: append_v2_pools_to_csv_def append_v2_rows_def load_v2_pools_from_csv_def load_pools_from_csv_def)
next
  case (Some rows)
  then have "read_records (v2_pool_of_record address_of) (map Some (tl rows)) = Some old" "rows \<noteq> []"
    using assms(2) by (simp_all add: load_v2_pools_from_csv_def load_pools_from_csv_def)
  then show ?thesis
    using Some load_v2_rows [OF assms(1), of 0 pools]
    by (simp add: append_v2_pools_to_csv_def append_v2_rows_def load_v2_pools_from_csv_def load_pools_from_csv_def
        read_records_append)
qed

text \<open>So a pool survives exactly when the protocol and the tick spacing are those the file can say.\<close>

lemma as_reloaded_same_iff:
  "as_reloaded p = p \<longleftrightarrow>
     rp_protocol p = UniswapV2 \<and> rp_tick_spacing p = 0 \<or> rp_protocol p = Aerodrome \<and> rp_tick_spacing p = 1"
  by (cases p) (auto simp: as_reloaded_def)

text \<open>An address printer and parser: as many tens as the number says.\<close>

definition sample_show :: "address \<Rightarrow> string" where
  "sample_show a = show_nat (unat a)"

lemma show_nat_digits: "c \<in> set (show_nat n) \<Longrightarrow> \<exists>d < 10 :: nat. c = char_of (48 + d)"
proof (induction n rule: show_nat.induct)
  case (1 n)
  show ?case
  proof (cases "n < 10")
    case True
    then have "c = char_of (48 + n)" using "1.prems" by (simp add: show_nat.simps [of n])
    then show ?thesis using True by blast
  next
    case False
    then have "c \<in> set (show_nat (n div 10)) \<or> c = char_of (48 + n mod 10)"
      using "1.prems" by (auto simp: show_nat.simps [of n])
    moreover have "n mod 10 < 10" by simp
    ultimately show ?thesis using "1.IH" False by blast
  qed
qed

lemma show_nat_no_space: "\<forall>c \<in> set (show_nat n). \<not> is_space c"
  using show_nat_digits [of _ n] by (fastforce simp: is_space_def Let_def of_char_of)

lemma trim_word: "\<forall>c \<in> set s. \<not> is_space c \<Longrightarrow> trim s = s"
proof -
  assume a: "\<forall>c \<in> set s. \<not> is_space c"
  have "dropWhile is_space t = t" if "\<forall>c \<in> set t. \<not> is_space c" for t
    using that by (cases t) auto
  from this [of s] this [of "rev s"] a show ?thesis by (simp add: trim_def)
qed

lemmas trim_show_nat = trim_word [OF show_nat_no_space]

lemma sample_text_ok: "address_text_ok sample_show parse_unsigned"
  using parse_show_unsigned [where 'a = 160]
  by (simp add: address_text_ok_def sample_show_def trim_show_nat show_unsigned_def)

definition sample_pancake :: raw_pool where
  "sample_pancake = \<lparr> rp_address = 1, rp_token0 = 2, rp_token1 = 3, rp_decimals0 = 18, rp_decimals1 = 6, rp_fee = 25,
                      rp_tick_spacing = 0, rp_protocol = PancakeSwapV2 \<rparr>"

theorem csv_append_then_load_witness:
  "load_v2_pools_from_csv parse_unsigned
     (Records (map Some (tl (append_v2_pools_to_csv sample_show [sample_pancake] None))))
   = Some [sample_pancake\<lparr>rp_protocol := UniswapV2\<rparr>]"
  using csv_append_then_load [OF sample_text_ok, where before = None and old = "[]" and pools = "[sample_pancake]"]
  by (simp add: as_reloaded_def sample_pancake_def)


section \<open>The crawl\<close>

text \<open>A node that answers a range with the logs of its blocks in order.\<close>

definition answers_blocks ::
    "(u64 \<Rightarrow> u64 \<Rightarrow> factory_log list option) \<Rightarrow> (u64 \<Rightarrow> factory_log list) \<Rightarrow> bool" where
  "answers_blocks get_logs logs_of \<longleftrightarrow> (\<forall>a b. get_logs a b = Some (concat (map logs_of (blocks_between a b))))"

lemma blocks_between_split:
  assumes "a \<le> b" "b < (c :: u64)"
  shows "blocks_between a c = blocks_between a b @ blocks_between (b + 1) c"
proof -
  have "unat b < unat c" "unat a \<le> unat b" using assms by (simp_all add: word_less_nat_alt word_le_nat_alt)
  moreover have "unat (b + 1) = unat b + 1"
    using \<open>unat b < unat c\<close> unat_less [of c] by (intro unat_plus_one) simp
  ultimately show ?thesis
    using upt_add_eq_append [of "unat a" "unat b + 1" "unat c - unat b"]
    by (simp add: blocks_between_def del: upt_Suc)
qed

lemma blocks_between_empty: "b < a \<Longrightarrow> blocks_between a b = []"
  by (simp add: blocks_between_def word_less_nat_alt)

lemma map_filter_append: "List.map_filter f (xs @ ys) = List.map_filter f xs @ List.map_filter f ys"
  by (simp add: List.map_filter_def)

lemma crawl_loop_complete:
  assumes "answers_blocks get_logs logs_of" "0 < chunk_size" "unat to_block + unat chunk_size < 2 ^ 64"
  shows "crawl_loop get_logs spec to_block chunk_size lo pools =
    Some (pools @ List.map_filter (decode_log spec) (concat (map logs_of (blocks_between lo to_block))))"
proof (induction "unat to_block + 1 - unat lo" arbitrary: lo pools rule: less_induct)
  case less
  show ?case
  proof (cases "lo \<le> to_block")
    case False
    then show ?thesis
      by (subst crawl_loop.simps) (simp add: blocks_between_empty List.map_filter_def)
  next
    case True
    let ?to = "min (lo + chunk_size - 1) to_block"
    let ?found = "List.map_filter (decode_log spec) (concat (map logs_of (blocks_between lo ?to)))"
    have "unat (lo + chunk_size) = unat lo + unat chunk_size"
      using True assms(3) by (intro unat_add_exact) (simp add: word_le_nat_alt)
    moreover have "0 < unat chunk_size" using assms(2) by (simp add: word_less_nat_alt)
    ultimately have "unat (lo + chunk_size - 1) = unat lo + unat chunk_size - 1"
      by (subst unat_sub_exact) (simp_all add: word_le_nat_alt)
    then have le: "lo \<le> ?to" using True \<open>0 < unat chunk_size\<close> by (simp add: word_le_nat_alt)
    have "unat ?to \<le> unat to_block" by (simp add: word_le_nat_alt [symmetric])
    then have nxt: "unat (?to + 1) = unat ?to + 1" using assms(3) \<open>0 < unat chunk_size\<close>
      by (intro unat_plus_one) simp
    have smaller: "unat to_block + 1 - unat (?to + 1) < unat to_block + 1 - unat lo"
      using le True \<open>unat ?to \<le> unat to_block\<close> unfolding nxt by (simp add: word_le_nat_alt)
    have split: "blocks_between lo to_block = blocks_between lo ?to @ blocks_between (?to + 1) to_block"
    proof (cases "?to = to_block")
      case True
      have "unat to_block < unat (?to + 1)" using True nxt by simp
      then have "blocks_between (?to + 1) to_block = []" by (intro blocks_between_empty) (simp add: word_less_nat_alt)
      then show ?thesis using True by simp
    next
      case False
      then have "?to < to_block" unfolding less_le by simp
      then show ?thesis using le by (intro blocks_between_split)
    qed
    have "crawl_loop get_logs spec to_block chunk_size lo pools
        = crawl_loop get_logs spec to_block chunk_size (?to + 1) (pools @ ?found)"
      using True assms(1) by (subst crawl_loop.simps) (simp add: answers_blocks_def Let_def)
    also have "\<dots> = Some ((pools @ ?found) @
        List.map_filter (decode_log spec) (concat (map logs_of (blocks_between (?to + 1) to_block))))"
      using less.hyps [OF smaller] .
    finally show ?thesis unfolding split by (simp add: map_filter_append)
  qed
qed

text \<open>
  C35. The crawl of a factory ends for every positive chunk size (with room before the 64-bit end) and
  finds the pools of all blocks from the first to the last one, each block exactly once and in order,
  whatever the chunk size.
\<close>

theorem crawl_finds_every_block:
  assumes "answers_blocks get_logs logs_of" "0 < chunk_size" "unat to_block + unat chunk_size < 2 ^ 64"
  shows "crawl_factory_logs get_logs spec to_block chunk_size =
    Some (List.map_filter (decode_log spec) (concat (map logs_of (blocks_between (fs_from_block spec) to_block))))"
  using crawl_loop_complete [OF assms] by (simp add: crawl_factory_logs_def)

text \<open>With a chunk size of 0 the crawl never ends, unless it starts at block 0.\<close>

lemma crawl_zero_chunk_diverges:
  assumes "0 < fs_from_block spec" "fs_from_block spec \<le> to_block"
  shows "crawl_factory_logs get_logs spec to_block 0 = None"
proof (rule ccontr)
  assume "crawl_factory_logs get_logs spec to_block 0 \<noteq> None"
  then obtain r where ret: "crawl_loop get_logs spec to_block 0 (fs_from_block spec) [] = Some r"
    by (auto simp: crawl_factory_logs_def)
  have "0 = (0 :: u64) \<longrightarrow> 0 < fs_from_block spec \<longrightarrow> \<not> fs_from_block spec \<le> to_block"
  proof (rule crawl_loop.raw_induct [where P = "\<lambda>g s t c lo ps r. c = 0 \<longrightarrow> 0 < lo \<longrightarrow> \<not> lo \<le> t", OF _ ret],
      intro impI notI)
    fix loop and g :: "u64 \<Rightarrow> u64 \<Rightarrow> factory_log list option" and s t c lo and ps r :: "raw_pool list"
    assume IH: "\<And>g s t c lo ps r. loop g s t c lo ps = Some r \<Longrightarrow> c = 0 \<longrightarrow> 0 < lo \<longrightarrow> \<not> lo \<le> t"
      and eq: "(if lo \<le> t
        then let to = min (lo + c - 1) t;
                 found = (case g lo to of None \<Rightarrow> [] | Some logs \<Rightarrow> List.map_filter (decode_log s) logs)
             in loop g s t c (to + 1) (ps @ found)
        else Some ps) = Some r"
      and c: "c = 0" and lo: "0 < lo" "lo \<le> t"
    have "1 \<le> lo" using lo(1) by (simp add: word_le_nat_alt word_less_nat_alt)
    then have "lo - 1 \<le> t" using lo(2) by (simp add: word_le_nat_alt unat_sub_exact)
    then have same: "min (lo + c - 1) t + 1 = lo" using c by (simp add: min_def)
    from eq lo(2) obtain ps' where "loop g s t c lo ps' = Some r" by (auto simp: Let_def same)
    from IH [OF this] c lo show False by blast
  qed
  then show False using assms by blast
qed

definition sample_spec :: factory_spec where
  "sample_spec = \<lparr> fs_address = 9, fs_protocol = UniswapV2, fs_from_block = 5, fs_default_tick_spacing = 0 \<rparr>"

theorem crawl_finds_every_block_witness:
  "crawl_factory_logs (\<lambda>a b. Some (concat (map (\<lambda>n. [\<lparr> fl_topics = [0, 1, 2], fl_data = be_bytes 32 (ucast n :: u256) \<rparr>])
       (blocks_between a b)))) sample_spec 6 1
   = Some [\<lparr> rp_address = 5, rp_token0 = 1, rp_token1 = 2, rp_decimals0 = 18, rp_decimals1 = 18, rp_fee = 30,
             rp_tick_spacing = 0, rp_protocol = UniswapV2 \<rparr>,
           \<lparr> rp_address = 6, rp_token0 = 1, rp_token1 = 2, rp_decimals0 = 18, rp_decimals1 = 18, rp_fee = 30,
             rp_tick_spacing = 0, rp_protocol = UniswapV2 \<rparr>]"
proof -
  let ?logs = "\<lambda>n :: u64. [\<lparr> fl_topics = [0, 1, 2], fl_data = be_bytes 32 (ucast n :: u256) \<rparr>]"
  have "answers_blocks (\<lambda>a b. Some (concat (map ?logs (blocks_between a b)))) ?logs" by (simp add: answers_blocks_def)
  moreover have "(0 :: u64) < 1" "unat (6 :: u64) + unat (1 :: u64) < 2 ^ 64" by simp_all
  ultimately have "crawl_factory_logs (\<lambda>a b. Some (concat (map ?logs (blocks_between a b)))) sample_spec 6 1 =
      Some (List.map_filter (decode_log sample_spec) (concat (map ?logs (blocks_between (fs_from_block sample_spec) 6))))"
    by (rule crawl_finds_every_block)
  also have "blocks_between (fs_from_block sample_spec) 6 = [5, 6]"
    by (simp add: blocks_between_def sample_spec_def upt_rec)
  also have "List.map_filter (decode_log sample_spec) (concat (map ?logs [5, 6])) = map (the \<circ> decode_log sample_spec) (concat (map ?logs [5, 6]))"
    by (simp add: List.map_filter_def decode_log_def sample_spec_def)
  finally show ?thesis
    by (simp add: decode_log_def sample_spec_def) code_simp
qed

end
