(* ===== verification/Config.thy ===== *)
theory Config
  imports GasStation "HOL-Library.Sublist"
begin

text \<open>
  \<open>src/config.rs\<close>: the configuration records with their defaults, the address placeholders of the
  configuration files, and loading. The TOML parser is a parameter, and so is the file system. A table
  of strings is the list of its entries in the order in which its hash map is walked. An \<open>f64\<close> is kept
  as the 64 bits of its IEEE encoding.
\<close>

section \<open>Records\<close>

type_synonym f64_bits = u64

record revm_filter_config =
  rf_routers :: "(string \<times> string) list"

record chain_config =
  ch_name :: string
  ch_chain_id :: u64
  ch_https_url :: string
  ch_wss_url :: string
  ch_wss_urls :: "string list"
  ch_cache_dir :: "string option"
  ch_sequencer_url :: "string option"
  ch_blacklisted_tokens :: "string list"
  ch_max_profit_pct :: f64_bits

record token_config =
  tk_symbol :: string
  tk_address :: string
  tk_decimals :: u8
  tk_price_pool :: "string option"

record aave_v3_config =
  av_pool :: string
  av_oracle :: "string option"

record lfj_config =
  lf_enabled :: bool
  lf_router_v22 :: "string option"
  lf_router_v21 :: "string option"

record v2_config =
  v2c_enabled :: bool
  v2c_factories :: "string list"
  v2c_routers :: "string list"
  v2c_from_blocks :: "u64 list"
  v2c_fee_bps :: u32
  v2c_direct_pair :: bool

record v3_config =
  v3c_enabled :: bool
  v3c_factories :: "string list"
  v3c_routers :: "string list"
  v3c_quoter :: "string option"
  v3c_fee_tiers :: "u32 list"

record algebra_config =
  al_enabled :: bool
  al_factories :: "string list"
  al_routers :: "string list"
  al_quoter :: "string option"

record uniswapv3cl_config =
  cl_enabled :: bool
  cl_factory :: "string option"
  cl_factories :: "string list"
  cl_router :: "string option"
  cl_routers :: "string list"
  cl_quoter :: "string option"

record dexes_config =
  dx_v2 :: "v2_config option"
  dx_v3 :: "v3_config option"
  dx_algebra :: "algebra_config option"
  dx_uniswapv3cl :: "uniswapv3cl_config option"
  dx_lfj :: "lfj_config option"

record gas_config =
  gc_enabled :: bool
  gc_token_symbol :: "string option"
  gc_token_address :: "string option"
  gc_token_decimals :: "u8 option"
  gc_stable_symbol :: "string option"
  gc_stable_address :: "string option"
  gc_stable_decimals :: "u8 option"
  gc_pool_address :: "string option"
  gc_token_is_token0 :: "bool option"

record execution_config =
  ex_use_flashloan :: bool
  ex_default_flashloan_provider :: string
  ex_dynamic_flashloan_routing :: bool
  ex_flashloan_providers :: "string list"
  ex_flash_loan_fee_uniswap_v3_bps :: u64
  ex_flash_loan_fee_pancakeswap_v3_bps :: u64
  ex_private_rpc_url :: "string option"
  ex_max_gas_limit :: u64
  ex_profit_share_bps :: u64
  ex_min_submit_profit_wei :: u64
  ex_min_sim_profit_wei :: u64
  ex_optimization_steps :: nat
  ex_min_input_eth :: f64_bits
  ex_max_input_eth :: f64_bits
  ex_max_hops :: nat
  ex_max_paths_per_token :: nat
  ex_max_paths_per_block :: nat
  ex_searcher_gas_estimate :: u64
  ex_num_simulators :: nat
  ex_channel_buffer :: nat
  ex_broadcast_capacity :: nat
  ex_flash_loan_fee_aave_bps :: u64
  ex_enable_mempool :: bool
  ex_max_stale_blocks :: u64
  ex_strike_threshold :: u32

record config =
  cfg_chain :: chain_config
  cfg_start_tokens :: "token_config list"
  cfg_dexes :: dexes_config
  cfg_gas :: gas_config
  cfg_execution :: execution_config
  cfg_revm_filter :: revm_filter_config
  cfg_gas_params :: gas_params_config
  cfg_aave_v3 :: "aave_v3_config option"

section \<open>Defaults\<close>

definition default_flashloan_provider :: string where
  "default_flashloan_provider = ''AaveV3''"

definition default_flashloan_providers :: "string list" where
  "default_flashloan_providers = [''AaveV3'', ''UniswapV3'', ''PancakeSwapV3'']"

text \<open>0.01 and 50.0.\<close>

definition default_min_input_eth :: f64_bits where "default_min_input_eth = 0x3F847AE147AE147B"
definition default_max_input_eth :: f64_bits where "default_max_input_eth = 0x4049000000000000"
definition default_max_profit_pct :: f64_bits where "default_max_profit_pct = 0x4049000000000000"
definition default_v2_fee_bps :: u32 where "default_v2_fee_bps = 30"

definition execution_config_default :: execution_config where
  "execution_config_default =
    \<lparr> ex_use_flashloan = True, ex_default_flashloan_provider = default_flashloan_provider,
      ex_dynamic_flashloan_routing = True, ex_flashloan_providers = default_flashloan_providers,
      ex_flash_loan_fee_uniswap_v3_bps = 0, ex_flash_loan_fee_pancakeswap_v3_bps = 0,
      ex_private_rpc_url = None, ex_max_gas_limit = 1000000, ex_profit_share_bps = 5000,
      ex_min_submit_profit_wei = 50000000000000, ex_min_sim_profit_wei = 100000000000000,
      ex_optimization_steps = 20, ex_min_input_eth = default_min_input_eth,
      ex_max_input_eth = default_max_input_eth, ex_max_hops = 4, ex_max_paths_per_token = 200000,
      ex_max_paths_per_block = 50000, ex_searcher_gas_estimate = 250000, ex_num_simulators = 4,
      ex_channel_buffer = 256, ex_broadcast_capacity = 128, ex_flash_loan_fee_aave_bps = 5,
      ex_enable_mempool = False, ex_max_stale_blocks = 3, ex_strike_threshold = 3 \<rparr>"

definition gas_params_default :: gas_params_config where
  "gas_params_default =
    \<lparr> gp_eip1559_elasticity_multiplier = 6, gp_eip1559_base_fee_change_denominator = 50,
      gp_min_base_fee_wei = 1000000, gp_priority_fee_cap_gwei = 10 \<rparr>"

section \<open>V3 factories and routers\<close>

definition all_factories :: "uniswapv3cl_config \<Rightarrow> string list" where
  "all_factories c =
    fold (\<lambda>f out. if f \<in> set out then out else out @ [f]) (cl_factories c)
      (case cl_factory c of Some f \<Rightarrow> [f] | None \<Rightarrow> [])"

definition router_for :: "uniswapv3cl_config \<Rightarrow> nat \<Rightarrow> string option" where
  "router_for c idx =
    (if idx < length (cl_routers c) then Some (cl_routers c ! idx)
     else if cl_routers c \<noteq> [] then Some (last (cl_routers c))
     else cl_router c)"

section \<open>Address placeholders\<close>

text \<open>\<open>str::replace\<close> for a pattern that is not empty: every occurrence from the left, none overlapping.\<close>

fun replace_skip :: "string \<Rightarrow> string \<Rightarrow> nat \<Rightarrow> string \<Rightarrow> string" where
  "replace_skip pat rep n [] = []"
| "replace_skip pat rep (Suc n) (c # s) = replace_skip pat rep n s"
| "replace_skip pat rep 0 (c # s) =
    (if prefix pat (c # s) then rep @ replace_skip pat rep (length pat - 1) s
     else c # replace_skip pat rep 0 s)"

definition replace_all :: "string \<Rightarrow> string \<Rightarrow> string \<Rightarrow> string" where
  "replace_all pat rep s = replace_skip pat rep 0 s"

definition placeholder :: "string \<Rightarrow> string" where
  "placeholder key = ''{{'' @ key @ ''}}''"

definition substitute :: "(string \<times> string) list \<Rightarrow> string \<Rightarrow> string" where
  "substitute addresses raw = fold (\<lambda>(key, value) out. replace_all (placeholder key) value out) addresses raw"

datatype config_error =
    Read_Failed string string
  | Prelude_Failed string string
  | Address_Read_Failed string string
  | Address_Parse_Failed string string
  | Config_Parse_Failed string

text \<open>
  \<open>fs_read\<close> reads a file; \<open>toml_address_file\<close> gives the string at \<open>address_file\<close> of a TOML text, if it
  has one, \<open>toml_addresses\<close> the table \<open>addresses\<close>, \<open>toml_config\<close> the whole configuration.
\<close>

record config_env =
  ce_var :: "string \<Rightarrow> string option"
  ce_read :: "string \<Rightarrow> string + string"
  ce_toml_address_file :: "string \<Rightarrow> string + string option"
  ce_toml_addresses :: "string \<Rightarrow> string + (string \<times> string) list"
  ce_toml_config :: "string \<Rightarrow> string + config"

text \<open>
  \<open>Path::parent\<close> and \<open>join\<close> on paths without doubled or trailing slashes.
\<close>

definition parent_dir :: "string \<Rightarrow> string option" where
  "parent_dir p =
    (if p = [] \<or> p = ''/'' then None
     else let before = dropWhile (\<lambda>c. c \<noteq> CHR ''/'') (rev p)
          in Some (if before = ''/'' then ''/'' else rev (drop 1 before)))"

definition join_path :: "string \<Rightarrow> string \<Rightarrow> string" where
  "join_path base p =
    (if prefix ''/'' p then p
     else if base = [] then p
     else if suffix ''/'' base then base @ p
     else base @ ''/'' @ p)"

definition apply_address_file_substitutions ::
    "config_env \<Rightarrow> string \<Rightarrow> string \<Rightarrow> config_error + string" where
  "apply_address_file_substitutions ce config_path raw =
    (case ce_toml_address_file ce raw of
       Inl e \<Rightarrow> Inl (Prelude_Failed config_path e)
     | Inr None \<Rightarrow> Inr raw
     | Inr (Some address_file) \<Rightarrow>
         (let base_dir = (case parent_dir config_path of Some d \<Rightarrow> d | None \<Rightarrow> ''.'');
              address_path = join_path base_dir address_file
          in case ce_read ce address_path of
               Inl e \<Rightarrow> Inl (Address_Read_Failed address_path e)
             | Inr address_raw \<Rightarrow>
                 (case ce_toml_addresses ce address_raw of
                    Inl e \<Rightarrow> Inl (Address_Parse_Failed address_path e)
                  | Inr addresses \<Rightarrow> Inr (substitute addresses raw))))"

definition resolve_config_path :: "config_env \<Rightarrow> string" where
  "resolve_config_path ce =
    (case ce_var ce ''BOT_CONFIG'' of
       Some path \<Rightarrow> path
     | None \<Rightarrow>
         ''config/'' @ (case ce_var ce ''BOT_CHAIN'' of Some chain \<Rightarrow> chain | None \<Rightarrow> ''avax'') @ ''.toml'')"

definition override_urls :: "config_env \<Rightarrow> config \<Rightarrow> config" where
  "override_urls ce cfg =
    (let cfg = (case ce_var ce ''WSS_URL'' of
                  Some v \<Rightarrow> cfg\<lparr>cfg_chain := (cfg_chain cfg)\<lparr>ch_wss_url := v\<rparr>\<rparr> | None \<Rightarrow> cfg)
     in case ce_var ce ''HTTPS_URL'' of
          Some v \<Rightarrow> cfg\<lparr>cfg_chain := (cfg_chain cfg)\<lparr>ch_https_url := v\<rparr>\<rparr> | None \<Rightarrow> cfg)"

definition config_load :: "config_env \<Rightarrow> config_error + config" where
  "config_load ce =
    (let config_path = resolve_config_path ce
     in case ce_read ce config_path of
          Inl e \<Rightarrow> Inl (Read_Failed config_path e)
        | Inr raw \<Rightarrow>
            (case apply_address_file_substitutions ce config_path raw of
               Inl e \<Rightarrow> Inl e
             | Inr raw \<Rightarrow>
                 (case ce_toml_config ce raw of
                    Inl e \<Rightarrow> Inl (Config_Parse_Failed e)
                  | Inr cfg \<Rightarrow> Inr (override_urls ce cfg))))"

section \<open>Factories and routers\<close>

lemma all_factories_set:
  "set (all_factories c) = set (cl_factories c) \<union> (case cl_factory c of Some f \<Rightarrow> {f} | None \<Rightarrow> {})"
  "distinct (all_factories c)"
proof -
  have "set (fold (\<lambda>f out. if f \<in> set out then out else out @ [f]) fs out) = set fs \<union> set out \<and>
      (distinct out \<longrightarrow> distinct (fold (\<lambda>f out. if f \<in> set out then out else out @ [f]) fs out))"
    for fs out :: "string list"
    by (induction fs arbitrary: out) auto
  then show "set (all_factories c) = set (cl_factories c) \<union> (case cl_factory c of Some f \<Rightarrow> {f} | None \<Rightarrow> {})"
    "distinct (all_factories c)"
    by (simp_all add: all_factories_def split: option.split)
qed

lemma router_for_configured: "cl_routers c \<noteq> [] \<Longrightarrow> \<exists>r \<in> set (cl_routers c). router_for c idx = Some r"
  by (auto simp: router_for_def)

section \<open>Templates\<close>

text \<open>
  A configuration text as the files write it: text without braces, and placeholders.
\<close>

datatype segment = Text string | Hole string

definition no_brace :: "string \<Rightarrow> bool" where
  "no_brace s \<longleftrightarrow> CHR ''{'' \<notin> set s \<and> CHR ''}'' \<notin> set s"

fun segment_ok :: "segment \<Rightarrow> bool" where
  "segment_ok (Text s) = no_brace s"
| "segment_ok (Hole k) = no_brace k"

fun show_segment :: "segment \<Rightarrow> string" where
  "show_segment (Text s) = s"
| "show_segment (Hole k) = placeholder k"

definition show_template :: "segment list \<Rightarrow> string" where
  "show_template ss = concat (map show_segment ss)"

fun fill :: "(string \<rightharpoonup> string) \<Rightarrow> segment \<Rightarrow> segment" where
  "fill m (Text s) = Text s"
| "fill m (Hole k) = (case m k of Some v \<Rightarrow> Text v | None \<Rightarrow> Hole k)"

lemma replace_skip_drop: "replace_skip pat rep n s = replace_skip pat rep 0 (drop n s)"
  by (induction pat rep n s rule: replace_skip.induct) simp_all

lemma placeholder_prefix:
  assumes "no_brace k" "no_brace key"
  shows "prefix (placeholder key) (placeholder k @ rest) \<longleftrightarrow> key = k"
proof
  assume "prefix (placeholder key) (placeholder k @ rest)"
  then have "prefix (key @ ''}}'') (k @ ''}}'' @ rest)" by (simp add: placeholder_def)
  then show "key = k"
    using assms
  proof (induction key arbitrary: k)
    case Nil
    then show ?case by (cases k) (auto simp: no_brace_def)
  next
    case (Cons c key)
    then obtain k' where "k = c # k'" by (cases k) (auto simp: no_brace_def)
    then show ?case using Cons by (auto simp: no_brace_def)
  qed
qed simp

lemma replace_text:
  assumes "CHR ''{'' \<notin> set s"
  shows "replace_skip (placeholder key) v 0 (s @ rest) = s @ replace_skip (placeholder key) v 0 rest"
  using assms by (induction s) (auto simp: placeholder_def)

lemma replace_hole:
  assumes "no_brace k" "no_brace key"
  shows "replace_skip (placeholder key) v 0 (placeholder k @ rest) =
    (if key = k then v else placeholder k) @ replace_skip (placeholder key) v 0 rest"
proof (cases "key = k")
  case True
  have "replace_skip (placeholder k) v 0 (placeholder k @ rest) =
      v @ replace_skip (placeholder k) v (length (placeholder k) - 1) (drop 1 (placeholder k @ rest))"
    by (simp add: placeholder_def)
  also have "replace_skip (placeholder k) v (length (placeholder k) - 1) (drop 1 (placeholder k @ rest)) =
      replace_skip (placeholder k) v 0 rest"
    by (subst replace_skip_drop) (simp add: placeholder_def)
  finally show ?thesis using True by simp
next
  case False
  have no: "\<not> prefix (placeholder key) (placeholder k @ rest)"
    using placeholder_prefix [OF assms] False by simp
  have no2: "\<not> prefix (placeholder key) (CHR ''{'' # k @ ''}}'' @ rest)"
    using assms(1) by (cases k) (auto simp: placeholder_def no_brace_def)
  have "replace_skip (placeholder key) v 0 (placeholder k @ rest) =
      ''{{'' @ replace_skip (placeholder key) v 0 ((k @ ''}}'') @ rest)"
    using no no2 by (simp add: placeholder_def)
  also have "\<dots> = ''{{'' @ (k @ ''}}'') @ replace_skip (placeholder key) v 0 rest"
    using assms(1) by (subst replace_text) (auto simp: no_brace_def)
  finally show ?thesis using False by (simp add: placeholder_def)
qed

lemma replace_all_template:
  assumes "list_all segment_ok ss" "no_brace key"
  shows "replace_all (placeholder key) v (show_template ss) = show_template (map (fill [key \<mapsto> v]) ss)"
  unfolding replace_all_def
  using assms
proof (induction ss)
  case (Cons s ss)
  then show ?case
    by (cases s) (auto simp: show_template_def replace_text replace_hole no_brace_def)
qed (simp add: show_template_def)

lemma fill_ok: "segment_ok s \<Longrightarrow> no_brace v \<Longrightarrow> segment_ok (fill [key \<mapsto> v] s)"
  by (cases s) simp_all

lemma substitute_template:
  assumes "list_all segment_ok ss" "\<forall>(key, v) \<in> set addresses. no_brace key \<and> no_brace v"
  shows "substitute addresses (show_template ss) = show_template (map (fill (map_of addresses)) ss)"
  using assms
proof (induction addresses arbitrary: ss)
  case Nil
  have "fill Map.empty s = s" for s by (cases s) simp_all
  then show ?case by (simp add: substitute_def)
next
  case (Cons a addresses)
  obtain key v where a: "a = (key, v)" by (cases a)
  have kv: "no_brace key" "no_brace v" using Cons.prems(2) by (auto simp: a)
  let ?ss = "map (fill [key \<mapsto> v]) ss"
  have ok: "list_all segment_ok ?ss"
    using Cons.prems(1) kv(2) by (auto simp: list_all_iff intro: fill_ok)
  have rest: "\<forall>(key, v) \<in> set addresses. no_brace key \<and> no_brace v"
    using Cons.prems(2) by simp
  note Cons.IH [OF ok rest]
  moreover have "substitute (a # addresses) (show_template ss) = substitute addresses (show_template ?ss)"
    using replace_all_template [OF Cons.prems(1) kv(1)] by (simp add: substitute_def a)
  moreover have "fill (map_of addresses) (fill [key \<mapsto> v] s) = fill (map_of (a # addresses)) s" for s
    by (cases s) (simp_all add: a)
  ultimately show ?case
    by (simp only: map_map comp_def)
qed

section \<open>Properties\<close>

text \<open>
  C38. Placeholder substitution on a configuration text made of brace-free text and placeholders: every
  placeholder of the address file is replaced by its address, the others stay, and the order in which
  the table is walked does not matter as long as no address contains a brace.
\<close>

theorem substitution_fills_template:
  assumes "list_all segment_ok ss" "\<forall>(key, v) \<in> set addresses. no_brace key \<and> no_brace v"
    and "distinct (map fst addresses)" "set addresses' = set addresses" "distinct (map fst addresses')"
  shows "substitute addresses (show_template ss) = show_template (map (fill (map_of addresses)) ss) \<and>
    substitute addresses' (show_template ss) = substitute addresses (show_template ss)"
proof -
  have "map_of addresses' = map_of addresses"
    using assms(3-5) by (simp add: map_of_inject_set)
  then show ?thesis
    using substitute_template [OF assms(1,2)] substitute_template [of ss addresses'] assms by simp
qed

theorem substitution_fills_template_witness:
  "substitute [(''A'', ''0x1''), (''B'', ''0x2'')] ''x={{B}},{{A}},{{C}}'' = ''x=0x2,0x1,{{C}}''"
proof -
  let ?ss = "[Text ''x='', Hole ''B'', Text '','', Hole ''A'', Text '','', Hole ''C'']"
  have "substitute [(''A'', ''0x1''), (''B'', ''0x2'')] (show_template ?ss) =
      show_template (map (fill (map_of [(''A'', ''0x1''), (''B'', ''0x2'')])) ?ss)"
    by (rule conjunct1 [OF substitution_fills_template [where addresses' = "[(''B'', ''0x2''), (''A'', ''0x1'')]"]])
       (auto simp: no_brace_def)
  then show ?thesis by (simp add: show_template_def placeholder_def)
qed

end
