(* ===== verification/Ignition.thy ===== *)
theory Ignition
  imports Config Searcher Simulator TxSender Mempool MarketState PoolLoader
begin

text \<open>
  \<open>src/ignition.rs\<close>: the wiring of the pipeline. \<open>start_pipeline\<close> prepares the shared database, gas
  station and blacklists and the state each worker starts with; the workers themselves are the loops of
  the other theories. A failed \<open>expect\<close> and a channel capacity the channels refuse are \<open>None\<close>. Parameters: the node, REVM, the bytecode text of the
  quoter decoded by \<open>hex::decode\<close>, the TOML parser, the float product that turns native units into wei,
  and the orders of hash sets and of finished requests. Channels are lists elsewhere, so of
  their capacities only the check remains; URLs and log paths of the worker configurations are left out.
\<close>

section \<open>Configuration\<close>

record pipeline_config =
  pc_rpc_url :: string
  pc_ws_url :: string
  pc_sequencer_url :: string
  pc_bot_address :: address
  pc_signer_key :: string
  pc_chain_id :: u64
  pc_channel_buffer :: nat
  pc_broadcast_capacity :: nat
  pc_dry_run :: bool
  pc_last_synced_block :: u64
  pc_use_flashloan :: bool
  pc_flash_loan_fee_bps :: u64
  pc_flash_loan_provider :: string
  pc_native_token :: address
  pc_token_price_pools :: "address \<rightharpoonup> address"
  pc_max_gas_limit :: u64
  pc_profit_share_bps :: u64
  pc_min_submit_profit_wei :: u64
  pc_min_sim_profit_wei :: u64
  pc_optimization_steps :: nat
  pc_min_input_eth :: f64_bits
  pc_max_input_eth :: f64_bits
  pc_max_paths_per_block :: nat
  pc_num_simulators :: nat
  pc_searcher_gas_estimate :: u64
  pc_max_stale_blocks :: u64
  pc_strike_threshold :: u32
  pc_gas_params :: gas_params_config
  pc_live_base_fee_wei :: "u64 option"
  pc_opportunities_log :: string
  pc_enable_mempool :: bool
  pc_revm_filter_routers :: "(string \<times> string) list"
  pc_toxic_tokens_path :: string

definition pipeline_config_default :: pipeline_config where
  "pipeline_config_default =
    \<lparr> pc_rpc_url = '''', pc_ws_url = '''', pc_sequencer_url = '''', pc_bot_address = 0, pc_signer_key = '''',
      pc_chain_id = 0, pc_channel_buffer = 256, pc_broadcast_capacity = 16, pc_dry_run = True,
      pc_last_synced_block = 0, pc_use_flashloan = False, pc_flash_loan_fee_bps = 0,
      pc_flash_loan_provider = ''AaveV3'', pc_native_token = 0, pc_token_price_pools = Map.empty,
      pc_max_gas_limit = 1000000, pc_profit_share_bps = 5000, pc_min_submit_profit_wei = 5000000000000,
      pc_min_sim_profit_wei = 10000000000000, pc_optimization_steps = 20,
      pc_min_input_eth = default_min_input_eth, pc_max_input_eth = default_max_input_eth,
      pc_max_paths_per_block = 50000, pc_num_simulators = 4, pc_searcher_gas_estimate = 250000,
      pc_max_stale_blocks = 3, pc_strike_threshold = 3, pc_gas_params = gas_params_default,
      pc_live_base_fee_wei = None, pc_opportunities_log = '''', pc_enable_mempool = False,
      pc_revm_filter_routers = [], pc_toxic_tokens_path = '''' \<rparr>"

section \<open>The toxic token file\<close>

fun split_lines_acc :: "string \<Rightarrow> string \<Rightarrow> string list" where
  "split_lines_acc acc [] = (if acc = [] then [] else [rev acc])"
| "split_lines_acc acc (c # s) =
    (if c = CHR 0x0A
     then rev (if acc \<noteq> [] \<and> hd acc = CHR 0x0D then tl acc else acc) # split_lines_acc [] s
     else split_lines_acc (c # acc) s)"

text \<open>\<open>str::lines\<close>: split at line feeds, with a carriage return before one dropped.\<close>

definition split_lines :: "string \<Rightarrow> string list" where
  "split_lines s = split_lines_acc [] s"

text \<open>
  \<open>toml_toxic\<close> is the array \<open>toxic_tokens.addresses\<close> of a text that is TOML and has one, its items that are
  strings; otherwise the lines of the file are addresses.
\<close>

definition load_toxic ::
    "(string \<Rightarrow> string option list option) \<Rightarrow> (string \<Rightarrow> address option) \<Rightarrow> string \<Rightarrow> address set" where
  "load_toxic toml_toxic parse contents =
    (case toml_toxic contents of
       Some items \<Rightarrow>
         fold (\<lambda>item s. case Option.bind item parse of Some a \<Rightarrow> insert a s | None \<Rightarrow> s) items {}
     | None \<Rightarrow>
         fold (\<lambda>line s.
                 let line = trim line
                 in if line = [] \<or> hd line = CHR ''#'' then s
                    else case parse line of Some a \<Rightarrow> insert a s | None \<Rightarrow> s)
           (split_lines contents) {})"

definition initial_toxic ::
    "(string \<Rightarrow> string option list option) \<Rightarrow> (string \<Rightarrow> address option) \<Rightarrow> (string \<Rightarrow> string option) \<Rightarrow>
     string \<Rightarrow> address set" where
  "initial_toxic toml_toxic parse read path =
    (if path = [] then {}
     else case read path of None \<Rightarrow> {} | Some contents \<Rightarrow> load_toxic toml_toxic parse contents)"

section \<open>Worker configurations\<close>

definition flash_loan_selector :: "string \<Rightarrow> u8" where
  "flash_loan_selector name =
    (let n = map lower_char name
     in if n = ''aave'' \<or> n = ''aavev3'' then 0
        else if n = ''uniswap'' \<or> n = ''uniswapv3'' \<or> n = ''univ3'' then 1
        else if n = ''pancake'' \<or> n = ''pancakeswap'' \<or> n = ''pancakeswapv3'' \<or> n = ''pcsv3'' then 2
        else 255)"

text \<open>\<open>strip_prefix("0x")\<close> takes the prefix off once.\<close>

definition strip_0x :: "string \<Rightarrow> string" where
  "strip_0x s = (if take 2 s = ''0x'' then drop 2 s else s)"

definition mempool_routers :: "(string \<Rightarrow> u8 list option) \<Rightarrow> (string \<times> string) list \<Rightarrow> address set" where
  "mempool_routers hex_decode routers =
    fold (\<lambda>(name, addr_hex) s.
            case hex_decode (strip_0x (trim addr_hex)) of
              None \<Rightarrow> s
            | Some bytes \<Rightarrow> if length bytes = 20 then insert (from_be_bytes bytes) s else s)
      routers {}"

definition simulator_config_of :: "(f64_bits \<Rightarrow> u128) \<Rightarrow> pipeline_config \<Rightarrow> simulator_config" where
  "simulator_config_of wei_of_eth c =
    \<lparr> sc_min_profit_wei = ucast (pc_min_sim_profit_wei c),
      sc_optimization_steps = pc_optimization_steps c,
      sc_min_input = ucast (wei_of_eth (pc_min_input_eth c)),
      sc_max_input = ucast (wei_of_eth (pc_max_input_eth c)),
      sc_profit_share_bps = pc_profit_share_bps c,
      sc_flash_loan_fee_bps = (if pc_use_flashloan c then pc_flash_loan_fee_bps c else 0),
      sc_max_stale_blocks = pc_max_stale_blocks c \<rparr>"

definition tx_sender_config_of :: "pipeline_config \<Rightarrow> tx_sender_config" where
  "tx_sender_config_of c =
    \<lparr> tc_bot_address = pc_bot_address c, tc_signer_key = pc_signer_key c, tc_chain_id = pc_chain_id c,
      tc_max_gas_limit = pc_max_gas_limit c, tc_profit_share_bps = pc_profit_share_bps c,
      tc_min_submit_profit_wei = ucast (pc_min_submit_profit_wei c),
      tc_max_stale_blocks = pc_max_stale_blocks c, tc_strike_threshold = pc_strike_threshold c,
      tc_dry_run = pc_dry_run c, tc_flash_loan_provider = flash_loan_selector (pc_flash_loan_provider c) \<rparr>"

text \<open>The tokens that are never blacklisted.\<close>

definition protected_tokens :: "pipeline_config \<Rightarrow> address set" where
  "protected_tokens c = insert (pc_native_token c) (dom (pc_token_price_pools c))"

section \<open>The shared database\<close>

record ignition_env =
  ig_chain :: chain_env
  ig_revm :: revm
  ig_quoter_hex :: string
  ig_order :: "address set \<Rightarrow> address list"
  ig_arrive_codes :: "address list \<Rightarrow> address list"
  ig_arrive_tokens :: arrival
  ig_arrive_v3 :: arrival
  ig_arrive_bitmaps :: "(address \<times> 16 word \<times> u256) list \<Rightarrow> (address \<times> 16 word \<times> u256) list"
  ig_arrive_ticks :: arrival
  ig_toml_toxic :: "string \<Rightarrow> string option list option"
  ig_parse_address :: "string \<Rightarrow> address option"
  ig_read_file :: "string \<Rightarrow> string option"
  ig_wei_of_eth :: "f64_bits \<Rightarrow> u128"
  ig_sim_mode :: bool

definition make_quoter :: "ignition_env \<Rightarrow> revm_quoter run" where
  "make_quoter ig =
    map_option quoter_with_bytecode (env_hex_decode (ig_chain ig) (strip_0x (trim (ig_quoter_hex ig))))"

definition v3_tick_info :: "pool_meta list \<Rightarrow> (address \<times> 32 word \<times> bool) list" where
  "v3_tick_info metas =
    map (\<lambda>m. (pm_address m, pm_tick_spacing m, pm_protocol m = PancakeSwapV3))
      (filter (\<lambda>m. pm_is_v3 m \<and> 0 <s pm_tick_spacing m) metas)"

definition prepare_database ::
    "ignition_env \<Rightarrow> revm_quoter \<Rightarrow> pool_meta list \<Rightarrow> (address \<times> bool) list \<Rightarrow> block_state_db run" where
  "prepare_database ig quoter metas pools =
    (case deploy_into (ig_revm ig) quoter (state_db_new 0) of
       Inl e \<Rightarrow> None
     | Inr db \<Rightarrow>
         (let db = fold (\<lambda>(a, _). track_pool a) pools db;
              tracked = ig_order ig (db_tracked_pools db);
              db = prefetch_pool_codes (ig_chain ig) (ig_arrive_codes ig) tracked db
          in do {
            db \<leftarrow> prefetch_token_slots (ig_chain ig) (ig_arrive_tokens ig) tracked db;
            db \<leftarrow> prefetch_v3_slots (ig_chain ig) (ig_arrive_v3 ig) tracked db;
            if v3_tick_info metas = [] then Some db
            else prefetch_v3_tick_data (ig_chain ig) (ig_arrive_bitmaps ig) (ig_arrive_ticks ig) (v3_tick_info metas) db
          }))"

section \<open>The pipeline\<close>

record pipeline =
  pl_market :: market_state
  pl_last_synced_block :: u64
  pl_searcher :: searcher
  pl_estimator :: rate_estimator
  pl_rate_cache :: path_rate_cache
  pl_simulators :: "simulator_worker list"
  pl_shared :: simulator_shared
  pl_sender :: tx_sender
  pl_toxic_tokens_path :: string
  pl_mempool :: "mempool_config option"

text \<open>
  What \<open>broadcast::channel\<close> and \<open>mpsc::channel\<close> document of their capacities; they panic on others.
\<close>

definition capacities_ok :: "pipeline_config \<Rightarrow> bool" where
  "capacities_ok c \<longleftrightarrow> 0 < pc_broadcast_capacity c \<and> pc_broadcast_capacity c \<le> 2 ^ 63 - 1 \<and>
     0 < pc_channel_buffer c \<and> pc_channel_buffer c \<le> 2 ^ 61 - 1"

definition start_pipeline ::
    "ignition_env \<Rightarrow> pipeline_config \<Rightarrow> swap_path list \<Rightarrow> pool_meta list \<Rightarrow> (address \<times> bool) list \<Rightarrow> pipeline run" where
  "start_pipeline ig c paths metas pools =
    (let gas = gas_station_new (pc_gas_params c);
         gas = (case pc_live_base_fee_wei c of Some live \<Rightarrow> gas\<lparr>gs_base_fee := live\<rparr> | None \<Rightarrow> gas)
     in do {
       quoter \<leftarrow> make_quoter ig;
       db \<leftarrow> prepare_database ig quoter metas pools;
       _ \<leftarrow> (if capacities_ok c then Some () else None);
       let searcher = register_pool_meta metas
             (register_paths paths
               (searcher_new \<lparr> sc_max_paths_per_block = pc_max_paths_per_block c,
                               sc_searcher_gas_estimate = pc_searcher_gas_estimate c \<rparr>));
       let num_sims = max (pc_num_simulators c) 1;
       let simulator =
             \<lparr> si_config = simulator_config_of (ig_wei_of_eth ig) c, si_quoter = quoter, si_gas_station = gas,
               si_sim_mode = ig_sim_mode ig, si_native_token = pc_native_token c,
               si_token_price_pools = pc_token_price_pools c \<rparr>;
       let toxic = initial_toxic (ig_toml_toxic ig) (ig_parse_address ig) (ig_read_file ig) (pc_toxic_tokens_path c);
       let routers = mempool_routers (env_hex_decode (ig_chain ig)) (pc_revm_filter_routers c);
       Some \<lparr> pl_market = \<lparr> mk_state_db = db, mk_gas_station = gas \<rparr>,
              pl_last_synced_block = pc_last_synced_block c,
              pl_searcher = searcher, pl_estimator = estimator_new, pl_rate_cache = Map.empty,
              pl_simulators = replicate num_sims simulator,
              pl_shared = \<lparr> sh_latest_block = 0, sh_blacklisted_paths = {}, sh_blacklisted_tokens = toxic,
                            sh_state_db = db \<rparr>,
              pl_sender = \<lparr> tw_config = tx_sender_config_of c, tw_gas_station = gas,
                            tw_start_tokens = protected_tokens c \<rparr>,
              pl_toxic_tokens_path = pc_toxic_tokens_path c,
              pl_mempool =
                (if pc_enable_mempool c \<and> routers \<noteq> {}
                 then Some \<lparr> mc_router_addresses = routers, mc_token_pair_to_pool = build_token_pair_lookup metas \<rparr>
                 else None) \<rparr>
     })"

definition feed_new_block :: "u64 \<Rightarrow> u64 \<Rightarrow> u64 \<Rightarrow> u64 \<Rightarrow> u64 \<Rightarrow> pipeline_event" where
  "feed_new_block block_number base_fee gas_used gas_limit timestamp =
    NewBlock block_number base_fee gas_used gas_limit timestamp"

section \<open>What the preparation of the database keeps\<close>

text \<open>A property that no slot write and no registration of Pancake pools breaks survives the prefetchers.\<close>

definition kept_by_writes :: "(block_state_db \<Rightarrow> bool) \<Rightarrow> bool" where
  "kept_by_writes P \<longleftrightarrow> (\<forall>db d a s v. P db \<longrightarrow> P (update_slot d a s v db)) \<and>
     (\<forall>db ps. P db \<longrightarrow> P (register_pancake ps db))"

lemma kept_store_results:
  assumes "kept_by_writes P" "P db"
  shows "P (store_results d rs db)"
  using assms unfolding store_results_def kept_by_writes_def
  by (induction rs arbitrary: db) auto

lemma kept_prefetch:
  assumes P: "kept_by_writes P" and db: "P db"
  shows "prefetch_token_slots env arr pools db = Some db' \<Longrightarrow> P db'"
    and "prefetch_v3_slots env arr pools db = Some db' \<Longrightarrow> P db'"
    and "prefetch_v3_tick_data env arr_bm arr v3 db = Some db' \<Longrightarrow> P db'"
proof -
  note store = kept_store_results [OF P]
  show "prefetch_token_slots env arr pools db = Some db' \<Longrightarrow> P db'"
    "prefetch_v3_slots env arr pools db = Some db' \<Longrightarrow> P db'"
    using db by (auto simp: prefetch_token_slots_def prefetch_v3_slots_def intro: store split: bind_splits)
  have reg: "P (register_pancake v3 db)" using P db by (simp add: kept_by_writes_def)
  then have "P (store_bitmaps d rs (register_pancake v3 db))" for d rs
    by (simp add: store_bitmaps_def store)
  then show "prefetch_v3_tick_data env arr_bm arr v3 db = Some db' \<Longrightarrow> P db'"
    using reg
    by (auto simp: prefetch_v3_tick_data_def prefetch_ticks_def Let_def intro: store
        split: bind_splits if_splits)
qed

definition code_at :: "block_state_db \<Rightarrow> address \<Rightarrow> u8 list option" where
  "code_at db a = Option.bind (db_accounts db a) (\<lambda>acct. ai_code (acct_info acct))"

lemma has_code_iff: "has_code db a \<longleftrightarrow> code_at db a \<noteq> None"
  by (auto simp: has_code_def code_at_def split: option.split)

lemma code_at_simps [simp]:
  "code_at db b = Some c \<Longrightarrow> code_at (update_slot d a s v db) b = Some c"
  "code_at (register_pancake ps db) b = code_at db b"
  "code_at (track_pool p db) b = code_at db b"
  "code_at (deploy_stub d h code a db) b = (if b = a then Some code else code_at db b)"
  "code_at (inject_account a i db) b = (if b = a then ai_code i else code_at db b)"
  by (auto simp: code_at_def update_slot_def put_account_def put_slot_def account_or_def register_pancake_def
      track_pool_def deploy_stub_def inject_account_def Let_def split: option.splits)

lemma tracked_simps [simp]:
  "db_tracked_pools (register_pancake ps db) = db_tracked_pools db"
  "db_tracked_pools (deploy_stub d h code a db) = db_tracked_pools db"
  "db_tracked_pools (inject_account a i db) = db_tracked_pools db"
  "db_tracked_pools (track_pool p db) = insert p (db_tracked_pools db)"
  by (simp_all add: register_pancake_def deploy_stub_def inject_account_def put_account_def track_pool_def Let_def)

lemma prefetch_pool_codes_keeps:
  assumes "code_at db a = Some c" "\<And>xs. set (arrive xs) = set xs"
  shows "code_at (prefetch_pool_codes env arrive pools db) a = Some c"
    and "db_tracked_pools (prefetch_pool_codes env arrive pools db) = db_tracked_pools db"
proof -
  have keep: "code_at (fold (\<lambda>(a, code) db. if code = [] then db else deploy_stub d (h code) code a db) rs db) a = Some c"
    if "a \<notin> fst ` set rs" "code_at db a = Some c" for rs d h db
    using that by (induction rs arbitrary: db) auto
  let ?rs = "map (\<lambda>a. (a, parse_code_answer (env_hex_decode env) (env_rpc env (EthGetCode a Latest))))
    (arrive (filter (\<lambda>a. \<not> has_code db a) pools))"
  have "a \<notin> fst ` set ?rs"
    using assms by (auto simp: has_code_iff)
  from keep [OF this assms(1)] show "code_at (prefetch_pool_codes env arrive pools db) a = Some c"
    by (simp add: prefetch_pool_codes_def Let_def)
  have "db_tracked_pools (fold (\<lambda>(a, code) db. if code = [] then db else deploy_stub d (h code) code a db) rs db)
      = db_tracked_pools db" for rs d h and db :: block_state_db
    by (induction rs arbitrary: db) (auto split: if_splits)
  then show "db_tracked_pools (prefetch_pool_codes env arrive pools db) = db_tracked_pools db"
    by (simp add: prefetch_pool_codes_def Let_def)
qed

lemma fold_track_pool:
  "db_tracked_pools (fold (\<lambda>(a, _). track_pool a) pools db) = db_tracked_pools db \<union> fst ` set pools"
  "code_at (fold (\<lambda>(a, _). track_pool a) pools db) b = code_at db b"
  by (induction pools arbitrary: db) auto

text \<open>What the ignition relies on of the orders in which sets are walked and requests finish.\<close>

definition orders_ok :: "ignition_env \<Rightarrow> bool" where
  "orders_ok ig \<longleftrightarrow> (\<forall>S. finite S \<longrightarrow> set (ig_order ig S) = S) \<and> (\<forall>xs. set (ig_arrive_codes ig xs) = set xs) \<and>
     (\<forall>xs. set (ig_arrive_v3 ig xs) = set xs) \<and> (\<forall>xs. set (ig_arrive_bitmaps ig xs) = set xs) \<and>
     (\<forall>xs. set (ig_arrive_ticks ig xs) = set xs)"

definition V3_SLOTS :: "u256 set" where
  "V3_SLOTS = {V3_SLOT0, V3_SLOT0_OVERFLOW, V3_LIQUIDITY_SLOT, V3_LIQUIDITY_SLOT_PANCAKE}"

lemma prepare_database_spec:
  assumes "hex_decode_ok (env_hex_decode (ig_chain ig))" "orders_ok ig"
  shows "\<exists>db. prepare_database ig (quoter_with_bytecode code) metas pools = Some db \<and>
    db_tracked_pools db = fst ` set pools \<and> code_at db QUOTER_ADDRESS = Some code \<and>
    (\<forall>a \<in> fst ` set pools. \<forall>s \<in> V3_SLOTS. slot_of db a s \<noteq> None)"
proof -
  let ?P = "\<lambda>db. db_tracked_pools db = fst ` set pools \<and> code_at db QUOTER_ADDRESS = Some code"
  have P: "kept_by_writes ?P" by (simp add: kept_by_writes_def)
  obtain db0 where db0: "deploy_into (ig_revm ig) (quoter_with_bytecode code) (state_db_new 0) = Inr db0"
    "db_tracked_pools db0 = {}" "code_at db0 QUOTER_ADDRESS = Some code"
    by (simp add: deploy_into_def quoter_with_bytecode_def state_db_new_def QUOTER_ADDRESS_def CALLER_ADDRESS_def)
  define db1 where "db1 = fold (\<lambda>(a, _). track_pool a) pools db0"
  define tracked where "tracked = ig_order ig (db_tracked_pools db1)"
  have tracked: "set tracked = fst ` set pools"
    using assms(2) db0(2) by (simp add: tracked_def orders_ok_def db1_def fold_track_pool)
  define db2 where "db2 = prefetch_pool_codes (ig_chain ig) (ig_arrive_codes ig) tracked db1"
  have arr: "set (ig_arrive_codes ig xs) = set xs" for xs using assms(2) by (simp add: orders_ok_def)
  have P2: "?P db2"
    using prefetch_pool_codes_keeps [OF _ arr] db0(2,3) by (simp add: db2_def db1_def fold_track_pool)
  obtain f where f: "\<And>ks. those (map (fetch_latest (ig_chain ig)) ks) = Some (f ks)"
    using fetches_total(1) [OF assms(1)] by metis
  obtain db3 where db3: "prefetch_token_slots (ig_chain ig) (ig_arrive_tokens ig) tracked db2 = Some db3"
    by (simp add: prefetch_token_slots_def f)
  obtain db4 where db4: "prefetch_v3_slots (ig_chain ig) (ig_arrive_v3 ig) tracked db3 = Some db4"
    using prefetch_v3_slots_total [OF assms(1)] by blast
  have P4: "?P db4" by (rule kept_prefetch(2) [OF P kept_prefetch(1) [OF P P2 db3] db4])
  have slots4: "slot_of db4 a s \<noteq> None" if "a \<in> fst ` set pools" "s \<in> V3_SLOTS" for a s
    using prefetch_v3_slots_cases(2) [OF db4] assms(2) that tracked by (simp add: orders_ok_def V3_SLOTS_def)
  let ?ticks = "prefetch_v3_tick_data (ig_chain ig) (ig_arrive_bitmaps ig) (ig_arrive_ticks ig) (v3_tick_info metas) db4"
  obtain db5 where db5: "?ticks = Some db5" using tick_data_total [OF assms(1)] by blast
  have "db_extends db4 db5" using tick_data_extends [OF db5] assms(2) by (simp add: orders_ok_def)
  then have slots5: "slot_of db5 a s \<noteq> None" if "a \<in> fst ` set pools" "s \<in> V3_SLOTS" for a s
    using slots4 [OF that] by (auto simp: db_extends_def)
  have P5: "?P db5" by (rule kept_prefetch(3) [OF P P4 db5])
  have "prepare_database ig (quoter_with_bytecode code) metas pools =
      (if v3_tick_info metas = [] then Some db4 else ?ticks)"
    using db0(1) db3 db4 by (simp add: prepare_database_def Let_def db1_def tracked_def db2_def)
  then show ?thesis
    using db5 P4 P5 slots4 slots5 by (cases "v3_tick_info metas = []") auto
qed

section \<open>Properties\<close>

text \<open>
  C19. The pipeline starts, for a node that answers anything and whatever order requests finish in, when
  the bytecode of the quoter is hexadecimal and the channel capacities are in range: exactly the given pools are tracked in the database that
  the workers share, the quoter is deployed there, the V3 slots of every pool are cached, there is at
  least one simulator, all simulate with the flash loan fee only when one is used, and the searcher
  finds every path by each of its pools.
\<close>

theorem pipeline_ready:
  assumes "hex_decode_ok (env_hex_decode (ig_chain ig))" "orders_ok ig"
    and "env_hex_decode (ig_chain ig) (strip_0x (trim (ig_quoter_hex ig))) = Some code" "capacities_ok c"
  shows "\<exists>p. start_pipeline ig c paths metas pools = Some p \<and>
    sh_state_db (pl_shared p) = mk_state_db (pl_market p) \<and>
    db_tracked_pools (sh_state_db (pl_shared p)) = fst ` set pools \<and>
    code_at (sh_state_db (pl_shared p)) QUOTER_ADDRESS = Some code \<and>
    (\<forall>a \<in> fst ` set pools. \<forall>s \<in> V3_SLOTS. slot_of (sh_state_db (pl_shared p)) a s \<noteq> None) \<and>
    pl_simulators p \<noteq> [] \<and>
    (\<forall>w \<in> set (pl_simulators p). si_quoter w = quoter_with_bytecode code \<and>
       si_native_token w \<in> tw_start_tokens (pl_sender p) \<and>
       (\<not> pc_use_flashloan c \<longrightarrow> sc_flash_loan_fee_bps (si_config w) = 0)) \<and>
    (\<forall>i < length paths. \<forall>s \<in> set (path_steps (paths ! i)).
       i \<in> index_set (sw_pool_to_paths (pl_searcher p)) (st_pool_address s))"
proof -
  obtain db where db: "prepare_database ig (quoter_with_bytecode code) metas pools = Some db"
    "db_tracked_pools db = fst ` set pools" "code_at db QUOTER_ADDRESS = Some code"
    "\<forall>a \<in> fst ` set pools. \<forall>s \<in> V3_SLOTS. slot_of db a s \<noteq> None"
    using prepare_database_spec [OF assms(1,2)] by blast
  have index: "i \<in> index_set (sw_pool_to_paths (register_pool_meta metas (register_paths paths sw))) (st_pool_address s)"
    if "i < length paths" "s \<in> set (path_steps (paths ! i))" for i s sw
  proof -
    have "sw_pool_to_paths (register_pool_meta metas (register_paths paths sw)) = sw_pool_to_paths (register_paths paths sw)"
      by (simp add: register_pool_meta_def)
    then show ?thesis using that by (auto simp: index_set_registered contains_pool_iff)
  qed
  have quoter: "make_quoter ig = Some (quoter_with_bytecode code)" using assms(3) by (simp add: make_quoter_def)
  show ?thesis
    unfolding start_pipeline_def Let_def quoter db(1) if_P [OF assms(4)] bind.bind_lunit
    by (rule exI, rule conjI, rule refl)
       (use db index in \<open>auto simp: simulator_config_of_def protected_tokens_def\<close>)
qed

definition sample_ignition :: ignition_env where
  "sample_ignition =
    \<lparr> ig_chain = silent_env\<lparr>env_hex_decode := (\<lambda>s. if s = ''6001'' then Some [0x60, 1] else None)\<rparr>, ig_revm = sample_revm,
      ig_quoter_hex = ''0x6001'', ig_order = (\<lambda>S. sorted_list_of_set S), ig_arrive_codes = id, ig_arrive_tokens = id,
      ig_arrive_v3 = rev, ig_arrive_bitmaps = id, ig_arrive_ticks = id,
      ig_toml_toxic = (\<lambda>s. if s = ''t'' then Some [Some ''7''] else None),
      ig_parse_address = (\<lambda>s. if s = ''7'' then Some 7 else None), ig_read_file = (\<lambda>_. Some ''t''),
      ig_wei_of_eth = (\<lambda>_. 1000000000000000), ig_sim_mode = False \<rparr>"

lemma sample_ignition_ok:
  "hex_decode_ok (env_hex_decode (ig_chain sample_ignition))" "orders_ok sample_ignition"
  "env_hex_decode (ig_chain sample_ignition) (strip_0x (trim (ig_quoter_hex sample_ignition))) = Some [0x60, 1]"
proof -
  show "hex_decode_ok (env_hex_decode (ig_chain sample_ignition))"
    by (simp add: hex_decode_ok_def sample_ignition_def)
  show "orders_ok sample_ignition" by (simp add: orders_ok_def sample_ignition_def)
  have "strip_0x (trim ''0x6001'') = ''6001''" by code_simp
  then show "env_hex_decode (ig_chain sample_ignition) (strip_0x (trim (ig_quoter_hex sample_ignition))) = Some [0x60, 1]"
    by (simp add: sample_ignition_def)
qed

lemma default_capacities: "capacities_ok (pipeline_config_default\<lparr>pc_toxic_tokens_path := path\<rparr>)"
  by (simp add: capacities_ok_def pipeline_config_default_def)

theorem pipeline_ready_witness:
  "\<exists>p. start_pipeline sample_ignition pipeline_config_default [] [] [(5, True), (6, False)] = Some p \<and>
     db_tracked_pools (sh_state_db (pl_shared p)) = {5, 6}"
proof -
  have "capacities_ok pipeline_config_default" by (simp add: capacities_ok_def pipeline_config_default_def)
  from pipeline_ready [OF sample_ignition_ok this, of "[]" "[]" "[(5, True), (6, False)]"]
  show ?thesis by auto
qed

text \<open>
  C14. Protected tokens of a started pipeline: the blacklists the sender starts with satisfy its invariant
  exactly when the toxic token file names no protected token, and then no run of the sender ever
  blacklists or persists one; a file that names one blacklists it from the start.
\<close>

theorem protected_tokens_stay:
  assumes "start_pipeline ig c paths metas pools = Some p"
    and "st = sender_start env (pl_sender p) tx_count head (sh_blacklisted_paths (pl_shared p)) (sh_blacklisted_tokens (pl_shared p))"
    and "sender_run (pl_sender p) vs st = Some st'"
  shows "(blacklists_ok (pl_sender p) st \<longleftrightarrow>
      initial_toxic (ig_toml_toxic ig) (ig_parse_address ig) (ig_read_file ig) (pc_toxic_tokens_path c) \<inter> protected_tokens c = {}) \<and>
    (initial_toxic (ig_toml_toxic ig) (ig_parse_address ig) (ig_read_file ig) (pc_toxic_tokens_path c) \<inter> protected_tokens c = {} \<longrightarrow>
      (ts_blacklisted_tokens st' \<union> set (ts_persisted st')) \<inter> protected_tokens c = {})"
proof -
  let ?toxic = "initial_toxic (ig_toml_toxic ig) (ig_parse_address ig) (ig_read_file ig) (pc_toxic_tokens_path c)"
  have p: "sh_blacklisted_tokens (pl_shared p) = ?toxic" "tw_start_tokens (pl_sender p) = protected_tokens c"
    using assms(1) by (auto simp: start_pipeline_def Let_def split: bind_splits)
  have "ts_blacklisted_tokens st = ?toxic"
    using p(1) assms(2) by (simp add: sender_start_def seed_nonce_from_rpc_def Let_def split: sum.split option.split)
  then have "blacklists_ok (pl_sender p) st \<Longrightarrow> ?toxic \<inter> protected_tokens c = {}"
    by (simp add: blacklists_ok_def p(2))
  moreover have "?toxic \<inter> protected_tokens c = {} \<Longrightarrow> blacklists_ok (pl_sender p) st"
    unfolding assms(2) using p by (intro sender_start_ok) simp
  moreover have "blacklists_ok (pl_sender p) st \<Longrightarrow>
      (ts_blacklisted_tokens st' \<union> set (ts_persisted st')) \<inter> protected_tokens c = {}"
    using sender_run_lists [OF assms(3)] p(2) by (auto simp: blacklists_ok_def)
  ultimately show ?thesis by blast
qed

lemma sample_pipeline_starts:
  assumes "capacities_ok c"
  shows "\<exists>p. start_pipeline sample_ignition c paths metas pools = Some p"
proof -
  obtain db where "prepare_database sample_ignition (quoter_with_bytecode [0x60, 1]) metas pools = Some db"
    using prepare_database_spec [OF sample_ignition_ok(1,2)] by blast
  then show ?thesis using assms by (simp add: start_pipeline_def make_quoter_def sample_ignition_ok(3) Let_def)
qed

theorem protected_tokens_stay_witness:
  "\<exists>p st. start_pipeline sample_ignition (pipeline_config_default\<lparr>pc_toxic_tokens_path := ''x''\<rparr>) [] [] [] = Some p \<and>
     st = sender_start (tx_sample_env (Bad_Json '''') (Bad_Json '''')) (pl_sender p) (\<lambda>_. None) None {}
       (sh_blacklisted_tokens (pl_shared p)) \<and>
     ts_blacklisted_tokens st = {7} \<and> blacklists_ok (pl_sender p) st"
proof -
  let ?c = "pipeline_config_default\<lparr>pc_toxic_tokens_path := ''x''\<rparr>"
  obtain p where p: "start_pipeline sample_ignition ?c [] [] [] = Some p"
    using sample_pipeline_starts [OF default_capacities] by blast
  have sh: "sh_blacklisted_paths (pl_shared p) = {}" "sh_blacklisted_tokens (pl_shared p) = {7}"
    using p by (auto simp: start_pipeline_def Let_def initial_toxic_def load_toxic_def sample_ignition_def split: bind_splits)
  let ?st = "sender_start (tx_sample_env (Bad_Json '''') (Bad_Json '''')) (pl_sender p) (\<lambda>_. None) None
    (sh_blacklisted_paths (pl_shared p)) (sh_blacklisted_tokens (pl_shared p))"
  have toxic: "initial_toxic (ig_toml_toxic sample_ignition) (ig_parse_address sample_ignition) (ig_read_file sample_ignition)
      (pc_toxic_tokens_path ?c) \<inter> protected_tokens ?c = {}"
    by (simp add: initial_toxic_def load_toxic_def sample_ignition_def protected_tokens_def pipeline_config_default_def)
  have "blacklists_ok (pl_sender p) ?st"
    using protected_tokens_stay [OF p refl, where tx_count = "\<lambda>_. None" and head = None and vs = "[]"] toxic by simp
  moreover have "ts_blacklisted_tokens ?st = {7}"
    using sh(2) by (simp add: sender_start_def seed_nonce_from_rpc_def split: sum.split)
  ultimately show ?thesis using p sh(1) by auto
qed

end
