(* ===== verification/TokenFilter.thy ===== *)
theory TokenFilter
  imports CalcV2 StateDb SwapTypes
begin

text \<open>
  The first half of \<open>src/filter_revm.rs\<close>: the analytical V2 round trip, the GeckoTerminal top-token
  list and the path filter built from the two. The HTTP service is a parameter: for a page and an
  attempt it gives the failure of the request, or a status with what \<open>serde_json\<close> finds in the body at the
  pointers the code asks for (all of the page's pools at \<open>/data\<close>). Pauses between requests and log
  lines are left out; text is ASCII.
\<close>

section \<open>The V2 round trip\<close>

datatype roundtrip_result = Safe u64 | Toxic u64 | Unknown

text \<open>\<open>to::<u64>()\<close> panics on a value that does not fit.\<close>

definition to_u64 :: "u256 \<Rightarrow> u64 run" where
  "to_u64 x = (if unat x < 2 ^ 64 then Some (ucast x) else None)"

definition validate_v2_roundtrip ::
    "block_state_db \<Rightarrow> address \<Rightarrow> u64 \<Rightarrow> u256 \<Rightarrow> u64 \<Rightarrow> roundtrip_result run" where
  "validate_v2_roundtrip state_db pool fee_factor test_amount max_loss_bps =
    (case read_v2_reserves state_db pool of
       None \<Rightarrow> Some Unknown
     | Some (reserve0, reserve1) \<Rightarrow>
         if reserve0 = 0 \<or> reserve1 = 0 then Some (Toxic 10000)
         else
           let mid = get_amount_out_v2 test_amount reserve0 reserve1 fee_factor
           in if mid = 0 then Some (Toxic 10000)
              else
                let new_r0 = reserve0 + test_amount;
                    new_r1 = reserve1 - mid;
                    back = get_amount_out_v2 mid new_r1 new_r0 fee_factor
                in if back = 0 then Some (Toxic 10000)
                   else if test_amount \<le> back then Some (Safe 0)
                   else do {
                     q \<leftarrow> div_run ((test_amount - back) * 10000) test_amount;
                     loss_bps \<leftarrow> to_u64 q;
                     Some (if max_loss_bps < loss_bps then Toxic loss_bps else Safe loss_bps)
                   })"

fun batch_validate_v2 ::
    "block_state_db \<Rightarrow> (address \<times> u64) list \<Rightarrow> u256 \<Rightarrow> u64 \<Rightarrow> address set \<Rightarrow> address set run" where
  "batch_validate_v2 state_db [] test_amount max_loss_bps safe = Some safe"
| "batch_validate_v2 state_db ((pool, fee_factor) # pools) test_amount max_loss_bps safe =
    do {
      r \<leftarrow> validate_v2_roundtrip state_db pool fee_factor test_amount max_loss_bps;
      batch_validate_v2 state_db pools test_amount max_loss_bps
        (case r of Safe _ \<Rightarrow> insert pool safe | Toxic _ \<Rightarrow> safe | Unknown \<Rightarrow> safe)
    }"

section \<open>The top-token list\<close>

record gecko_token =
  gt_address :: string
  gt_symbol :: string

definition chain_to_gecko :: "string \<Rightarrow> string" where
  "chain_to_gecko chain =
    (let c = map lower_char chain
     in if c = ''base'' then ''base''
        else if c = ''eth'' \<or> c = ''ethereum'' then ''eth''
        else if c = ''arbitrum'' \<or> c = ''arb'' then ''arbitrum''
        else if c = ''optimism'' \<or> c = ''op'' then ''optimism''
        else if c = ''avalanche'' \<or> c = ''avax'' then ''avax''
        else if c = ''bsc'' then ''bsc''
        else if c = ''sonic'' then ''sonic''
        else ''base'')"

text \<open>The tail of an id from the first \<open>0x\<close>.\<close>

fun gecko_id_to_addr :: "string \<Rightarrow> string option" where
  "gecko_id_to_addr (c # d # s) =
    (if c = CHR ''0'' \<and> d = CHR ''x'' then Some (c # d # s) else gecko_id_to_addr (d # s))"
| "gecko_id_to_addr s = None"

text \<open>\<open>splitn(2, " / ")\<close>: the text before the first separator, and the rest when there is one.\<close>

fun split_slash :: "string \<Rightarrow> string \<Rightarrow> string \<times> string option" where
  "split_slash acc [] = (rev acc, None)"
| "split_slash acc (c # s) =
    (if take 3 (c # s) = '' / '' then (rev acc, Some (drop 3 (c # s))) else split_slash (c # acc) s)"

record gecko_pool =
  gp_base_id :: "string option"
  gp_quote_id :: "string option"
  gp_name :: "string option"

datatype gecko_body = Not_Json string | No_Data | Page_Data "gecko_pool list"
datatype gecko_reply = Send_Failed string | Http nat gecko_body
datatype gecko_error =
    Client_Build_Failed string
  | Request_Failed nat string
  | Json_Failed nat string
  | No_Tokens

type_synonym gecko_service = "string \<Rightarrow> nat \<Rightarrow> nat \<Rightarrow> gecko_reply"

text \<open>Three attempts per page; 429 answers are retried, a failed request is an error at once.\<close>

fun request_page ::
    "gecko_service \<Rightarrow> string \<Rightarrow> nat \<Rightarrow> nat list \<Rightarrow> gecko_error + (nat \<times> gecko_body) option" where
  "request_page serve network page [] = Inr None"
| "request_page serve network page (attempt # attempts) =
    (case serve network page attempt of
       Send_Failed e \<Rightarrow> Inl (Request_Failed page e)
     | Http status body \<Rightarrow>
         if status = 429 then request_page serve network page attempts else Inr (Some (status, body)))"

definition pool_tokens :: "gecko_pool \<Rightarrow> (string \<times> string) list" where
  "pool_tokens pool =
    (let id = (\<lambda>field. map lower_char
                 (case Option.bind field gecko_id_to_addr of Some s \<Rightarrow> s | None \<Rightarrow> ''''));
         parts = split_slash '''' (case gp_name pool of Some n \<Rightarrow> n | None \<Rightarrow> ''/'')
     in [(id (gp_base_id pool), fst parts),
         (id (gp_quote_id pool), case snd parts of Some s \<Rightarrow> s | None \<Rightarrow> ''?'')])"

definition push_token ::
    "string \<times> string \<Rightarrow> gecko_token list \<times> string set \<Rightarrow> gecko_token list \<times> string set" where
  "push_token t acc =
    (case (t, acc) of ((addr, symbol), (tokens, seen)) \<Rightarrow>
       if addr \<noteq> '''' \<and> addr \<notin> seen
       then (tokens @ [\<lparr> gt_address = addr, gt_symbol = symbol \<rparr>], insert addr seen)
       else (tokens, seen))"

fun add_page :: "nat \<Rightarrow> gecko_pool list \<Rightarrow> gecko_token list \<times> string set \<Rightarrow> gecko_token list \<times> string set" where
  "add_page limit [] acc = acc"
| "add_page limit (pool # pools) acc =
    (if limit \<le> length (fst acc) then acc
     else add_page limit pools (fold push_token (pool_tokens pool) acc))"

fun gecko_pages ::
    "gecko_service \<Rightarrow> string \<Rightarrow> nat \<Rightarrow> nat list \<Rightarrow> gecko_token list \<times> string set \<Rightarrow>
     gecko_error + gecko_token list" where
  "gecko_pages serve network limit [] acc = Inr (fst acc)"
| "gecko_pages serve network limit (page # pages) acc =
    (case request_page serve network page [0, 1, 2] of
       Inl e \<Rightarrow> Inl e
     | Inr None \<Rightarrow> Inr (fst acc)
     | Inr (Some (status, body)) \<Rightarrow>
         if \<not> (200 \<le> status \<and> status < 300) then Inr (fst acc)
         else (case body of
                 Not_Json e \<Rightarrow> Inl (Json_Failed page e)
               | No_Data \<Rightarrow> Inr (fst acc)
               | Page_Data pools \<Rightarrow>
                   if pools = [] then Inr (fst acc)
                   else
                     let acc = add_page limit pools acc
                     in if limit \<le> length (fst acc) then Inr (fst acc)
                        else gecko_pages serve network limit pages acc))"

definition pages_needed :: "u64 \<Rightarrow> u64" where
  "pages_needed limit = min (max ((limit + 39) div 40) 3) 20"

definition fetch_top_tokens ::
    "string + unit \<Rightarrow> gecko_service \<Rightarrow> string \<Rightarrow> u64 \<Rightarrow> gecko_error + gecko_token list" where
  "fetch_top_tokens client serve chain limit =
    (case client of
       Inl e \<Rightarrow> Inl (Client_Build_Failed e)
     | Inr _ \<Rightarrow>
         (case gecko_pages serve (chain_to_gecko chain) (unat limit)
                 [1..<unat (pages_needed limit) + 1] ([], {}) of
            Inl e \<Rightarrow> Inl e
          | Inr tokens \<Rightarrow> if tokens = [] then Inl No_Tokens else Inr tokens))"

definition gecko_to_address_set :: "(string \<Rightarrow> u8 list option) \<Rightarrow> gecko_token list \<Rightarrow> address set" where
  "gecko_to_address_set hex_decode tokens =
    fold (\<lambda>token s.
            case hex_decode (pad40 (trim_0x (gt_address token))) of
              None \<Rightarrow> s
            | Some bytes \<Rightarrow> if length bytes = 20 then insert (from_be_bytes bytes) s else s)
      tokens {}"

section \<open>The path filter\<close>

definition path_uses_allowed_tokens :: "swap_path \<Rightarrow> address set \<Rightarrow> bool" where
  "path_uses_allowed_tokens path allowed =
    list_all (\<lambda>s. st_token_in s \<in> allowed \<and> st_token_out s \<in> allowed) (path_steps path)"

record combined_filter =
  cf_allowed_tokens :: "address set"
  cf_safe_pools :: "address set"
  cf_max_loss_bps :: u64

definition combined_filter_new :: "u64 \<Rightarrow> combined_filter" where
  "combined_filter_new max_loss_bps =
    \<lparr> cf_allowed_tokens = {}, cf_safe_pools = {}, cf_max_loss_bps = max_loss_bps \<rparr>"

definition accept_path :: "combined_filter \<Rightarrow> swap_path \<Rightarrow> bool" where
  "accept_path f path =
    (let all_safe = list_all (\<lambda>s. st_pool_address s \<in> cf_safe_pools f) (path_steps path);
         tokens_ok = (cf_allowed_tokens f = {} \<or> path_uses_allowed_tokens path (cf_allowed_tokens f))
     in all_safe \<and> tokens_ok)"

definition set_allowed_tokens :: "address set \<Rightarrow> combined_filter \<Rightarrow> combined_filter" where
  "set_allowed_tokens tokens f = f\<lparr>cf_allowed_tokens := tokens\<rparr>"

definition add_safe_pool :: "address \<Rightarrow> combined_filter \<Rightarrow> combined_filter" where
  "add_safe_pool pool f = f\<lparr>cf_safe_pools := insert pool (cf_safe_pools f)\<rparr>"

definition add_safe_pools :: "address set \<Rightarrow> combined_filter \<Rightarrow> combined_filter" where
  "add_safe_pools pools f = f\<lparr>cf_safe_pools := cf_safe_pools f \<union> pools\<rparr>"

definition filter_paths :: "swap_path list \<Rightarrow> combined_filter \<Rightarrow> swap_path list" where
  "filter_paths paths f = filter (accept_path f) paths"

section \<open>Verdicts\<close>

text \<open>The loss in basis points is at most 9999, or its product wrapped and it is smaller than \<open>2 ^ 64\<close> anyway.\<close>

lemma loss_quotient_small:
  assumes "unat loss < unat (t :: u256)"
  shows "unat (loss * 10000 div t) < 2 ^ 64"
proof (cases "unat loss * 10000 < 2 ^ 256")
  case True
  then have "unat (loss * 10000) < unat t * 10000"
    using assms by (simp add: unat_mult_exact)
  then have "unat (loss * 10000) div unat t < 10000"
    using assms by (simp add: less_mult_imp_div_less mult.commute)
  then show ?thesis by (simp add: unat_div_distrib)
next
  case False
  have "(2::nat) ^ 242 \<le> unat t"
  proof (rule ccontr)
    assume "\<not> (2::nat) ^ 242 \<le> unat t"
    then have "unat loss < 2 ^ 242" using assms by linarith
    then show False using False by simp
  qed
  then have "unat (loss * 10000) div unat t \<le> unat (loss * 10000) div 2 ^ 242"
    by (intro div_le_mono2) auto
  also have "\<dots> < 2 ^ 64"
  proof (rule less_mult_imp_div_less)
    show "unat (loss * 10000) < 2 ^ 64 * 2 ^ 242"
      using unat_less [of "loss * 10000"] by (simp del: unat_less)
  qed
  finally show ?thesis by (simp add: unat_div_distrib)
qed

lemma read_v2_reserves_bound:
  assumes "read_v2_reserves db pool = Some (r0, r1)"
  shows "unat r0 < 2 ^ 112" "unat r1 < 2 ^ 112"
proof -
  have "unat (take_bit 112 (x :: u256)) < 2 ^ 112" for x
    by (simp only: unsigned_take_bit_eq) (rule take_bit_nat_less_exp)
  then show "unat r0 < 2 ^ 112" "unat r1 < 2 ^ 112"
    using assms unfolding read_v2_reserves_def Let_def and_low_mask by auto
qed

text \<open>The round trip returns for any pool, fee, amount and threshold.\<close>

lemma validate_v2_roundtrip_total: "\<exists>r. validate_v2_roundtrip db pool f t m = Some r"
proof -
  have "\<exists>r. do { q \<leftarrow> div_run ((t - b) * 10000) t; l \<leftarrow> to_u64 q;
                 Some (if m < l then Toxic l else Safe l) } = Some r" if "b \<noteq> 0" "\<not> t \<le> b" for b
  proof -
    have "0 < unat b" using that(1) by (rule word_pos_unat)
    then have "unat (t - b) < unat t" and "t \<noteq> 0"
      using that(2) by (auto simp: unat_sub_exact word_le_nat_alt)
    then show ?thesis
      using loss_quotient_small [of "t - b" t] by (simp add: div_run_def to_u64_def)
  qed
  then show ?thesis
    by (simp add: validate_v2_roundtrip_def Let_def split: option.split)
qed

lemma batch_validate_v2_total:
  "\<exists>safe'. batch_validate_v2 db pools t m safe = Some safe' \<and>
     safe' = safe \<union> {pool. \<exists>f l. (pool, f) \<in> set pools \<and> validate_v2_roundtrip db pool f t m = Some (Safe l)}"
proof (induction pools arbitrary: safe)
  case (Cons p pools)
  obtain pool f where p: "p = (pool, f)" by (cases p)
  obtain r where r: "validate_v2_roundtrip db pool f t m = Some r"
    using validate_v2_roundtrip_total by blast
  obtain safe' where "batch_validate_v2 db pools t m (case r of Safe _ \<Rightarrow> insert pool safe | _ \<Rightarrow> safe) = Some safe'"
    "safe' = (case r of Safe _ \<Rightarrow> insert pool safe | _ \<Rightarrow> safe) \<union>
       {pool. \<exists>f l. (pool, f) \<in> set pools \<and> validate_v2_roundtrip db pool f t m = Some (Safe l)}"
    using Cons.IH by blast
  then show ?case
    using r by (cases r) (auto simp: p)
qed simp

lemma get_amount_out_v2_in_range:
  assumes "read_v2_reserves db pool = Some (r0, r1)" "r0 \<noteq> 0" "r1 \<noteq> 0"
    and "unat f \<le> 10000" "unat t < 2 ^ 112" "mid = get_amount_out_v2 t r0 r1 f"
  shows "v2_ok f t r0 r1" "mid < r1" "v2_ok f mid (r1 - mid) (r0 + t)" "unat r0 + unat t < 2 ^ 256"
proof -
  note b = read_v2_reserves_bound [OF assms(1)]
  show ok: "v2_ok f t r0 r1" using assms b by (intro v2_ok_112)
  show mid: "mid < r1"
    using v2.out_less_reserve [OF ok refl assms(3)] assms(6) by (simp add: word_less_nat_alt)
  show sum: "unat r0 + unat t < 2 ^ 256" using b(1) assms(5) by simp
  have m: "unat mid < 2 ^ 112" using mid b(2) by (simp add: word_less_nat_alt)
  have mf: "unat mid * unat f \<le> 2 ^ 112 * 10000"
    by (intro mult_le_mono order_less_imp_le [OF m] assms(4))
  have "unat (r0 + t) \<le> 2 ^ 113"
    using sum b(1) assms(5) by (simp add: unat_add_exact)
  then have "unat mid * unat f * unat (r0 + t) \<le> (2 ^ 112 * 10000) * 2 ^ 113"
    by (intro mult_le_mono [OF mf])
  moreover have "unat (r1 - mid) * 10000 \<le> 2 ^ 112 * 10000"
    using b(2) mid by (intro mult_le_mono) (auto simp: unat_sub_exact)
  moreover have "r1 - mid \<noteq> 0" using mid by auto
  ultimately show "v2_ok f mid (r1 - mid) (r0 + t)"
    using mf assms(4) by (simp add: v2_ok_def)
qed

section \<open>The token list\<close>

definition tokens_inv :: "gecko_token list \<times> string set \<Rightarrow> bool" where
  "tokens_inv acc \<longleftrightarrow> distinct (map gt_address (fst acc)) \<and> set (map gt_address (fst acc)) = snd acc \<and>
     '''' \<notin> snd acc"

lemma push_token_inv:
  "tokens_inv acc \<Longrightarrow> tokens_inv (push_token t acc) \<and>
     length (fst acc) \<le> length (fst (push_token t acc)) \<and>
     length (fst (push_token t acc)) \<le> length (fst acc) + 1"
  by (cases t; cases acc) (auto simp: tokens_inv_def push_token_def)

lemma push_pool_inv:
  assumes "tokens_inv acc"
  shows "tokens_inv (fold push_token (pool_tokens p) acc) \<and>
     length (fst (fold push_token (pool_tokens p) acc)) \<le> length (fst acc) + 2"
proof -
  obtain t u where "pool_tokens p = [t, u]" by (auto simp: pool_tokens_def Let_def)
  then show ?thesis
    using push_token_inv [OF assms, of t] push_token_inv [of "push_token t acc" u] by auto
qed

lemma add_page_inv:
  "tokens_inv acc \<Longrightarrow> length (fst acc) \<le> limit + 1 \<Longrightarrow>
   tokens_inv (add_page limit pools acc) \<and> length (fst (add_page limit pools acc)) \<le> limit + 1"
proof (induction limit pools acc rule: add_page.induct)
  case (2 limit pool pools acc)
  then show ?case using push_pool_inv [OF 2(2), of pool] by auto
qed simp

lemma gecko_pages_inv:
  "tokens_inv acc \<Longrightarrow> length (fst acc) \<le> limit + 1 \<Longrightarrow>
   gecko_pages serve network limit pages acc = Inr tokens \<Longrightarrow>
   distinct (map gt_address tokens) \<and> '''' \<notin> gt_address ` set tokens \<and> length tokens \<le> limit + 1"
proof (induction serve network limit pages acc rule: gecko_pages.induct)
  case (2 serve network limit page pages acc)
  let ?ok = "\<lambda>ts. distinct (map gt_address ts) \<and> '''' \<notin> gt_address ` set ts \<and> length ts \<le> limit + 1"
  have inv: "tokens_inv acc" "length (fst acc) \<le> limit + 1"
    using 2(2,3) .
  note next_inv = add_page_inv [OF inv]
  have stop: "?ok (fst a)" if "tokens_inv a" "length (fst a) \<le> limit + 1" for a
    using that by (simp add: tokens_inv_def)
  note stop_acc = stop [OF inv] and stop_page = stop [OF conjunct1 [OF next_inv] conjunct2 [OF next_inv]]
  show ?case
  proof (cases "\<exists>status ps. request_page serve network page [0, 1, 2] = Inr (Some (status, Page_Data ps)) \<and>
      200 \<le> status \<and> status < 300 \<and> ps \<noteq> [] \<and> \<not> limit \<le> length (fst (add_page limit ps acc))")
    case True
    then obtain status ps where r: "request_page serve network page [0, 1, 2] = Inr (Some (status, Page_Data ps))"
      "200 \<le> status \<and> status < 300" "ps \<noteq> []" "\<not> limit \<le> length (fst (add_page limit ps acc))" by blast
    then have "gecko_pages serve network limit pages (add_page limit ps acc) = Inr tokens"
      using 2(4) by (simp add: Let_def del: request_page.simps)
    then show ?thesis
      using 2(1) [OF r(1) refl refl _ refl r(3) refl r(4)] r(2) next_inv [of ps] by blast
  next
    case False
    then have "tokens = fst acc \<or> (\<exists>ps. tokens = fst (add_page limit ps acc))"
      using 2(4)
      by (auto simp: Let_def simp del: request_page.simps
          split: sum.splits option.splits prod.splits if_splits gecko_body.splits)
    then show ?thesis using stop_acc stop_page by blast
  qed
qed (auto simp: tokens_inv_def)

section \<open>The path filter\<close>

lemma filter_paths_iff:
  "p \<in> set (filter_paths paths f) \<longleftrightarrow> p \<in> set paths \<and>
     (\<forall>s \<in> set (path_steps p). st_pool_address s \<in> cf_safe_pools f \<and>
        (cf_allowed_tokens f \<noteq> {} \<longrightarrow> st_token_in s \<in> cf_allowed_tokens f \<and> st_token_out s \<in> cf_allowed_tokens f))"
  by (auto simp: filter_paths_def accept_path_def path_uses_allowed_tokens_def list_all_iff)

section \<open>Properties\<close>

text \<open>
  The V2 round trip of a pool with packed reserves, a fee of at most 100% and an amount below
  \<open>2 ^ 112\<close> gives a verdict; it never finds a profit, and it is \<open>Safe\<close> exactly when the amount that
  comes back is not 0 and the loss, rounded down to basis points, is within the threshold.
\<close>

lemma v2_roundtrip_verdict:
  assumes "read_v2_reserves db pool = Some (r0, r1)" "r0 \<noteq> 0" "r1 \<noteq> 0" "unat f \<le> 10000"
    and "unat t < 2 ^ 112"
    and "mid = get_amount_out_v2 t r0 r1 f" "back = get_amount_out_v2 mid (r1 - mid) (r0 + t) f"
  shows "\<exists>r. validate_v2_roundtrip db pool f t m = Some r \<and> back \<le> t \<and>
    ((\<exists>l. r = Safe l) \<longleftrightarrow> back \<noteq> 0 \<and> (unat t - unat back) * 10000 div unat t \<le> unat m)"
proof -
  note ok = get_amount_out_v2_in_range [OF assms(1-6)]
  have le: "back \<le> t"
    using ok(3) assms(6,7)
    by (intro v2.round_trip_no_profit [OF ok(1) refl ok(4) assms(3)]) simp_all
  have zero: "back = 0" if "mid = 0"
    using that assms(7) by (simp add: get_amount_out_v2_def)
  show ?thesis
  proof (cases "back = 0 \<or> t \<le> back")
    case True
    then show ?thesis
      using le assms zero by (auto simp: validate_v2_roundtrip_def Let_def)
  next
    case False
    then have less: "unat back < unat t" "0 < unat back" "mid \<noteq> 0"
      using le zero by (auto simp: word_le_nat_alt word_pos_unat)
    have s: "unat (t - back) = unat t - unat back"
      using le by (simp add: unat_sub_exact)
    have "unat (t - back) * unat (10000 :: u256) < 2 ^ LENGTH(256)"
      using assms(5) by (simp add: s)
    then have "unat ((t - back) * 10000) = (unat t - unat back) * 10000"
      by (simp only: unat_mult_exact) (simp add: s)
    then have q: "unat ((t - back) * 10000 div t) = (unat t - unat back) * 10000 div unat t"
      by (simp add: unat_div_distrib)
    have "unat (t - back) < unat t"
      using less le by (simp add: unat_sub_exact)
    then have small: "(unat t - unat back) * 10000 div unat t < 2 ^ 64"
      using loss_quotient_small [of "t - back" t] q by simp
    then have "unat (ucast ((t - back) * 10000 div t) :: u64) = (unat t - unat back) * 10000 div unat t"
      using q by (simp add: unsigned_ucast_eq take_bit_nat_eq_self)
    then have "validate_v2_roundtrip db pool f t m =
        Some (if unat m < (unat t - unat back) * 10000 div unat t
              then Toxic (ucast ((t - back) * 10000 div t)) else Safe (ucast ((t - back) * 10000 div t)))"
      using False less small q assms
      by (auto simp: validate_v2_roundtrip_def Let_def div_run_def to_u64_def word_less_nat_alt)
    then show ?thesis using le False by auto
  qed
qed

text \<open>
  A token list that comes back is not empty, names every address once, none of them the empty
  text, and is longer than the limit by at most one token, whatever the service answers.
\<close>

lemma gecko_tokens_bounded:
  assumes "fetch_top_tokens client serve chain limit = Inr tokens"
  shows "tokens \<noteq> [] \<and> distinct (map gt_address tokens) \<and> '''' \<notin> gt_address ` set tokens \<and>
    length tokens \<le> unat limit + 1"
proof -
  have "gecko_pages serve (chain_to_gecko chain) (unat limit) [1..<unat (pages_needed limit) + 1] ([], {}) = Inr tokens"
    and "tokens \<noteq> []"
    using assms by (auto simp: fetch_top_tokens_def split: sum.splits if_splits)
  then show ?thesis
    using gecko_pages_inv [of "([], {})" "unat limit"] by (simp add: tokens_inv_def)
qed

definition sample_service :: gecko_service where
  "sample_service network page attempt =
    (if page = 1
     then (if attempt = 0 then Http 429 No_Data
           else Http 200 (Page_Data [\<lparr> gp_base_id = Some ''base_0xAb'', gp_quote_id = Some ''base_0xcd'', gp_name = Some ''A / B'' \<rparr>]))
     else Http 500 No_Data)"

end
