(* ===== verification/SwapFilter.thy ===== *)
theory SwapFilter
  imports TokenFilter Quoter PoolTypes "HOL-Library.Multiset"
begin

text \<open>
  The second half of \<open>src/filter_revm.rs\<close>: routers, the search for the balance slot of a token, the
  round-trip swap test of a pool in REVM and the filter over all pools. REVM and the ABI encoders are
  \<open>filter_evm\<close>: a call on a database gives a result and the database after the commit. The JSON batch of
  the slot search is a list of requests with their ids; its answer, when there is one, a list of ids and
  string results. The iteration order of a hash set is the argument \<open>order\<close>, the completion order of
  concurrent requests an \<open>arrival\<close>, and \<open>workers\<close> cuts the tested pools into the runs that one clone of the
  database serves one after the other. Counters, timing and log lines are left out.
\<close>

section \<open>Routers\<close>

definition FILTER_ACCOUNT :: address where "FILTER_ACCOUNT = 1"
definition TOKEN_LOTS :: u256 where "TOKEN_LOTS = 0xFFFFFFFFFFFFFFFFFFFFFFFFFFFFFFFF"
definition FILTER_GAS :: u64 where "FILTER_GAS = 450000"
definition TEST_AMOUNTS :: "u256 list" where
  "TEST_AMOUNTS = [1000000000000000, 1000000000000, 1000000000, 1000000]"

datatype router_variant =
  RV_V2 | RV_V3Basic | RV_V3Deadline | RV_Aerodrome bool | RV_Solidly bool | RV_Slipstream

fun protocol_router_key :: "pool_protocol \<Rightarrow> string option" where
  "protocol_router_key UniswapV2 = Some ''uniswapv2''"
| "protocol_router_key SushiSwapV2 = Some ''sushiswapv2''"
| "protocol_router_key PancakeSwapV2 = Some ''pancakeswapv2''"
| "protocol_router_key BaseSwapV2 = Some ''baseswapv2''"
| "protocol_router_key AlienBaseV2 = Some ''alienbasev2''"
| "protocol_router_key Aerodrome = Some ''aerodrome''"
| "protocol_router_key Slipstream = Some ''slipstream''"
| "protocol_router_key UniswapV3 = Some ''uniswapv3''"
| "protocol_router_key SushiSwapV3 = Some ''sushiswapv3''"
| "protocol_router_key BaseSwapV3 = Some ''baseswapv3''"
| "protocol_router_key PancakeSwapV3 = Some ''pancakeswapv3''"
| "protocol_router_key AlienBaseV3 = Some ''alienbasev3''"
| "protocol_router_key AlgebraV1 = None"
| "protocol_router_key BalancerV2 = None"
| "protocol_router_key CurveTwoCrypto = None"
| "protocol_router_key CurveTriCrypto = None"
| "protocol_router_key MaverickV2 = None"

record router_registry =
  rr_map :: "pool_protocol \<rightharpoonup> address"
  rr_solidly_mode :: bool

definition router_protocol_of_key :: "string \<Rightarrow> pool_protocol option" where
  "router_protocol_of_key k =
    (if k = ''uniswapv2'' then Some UniswapV2
     else if k = ''sushiswapv2'' then Some SushiSwapV2
     else if k = ''pancakeswapv2'' then Some PancakeSwapV2
     else if k = ''baseswapv2'' then Some BaseSwapV2
     else if k = ''alienbasev2'' then Some AlienBaseV2
     else if k = ''aerodrome'' then Some Aerodrome
     else if k = ''solidly'' then Some Aerodrome
     else if k = ''slipstream'' then Some Slipstream
     else if k = ''uniswapv3'' then Some UniswapV3
     else if k = ''sushiswapv3'' then Some SushiSwapV3
     else if k = ''baseswapv3'' then Some BaseSwapV3
     else if k = ''pancakeswapv3'' then Some PancakeSwapV3
     else if k = ''alienbasev3'' then Some AlienBaseV3
     else None)"

definition register_router ::
    "(string \<Rightarrow> address option) \<Rightarrow> string \<times> string \<Rightarrow> router_registry \<Rightarrow> router_registry" where
  "register_router parse kv reg =
    (let k = map lower_char (fst kv);
         reg = (if k = ''solidly'' then reg\<lparr>rr_solidly_mode := True\<rparr> else reg)
     in case router_protocol_of_key k of
          None \<Rightarrow> reg
        | Some protocol \<Rightarrow>
            (case parse (snd kv) of
               None \<Rightarrow> reg
             | Some addr \<Rightarrow> reg\<lparr>rr_map := (rr_map reg)(protocol \<mapsto> addr)\<rparr>))"

text \<open>The entries of the table in the order in which its hash map is walked.\<close>

definition build_router_registry ::
    "(string \<Rightarrow> address option) \<Rightarrow> (string \<times> string) list \<Rightarrow> router_registry" where
  "build_router_registry parse raw_routers =
    fold (register_router parse) raw_routers \<lparr> rr_map = Map.empty, rr_solidly_mode = False \<rparr>"

definition registry_is_empty :: "router_registry \<Rightarrow> bool" where
  "registry_is_empty reg \<longleftrightarrow> rr_map reg = Map.empty"

fun router_variant_of :: "bool \<Rightarrow> 32 word \<Rightarrow> pool_protocol \<Rightarrow> router_variant option" where
  "router_variant_of solidly tick_spacing UniswapV2 = Some RV_V2"
| "router_variant_of solidly tick_spacing SushiSwapV2 = Some RV_V2"
| "router_variant_of solidly tick_spacing PancakeSwapV2 = Some RV_V2"
| "router_variant_of solidly tick_spacing BaseSwapV2 = Some RV_V2"
| "router_variant_of solidly tick_spacing AlienBaseV2 = Some RV_V2"
| "router_variant_of solidly tick_spacing Aerodrome =
     Some (if solidly then RV_Solidly (tick_spacing = 0) else RV_Aerodrome (tick_spacing = 0))"
| "router_variant_of solidly tick_spacing Slipstream = Some RV_Slipstream"
| "router_variant_of solidly tick_spacing UniswapV3 = Some RV_V3Basic"
| "router_variant_of solidly tick_spacing AlienBaseV3 = Some RV_V3Basic"
| "router_variant_of solidly tick_spacing PancakeSwapV3 = Some RV_V3Basic"
| "router_variant_of solidly tick_spacing SushiSwapV3 = Some RV_V3Deadline"
| "router_variant_of solidly tick_spacing BaseSwapV3 = Some RV_V3Deadline"
| "router_variant_of solidly tick_spacing AlgebraV1 = None"
| "router_variant_of solidly tick_spacing BalancerV2 = None"
| "router_variant_of solidly tick_spacing CurveTwoCrypto = None"
| "router_variant_of solidly tick_spacing CurveTriCrypto = None"
| "router_variant_of solidly tick_spacing MaverickV2 = None"

definition protocol_to_router ::
    "pool_protocol \<Rightarrow> 32 word \<Rightarrow> router_registry \<Rightarrow> (address \<times> router_variant) option" where
  "protocol_to_router protocol tick_spacing reg =
    do {
      variant \<leftarrow> router_variant_of (rr_solidly_mode reg) tick_spacing protocol;
      router \<leftarrow> rr_map reg protocol;
      Some (router, variant)
    }"

section \<open>Router calls\<close>

record route =
  rt_from :: address
  rt_to :: address
  rt_stable :: bool

text \<open>
  The calls of the six router interfaces with their arguments in the order of the Solidity signature;
  an Aerodrome route carries its factory besides.
\<close>

datatype router_call =
    Swap_Exact_Tokens u256 u256 "address list" address u256
  | Exact_Input_Single address address "24 word" address u256 u256 "160 word"
  | Exact_Input_Single_Deadline address address "24 word" address u256 u256 u256 "160 word"
  | Swap_Aerodrome u256 u256 "(route \<times> address) list" address u256
  | Swap_Solidly u256 u256 "route list" address u256
  | Slipstream_Single address address "24 word" address u256 u256 u256 "160 word"

definition fee_u24 :: "u32 \<Rightarrow> 24 word" where
  "fee_u24 fee = (if unat fee < 2 ^ 24 then ucast fee else 3000)"

definition tick_spacing_i24 :: "32 word \<Rightarrow> 24 word" where
  "tick_spacing_i24 ts = (if - (2 ^ 23) \<le> sint ts \<and> sint ts < 2 ^ 23 then scast ts else 100)"

definition build_swap_call :: "raw_pool \<Rightarrow> router_variant \<Rightarrow> address \<Rightarrow> u256 \<Rightarrow> bool \<Rightarrow> router_call" where
  "build_swap_call pool variant recipient amount_in forward =
    (let (token_in, token_out) =
           (if forward then (rp_token0 pool, rp_token1 pool) else (rp_token1 pool, rp_token0 pool))
     in case variant of
          RV_V2 \<Rightarrow> Swap_Exact_Tokens amount_in 0 [token_in, token_out] recipient (- 1)
        | RV_V3Basic \<Rightarrow>
            Exact_Input_Single token_in token_out (fee_u24 (rp_fee pool)) recipient amount_in 0 0
        | RV_V3Deadline \<Rightarrow>
            Exact_Input_Single_Deadline token_in token_out (fee_u24 (rp_fee pool)) recipient (- 1) amount_in 0 0
        | RV_Aerodrome is_stable \<Rightarrow>
            Swap_Aerodrome amount_in 0 [(\<lparr> rt_from = token_in, rt_to = token_out, rt_stable = is_stable \<rparr>, 0)]
              recipient (- 1)
        | RV_Solidly is_stable \<Rightarrow>
            Swap_Solidly amount_in 0 [\<lparr> rt_from = token_in, rt_to = token_out, rt_stable = is_stable \<rparr>]
              recipient (- 1)
        | RV_Slipstream \<Rightarrow>
            Slipstream_Single token_in token_out (tick_spacing_i24 (rp_tick_spacing pool)) recipient (- 1)
              amount_in 0 0)"

fun returns_amounts :: "router_variant \<Rightarrow> bool" where
  "returns_amounts RV_V2 = True"
| "returns_amounts (RV_Aerodrome _) = True"
| "returns_amounts (RV_Solidly _) = True"
| "returns_amounts RV_V3Basic = False"
| "returns_amounts RV_V3Deadline = False"
| "returns_amounts RV_Slipstream = False"

definition decode_swap_output :: "u8 list \<Rightarrow> router_variant \<Rightarrow> u256 run" where
  "decode_swap_output data variant =
    (if returns_amounts variant then
       (if length data < 96 then Some 0
        else do {
          n_bytes \<leftarrow> slice data 32 64;
          n \<leftarrow> to_u64 (from_be_bytes n_bytes);
          let stop = 64 + n * 32;
          if n = 0 \<or> length data < unat stop then Some 0
          else do {
            last_bytes \<leftarrow> slice data (stop - 32) stop;
            Some (from_be_bytes last_bytes)
          }
        })
     else if length data < 32 then Some 0
     else do {
       bs \<leftarrow> slice data 0 32;
       Some (from_be_bytes bs)
     })"

section \<open>The swap test\<close>

record filter_evm =
  fe_transact :: "block_state_db \<Rightarrow> address \<Rightarrow> address \<Rightarrow> u8 list \<Rightarrow> u256 \<Rightarrow> u64 \<Rightarrow> exec_result \<times> block_state_db"
  fe_encode_swap :: "router_call \<Rightarrow> u8 list"
  fe_encode_approve :: "address \<Rightarrow> u256 \<Rightarrow> u8 list"

definition build_swap_calldata ::
    "filter_evm \<Rightarrow> raw_pool \<Rightarrow> router_variant \<Rightarrow> address \<Rightarrow> u256 \<Rightarrow> bool \<Rightarrow> u8 list" where
  "build_swap_calldata fe pool variant recipient amount_in forward =
    fe_encode_swap fe (build_swap_call pool variant recipient amount_in forward)"

definition evm_call_commit ::
    "filter_evm \<Rightarrow> block_state_db \<Rightarrow> address \<Rightarrow> address \<Rightarrow> u8 list \<Rightarrow> u256 \<Rightarrow> u8 list option \<times> block_state_db" where
  "evm_call_commit fe db caller target calldata value =
    (let (result, db) = fe_transact fe db caller target calldata value FILTER_GAS
     in (case result of
           Exec_Success output \<Rightarrow> Some output
         | Exec_Error \<Rightarrow> None
         | Exec_Revert \<Rightarrow> None
         | Exec_Halt \<Rightarrow> None, db))"

datatype slot_layout = Solidity | Vyper

definition mapping_slot :: "(u8 list \<Rightarrow> u256) \<Rightarrow> address \<Rightarrow> u64 \<Rightarrow> u256" where
  "mapping_slot keccak holder slot_idx =
    keccak (replicate 12 0 @ be_bytes 20 holder @ be_bytes 32 (ucast slot_idx :: u256))"

definition mapping_slot_vyper :: "(u8 list \<Rightarrow> u256) \<Rightarrow> address \<Rightarrow> u64 \<Rightarrow> u256" where
  "mapping_slot_vyper keccak holder slot_idx =
    keccak (be_bytes 32 (ucast slot_idx :: u256) @ replicate 12 0 @ be_bytes 20 holder)"

definition compute_slot :: "(u8 list \<Rightarrow> u256) \<Rightarrow> address \<Rightarrow> u64 \<Rightarrow> slot_layout \<Rightarrow> u256" where
  "compute_slot keccak holder slot_idx layout =
    (case layout of Solidity \<Rightarrow> mapping_slot keccak holder slot_idx
                  | Vyper \<Rightarrow> mapping_slot_vyper keccak holder slot_idx)"

type_synonym slot_map = "address \<rightharpoonup> u64 \<times> slot_layout"

definition inject_balances ::
    "chain_env \<Rightarrow> raw_pool \<Rightarrow> u256 \<Rightarrow> u256 \<Rightarrow> block_state_db \<Rightarrow> block_state_db" where
  "inject_balances env pool s0 s1 db =
    inject_slot env (rp_token1 pool) s1 TOKEN_LOTS (inject_slot env (rp_token0 pool) s0 TOKEN_LOTS db)"

fun try_amounts ::
    "chain_env \<Rightarrow> filter_evm \<Rightarrow> raw_pool \<Rightarrow> address \<Rightarrow> router_variant \<Rightarrow> u256 \<Rightarrow> u256 \<Rightarrow> u256 list \<Rightarrow> string \<Rightarrow>
     block_state_db \<Rightarrow> ((string + unit) \<times> block_state_db) run" where
  "try_amounts env fe pool router variant s0 s1 [] last_ab_err db = Some (Inl last_ab_err, db)"
| "try_amounts env fe pool router variant s0 s1 (test_amount # amounts) last_ab_err db =
    (let db = inject_balances env pool s0 s1 db;
         cd_ab = build_swap_calldata fe pool variant FILTER_ACCOUNT test_amount True
     in case evm_call_commit fe db FILTER_ACCOUNT router cd_ab 0 of
          (None, db) \<Rightarrow> try_amounts env fe pool router variant s0 s1 amounts ''swap_ab_failed'' db
        | (Some out_ab, db) \<Rightarrow>
            do {
              amt_b \<leftarrow> decode_swap_output out_ab variant;
              if amt_b = 0 then try_amounts env fe pool router variant s0 s1 amounts ''swap_ab_zero_output'' db
              else
                let cd_ba = build_swap_calldata fe pool variant FILTER_ACCOUNT amt_b False
                in case evm_call_commit fe db FILTER_ACCOUNT router cd_ba 0 of
                     (None, db) \<Rightarrow> Some (Inl ''swap_ba_failed'', db)
                   | (Some out_ba, db) \<Rightarrow>
                       do {
                         amt_a_back \<leftarrow> decode_swap_output out_ba variant;
                         let lower = saturating_mul test_amount 95 div 100;
                         Some (if lower \<le> amt_a_back then Inr () else Inl ''roundtrip_below_95pct'', db)
                       }
            })"

definition test_pool_filter_reason ::
    "chain_env \<Rightarrow> filter_evm \<Rightarrow> slot_map \<Rightarrow> router_registry \<Rightarrow> raw_pool \<Rightarrow> block_state_db \<Rightarrow>
     ((string + unit) \<times> block_state_db) run" where
  "test_pool_filter_reason env fe slot_map reg pool db =
    (case slot_map (rp_token0 pool) of
       None \<Rightarrow> Some (Inl ''missing_slot_token0'', db)
     | Some (idx0, layout0) \<Rightarrow>
    (case slot_map (rp_token1 pool) of
       None \<Rightarrow> Some (Inl ''missing_slot_token1'', db)
     | Some (idx1, layout1) \<Rightarrow>
    (if protocol_router_key (rp_protocol pool) = None then Some (Inr (), db)
     else case protocol_to_router (rp_protocol pool) (rp_tick_spacing pool) reg of
       None \<Rightarrow> Some (Inl ''missing_router_config'', db)
     | Some (router, variant) \<Rightarrow>
         let s0 = compute_slot (env_keccak env) FILTER_ACCOUNT idx0 layout0;
             s1 = compute_slot (env_keccak env) FILTER_ACCOUNT idx1 layout1;
             db = inject_balances env pool s0 s1 db;
             approve = fe_encode_approve fe router TOKEN_LOTS;
             (r0, db) = evm_call_commit fe db FILTER_ACCOUNT (rp_token0 pool) approve 0
         in if r0 = None then Some (Inl ''approve_token0_failed'', db)
            else
              let (r1, db) = evm_call_commit fe db FILTER_ACCOUNT (rp_token1 pool) approve 0
              in if r1 = None then Some (Inl ''approve_token1_failed'', db)
                 else try_amounts env fe pool router variant s0 s1 TEST_AMOUNTS ''swap_ab_failed'' db)))"

section \<open>The balance slot of a token\<close>

datatype batch_call = Balance_Of address address | Storage_At address u256

type_synonym batch_endpoint = "(u64 \<times> batch_call) list \<Rightarrow> (u64 option \<times> string option) list option"

definition slot_probes :: "(u64 \<times> u64 \<times> slot_layout) list" where
  "slot_probes =
    concat (map (\<lambda>i. [(of_nat (2 * i + 1), of_nat i, Solidity), (of_nat (2 * i + 2), of_nat i, Vyper)]) [0..<24])"

definition slot_batch :: "(u8 list \<Rightarrow> u256) \<Rightarrow> address \<Rightarrow> address \<Rightarrow> (u64 \<times> batch_call) list" where
  "slot_batch keccak token holder =
    (0, Balance_Of token holder) #
    map (\<lambda>(id, slot_idx, layout). (id, Storage_At token (compute_slot keccak holder slot_idx layout))) slot_probes"

text \<open>A result that is missing or is not the hex of 32 bytes counts as 0.\<close>

definition answer_u256 :: "(string \<Rightarrow> u8 list option) \<Rightarrow> string option \<Rightarrow> u256" where
  "answer_u256 hex_decode answer =
    (case answer of
       None \<Rightarrow> 0
     | Some s \<Rightarrow>
         (case hex_decode (pad64 (trim_0x s)) of
            None \<Rightarrow> 0
          | Some bytes \<Rightarrow> if length bytes = 32 then from_be_bytes bytes else 0))"

text \<open>The answers by their id; a later one replaces an earlier one.\<close>

definition answers_by_id :: "(u64 option \<times> string option) list \<Rightarrow> u64 \<rightharpoonup> string option" where
  "answers_by_id results =
    fold (\<lambda>(id, r) m. case id of Some i \<Rightarrow> m(i \<mapsto> r) | None \<Rightarrow> m) results Map.empty"

definition find_balance_slot ::
    "chain_env \<Rightarrow> batch_endpoint \<Rightarrow> address \<Rightarrow> address \<Rightarrow> (u64 \<times> slot_layout) option" where
  "find_balance_slot env ask token holder =
    (case ask (slot_batch (env_keccak env) token holder) of
       None \<Rightarrow> None
     | Some results \<Rightarrow>
         (let by_id = answers_by_id results;
              actual_balance = (case by_id 0 of Some r \<Rightarrow> answer_u256 (env_hex_decode env) r | None \<Rightarrow> 0)
          in if actual_balance = 0 then None
             else map_option snd
                    (find (\<lambda>(id, _). case by_id id of
                                       Some r \<Rightarrow> answer_u256 (env_hex_decode env) r = actual_balance
                                     | None \<Rightarrow> False) slot_probes)))"

definition token_holders :: "raw_pool list \<Rightarrow> address \<rightharpoonup> address" where
  "token_holders pools =
    fold (\<lambda>p m. let or_insert = (\<lambda>t m. if m t = None then m(t \<mapsto> rp_address p) else m)
                in or_insert (rp_token1 p) (or_insert (rp_token0 p) m)) pools Map.empty"

text \<open>\<open>finished\<close> lists the tokens in the order in which their searches end.\<close>

definition construct_slot_map ::
    "chain_env \<Rightarrow> batch_endpoint \<Rightarrow> (address set \<Rightarrow> address list) \<Rightarrow> raw_pool list \<Rightarrow> slot_map" where
  "construct_slot_map env ask finished pools =
    (let holders = token_holders pools
     in fold (\<lambda>token m. case holders token of
                None \<Rightarrow> m
              | Some holder \<Rightarrow>
                  (case find_balance_slot env ask token holder of
                     None \<Rightarrow> m
                   | Some slot \<Rightarrow> m(token \<mapsto> slot)))
          (finished (dom holders)) Map.empty)"

section \<open>The filter over all pools\<close>

definition UNTESTABLE_REASONS :: "string list" where
  "UNTESTABLE_REASONS = [''missing_slot_token0'', ''missing_slot_token1'', ''missing_router_config'']"

definition is_testable :: "slot_map \<Rightarrow> raw_pool \<Rightarrow> bool" where
  "is_testable slot_map pool =
    (let has_slot0 = (slot_map (rp_token0 pool) \<noteq> None);
         has_slot1 = (slot_map (rp_token1 pool) \<noteq> None);
         needs_test = (protocol_router_key (rp_protocol pool) \<noteq> None)
     in (has_slot0 \<and> has_slot1) \<or> \<not> needs_test)"

record filter_run =
  fr_order :: "address set \<Rightarrow> address list"
  fr_finished :: "address set \<Rightarrow> address list"
  fr_arrive_codes :: "address list \<Rightarrow> address list"
  fr_arrive_tokens :: arrival
  fr_arrive_v3 :: arrival
  fr_arrive_reserves :: arrival
  fr_workers :: "raw_pool list \<Rightarrow> raw_pool list list"

definition filter_database ::
    "chain_env \<Rightarrow> filter_run \<Rightarrow> router_registry \<Rightarrow> raw_pool list \<Rightarrow> block_state_db run" where
  "filter_database env fr reg testable =
    (let db = inject_account FILTER_ACCOUNT
                \<lparr> ai_balance = 1000000000000000000000, ai_nonce = 0, ai_code_hash = env_keccak env [], ai_code = None \<rparr>
                (state_db_new 0);
         addrs = (\<Union>p \<in> set testable. {rp_address p, rp_token0 p, rp_token1 p}) \<union> ran (rr_map reg);
         db = fold track_pool (fr_order fr addrs) db;
         tracked = fr_order fr (db_tracked_pools db);
         db = prefetch_pool_codes env (fr_arrive_codes fr) tracked db
     in do {
       db \<leftarrow> prefetch_token_slots env (fr_arrive_tokens fr) tracked db;
       db \<leftarrow> prefetch_v3_slots env (fr_arrive_v3 fr) tracked db;
       results \<leftarrow> those (map (fetch_latest env)
                    (fr_arrive_reserves fr (map (\<lambda>p. (rp_address p, V2_RESERVES_SLOT)) testable)));
       Some (store_results (env_default_info env) (filter (\<lambda>(k, v). v \<noteq> 0) results) db)
     })"

text \<open>One run of pools on one clone of the database.\<close>

fun test_pools ::
    "chain_env \<Rightarrow> filter_evm \<Rightarrow> slot_map \<Rightarrow> router_registry \<Rightarrow> raw_pool list \<Rightarrow> block_state_db \<Rightarrow>
     (raw_pool \<times> (string + unit)) list run" where
  "test_pools env fe slot_map reg [] db = Some []"
| "test_pools env fe slot_map reg (pool # pools) db =
    do {
      (result, db) \<leftarrow> test_pool_filter_reason env fe slot_map reg pool db;
      rest \<leftarrow> test_pools env fe slot_map reg pools db;
      Some ((pool, result) # rest)
    }"

definition passes :: "string + unit \<Rightarrow> bool" where
  "passes result = (case result of Inr _ \<Rightarrow> True | Inl reason \<Rightarrow> reason \<in> set UNTESTABLE_REASONS)"

definition filter_pools_by_swap ::
    "chain_env \<Rightarrow> filter_evm \<Rightarrow> filter_run \<Rightarrow> slot_map \<Rightarrow> router_registry \<Rightarrow> raw_pool list \<Rightarrow> raw_pool list run" where
  "filter_pools_by_swap env fe fr slot_map reg pools =
    (let testable = filter (is_testable slot_map) pools;
         untestable = filter (\<lambda>p. \<not> is_testable slot_map p) pools
     in do {
       db \<leftarrow> filter_database env fr reg testable;
       results \<leftarrow> those (map (\<lambda>run. test_pools env fe slot_map reg run db) (fr_workers fr testable));
       Some (map fst (filter (\<lambda>(p, result). passes result) (concat results)) @ untestable)
     })"

datatype filter_error = No_Routers_Configured | No_Router_Matches "pool_protocol set"

definition blacklist_stage :: "address set \<Rightarrow> raw_pool list \<Rightarrow> raw_pool list" where
  "blacklist_stage blacklisted pools =
    (if blacklisted \<noteq> {}
     then filter (\<lambda>p. rp_token0 p \<notin> blacklisted \<and> rp_token1 p \<notin> blacklisted) pools
     else pools)"

definition gecko_stage ::
    "(string \<Rightarrow> u8 list option) \<Rightarrow> string + unit \<Rightarrow> gecko_service \<Rightarrow> string option \<Rightarrow> u64 \<Rightarrow> raw_pool list \<Rightarrow> raw_pool list" where
  "gecko_stage hex_decode client serve chain token_limit pools =
    (if 0 < token_limit
     then (case fetch_top_tokens client serve (case chain of Some c \<Rightarrow> c | None \<Rightarrow> ''base'') token_limit of
             Inl _ \<Rightarrow> pools
           | Inr tokens \<Rightarrow>
               (let allowed = gecko_to_address_set hex_decode tokens
                in if allowed \<noteq> {}
                   then filter (\<lambda>p. rp_token0 p \<in> allowed \<and> rp_token1 p \<in> allowed) pools
                   else pools))
     else pools)"

text \<open>
  \<open>chain\<close> is the variable \<open>BOT_CHAIN\<close>. The outer option is a panic, the sum the \<open>Result\<close> of the function.
\<close>

definition filter_pools_full ::
    "chain_env \<Rightarrow> filter_evm \<Rightarrow> filter_run \<Rightarrow> batch_endpoint \<Rightarrow> string + unit \<Rightarrow> gecko_service \<Rightarrow> string option \<Rightarrow>
     router_registry \<Rightarrow> u64 \<Rightarrow> address set \<Rightarrow> raw_pool list \<Rightarrow> (filter_error + raw_pool list) run" where
  "filter_pools_full env fe fr ask client serve chain reg token_limit blacklisted pools =
    (let pools = blacklist_stage blacklisted pools;
         pools = gecko_stage (env_hex_decode env) client serve chain token_limit pools;
         slot_map = construct_slot_map env ask (fr_finished fr) pools
     in if registry_is_empty reg then Some (Inl No_Routers_Configured)
        else
          let required = {p \<in> rp_protocol ` set pools. protocol_router_key p \<noteq> None};
              configured = {p \<in> required. rr_map reg p \<noteq> None}
          in if required \<noteq> {} \<and> configured = {} then Some (Inl (No_Router_Matches required))
             else map_option Inr (filter_pools_by_swap env fe fr slot_map reg pools))"

section \<open>Finding the slot\<close>

lemma probe_ids: "distinct (0 # map fst slot_probes)"
proof -
  have ids: "0 # map fst slot_probes = map of_nat [0..<49]"
    by (simp add: slot_probes_def upt_rec)
  have "inj_on (of_nat :: nat \<Rightarrow> u64) {0..<49}"
  proof (rule inj_on_inverseI [where g = unat])
    fix x :: nat
    assume "x \<in> {0..<49}"
    then have "x < 2 ^ LENGTH(64)" by simp
    then show "unat (of_nat x :: u64) = x" by (rule unat_of_nat_small)
  qed
  then show ?thesis
    unfolding ids by (simp add: distinct_map del: upt_rec_numeral)
qed

abbreviation put_answer :: "u64 option \<times> string option \<Rightarrow> (u64 \<rightharpoonup> string option) \<Rightarrow> u64 \<rightharpoonup> string option" where
  "put_answer \<equiv> \<lambda>(id, r) m. case id of Some i \<Rightarrow> m(i \<mapsto> r) | None \<Rightarrow> m"

lemma fold_put_answer:
  "(\<forall>r. fold put_answer results m i = Some r \<longrightarrow> (Some i, r) \<in> set results \<or> m i = Some r) \<and>
   ((\<exists>r. (Some i, r) \<in> set results) \<or> m i \<noteq> None \<longrightarrow> fold put_answer results m i \<noteq> None)"
proof (induction results arbitrary: m)
  case (Cons x xs)
  obtain id r where x: "x = (id, r)" by (cases x)
  define m' where "m' = put_answer x m"
  have "fold put_answer (x # xs) m = fold put_answer xs m'" by (simp add: m'_def)
  moreover have "m' i = (if id = Some i then Some r else m i)"
    by (cases id) (simp_all add: m'_def x)
  ultimately show ?case
    using Cons.IH [of m'] by (auto simp: x split: if_splits)
qed simp

lemma answers_by_id_in: "answers_by_id results i = Some r \<Longrightarrow> (Some i, r) \<in> set results"
  using fold_put_answer [of results Map.empty i] unfolding answers_by_id_def by auto

lemma answers_by_id_some: "(Some i, r) \<in> set results \<Longrightarrow> \<exists>r'. answers_by_id results i = Some r'"
  using fold_put_answer [of results Map.empty i] unfolding answers_by_id_def by auto

text \<open>
  What a node promises for a batch: an answer to every request under its id, and every answer with
  that id states the balance or the storage word asked for.
\<close>

definition true_answer ::
    "(address \<Rightarrow> address \<Rightarrow> u256) \<Rightarrow> (address \<Rightarrow> u256 \<Rightarrow> u256) \<Rightarrow> batch_call \<Rightarrow> u256" where
  "true_answer balance storage call =
    (case call of Balance_Of token holder \<Rightarrow> balance token holder | Storage_At token slot \<Rightarrow> storage token slot)"

definition truthful_endpoint ::
    "(string \<Rightarrow> u8 list option) \<Rightarrow> batch_endpoint \<Rightarrow> (address \<Rightarrow> address \<Rightarrow> u256) \<Rightarrow>
     (address \<Rightarrow> u256 \<Rightarrow> u256) \<Rightarrow> bool" where
  "truthful_endpoint hex_decode ask balance storage \<longleftrightarrow>
    (\<forall>batch. distinct (map fst batch) \<longrightarrow>
      (\<exists>results. ask batch = Some results \<and>
        (\<forall>(id, call) \<in> set batch. (\<exists>r. (Some id, r) \<in> set results) \<and>
          (\<forall>r. (Some id, r) \<in> set results \<longrightarrow> answer_u256 hex_decode r = true_answer balance storage call))))"

lemma truthful_answer:
  assumes "truthful_endpoint hex_decode ask balance storage" "distinct (map fst batch)"
  obtains results where "ask batch = Some results"
    and "\<And>id call. (id, call) \<in> set batch \<Longrightarrow>
           \<exists>r. answers_by_id results id = Some r \<and> answer_u256 hex_decode r = true_answer balance storage call"
proof -
  obtain results where ask: "ask batch = Some results"
    and all: "\<And>id call. (id, call) \<in> set batch \<Longrightarrow> (\<exists>r. (Some id, r) \<in> set results) \<and>
          (\<forall>r. (Some id, r) \<in> set results \<longrightarrow> answer_u256 hex_decode r = true_answer balance storage call)"
    using assms unfolding truthful_endpoint_def by (auto split: prod.splits)
  show ?thesis
  proof (rule that [OF ask])
    fix id call
    assume "(id, call) \<in> set batch"
    then show "\<exists>r. answers_by_id results id = Some r \<and> answer_u256 hex_decode r = true_answer balance storage call"
      using all answers_by_id_some answers_by_id_in by meson
  qed
qed

lemma find_cong_set: "(\<And>x. x \<in> set xs \<Longrightarrow> P x = Q x) \<Longrightarrow> find P xs = find Q xs"
  by (induction xs) auto

lemma construct_slot_map_fold:
  "fold (\<lambda>token m. case holders token of
          None \<Rightarrow> m
        | Some holder \<Rightarrow> (case f token holder of None \<Rightarrow> m | Some slot \<Rightarrow> m(token \<mapsto> slot))) ts m t =
   (case (if t \<in> set ts then Option.bind (holders t) (f t) else None) of Some s \<Rightarrow> Some s | None \<Rightarrow> m t)"
  by (induction ts arbitrary: m) (auto split: option.splits)

text \<open>The slot map is the search of each token at its first pool, whatever order the searches end in.\<close>

lemma construct_slot_map_at:
  assumes "\<And>ts. set (finished ts) = ts"
  shows "construct_slot_map env ask finished pools t =
    Option.bind (token_holders pools t) (find_balance_slot env ask t)"
  unfolding construct_slot_map_def Let_def construct_slot_map_fold
  using assms by (auto simp: Option.bind_eq_Some_conv split: option.splits)

section \<open>Router output\<close>

definition abi_amounts :: "u256 list \<Rightarrow> u8 list" where
  "abi_amounts xs = be_bytes 32 (0x20 :: u256) @ be_bytes 32 (of_nat (length xs) :: u256) @
     concat (map (be_bytes 32) xs)"

lemma length_concat_words: "length (concat (map (be_bytes 32) (xs :: u256 list))) = 32 * length xs"
  by (induction xs) simp_all

lemma decode_abi_amounts:
  assumes "returns_amounts variant" "xs \<noteq> []" "length xs < 2 ^ 58"
  shows "decode_swap_output (abi_amounts xs) variant = Some (last xs)"
proof -
  let ?n = "of_nat (length xs) :: u256"
  obtain ys y where xs: "xs = ys @ [y]" using assms(2) by (cases xs rule: rev_cases) auto
  have un: "unat ?n = length xs"
    using assms(3) by (intro unat_of_nat_small) simp
  have w: "slice (abi_amounts xs) 32 64 = Some (be_bytes 32 ?n)"
    unfolding abi_amounts_def by (rule slice_mid) simp_all
  have n: "to_u64 ?n = Some (of_nat (length xs))"
  proof -
    have "(ucast ?n :: u64) = of_nat (unat ?n)" by (simp only: of_nat_unat)
    moreover have "length xs < 2 ^ 64" using assms(3) by simp
    ultimately show ?thesis by (simp only: to_u64_def un if_True)
  qed
  have u64n: "unat (of_nat (length xs) :: u64) = length xs"
    using assms(3) by (intro unat_of_nat_small) simp
  have "unat (of_nat (length xs) * 32 :: u64) = length xs * 32"
    using assms(3) u64n by (subst unat_mult_exact) simp_all
  then have stop: "unat (64 + of_nat (length xs) * 32 :: u64) = 64 + length xs * 32"
    using assms(3) by (subst unat_add_exact) simp_all
  then have start: "unat (64 + of_nat (length xs) * 32 - 32 :: u64) = 32 + length xs * 32"
    by (subst unat_sub_exact) (simp_all add: word_le_nat_alt)
  have len: "length (abi_amounts xs) = 64 + 32 * length xs"
    by (simp add: abi_amounts_def length_concat_words)
  have "slice ((be_bytes 32 (0x20 :: u256) @ be_bytes 32 ?n @ concat (map (be_bytes 32) ys)) @ be_bytes 32 y @ [])
      (64 + of_nat (length xs) * 32 - 32) (64 + of_nat (length xs) * 32) = Some (be_bytes 32 y)"
    by (rule slice_mid; simp only: start stop) (simp_all add: xs length_concat_words)
  then have last_: "slice (abi_amounts xs) (64 + of_nat (length xs) * 32 - 32) (64 + of_nat (length xs) * 32) =
      Some (be_bytes 32 y)"
    by (simp add: abi_amounts_def xs)
  have n0: "of_nat (length xs) \<noteq> (0 :: u64)"
    using u64n assms(2) by (metis length_0_conv unat_0)
  have "0 < length xs" using assms(2) by simp
  then show ?thesis
    using assms(1) w n n0 last_ stop len
    by (simp add: decode_swap_output_def from_be_bytes_be_bytes Let_def xs)
qed

text \<open>
  The end of the data is a multiple of 32 modulo \<open>2 ^ 64\<close>: either it wraps to 0, or 32 can be taken off.
\<close>

lemma unat_stop: "unat (64 + (n::u64) * 32) = 32 * ((2 + unat n) mod 2 ^ 59)"
proof -
  have "unat (64 + n * 32) = (64 + unat n * 32) mod 2 ^ 64"
    by (simp add: unat_word_ariths mod_simps)
  also have "\<dots> = (32 * (2 + unat n)) mod (32 * 2 ^ 59)" by (simp add: algebra_simps)
  finally show ?thesis by (simp only: mult_mod_right)
qed

lemma add_two_mod:
  assumes "2 < (k::nat)"
  shows "(2 + m) mod k = 0 \<longleftrightarrow> m mod k = k - 2"
proof -
  define r where "r = m mod k"
  have r: "r < k" "(2 + m) mod k = (2 + r) mod k" using assms by (simp_all add: r_def mod_simps)
  consider "r = k - 1" | "r = k - 2" | "r < k - 2" using r(1) by linarith
  then show ?thesis
  proof cases
    case 1
    then have "(2 + r) mod k = 1" using assms by (simp add: mod_if le_mod_geq)
    then show ?thesis using 1 r assms by (simp add: r_def)
  next
    case 2
    then have "2 + r = k" using assms by simp
    then have "(2 + m) mod k = 0" using r(2) by simp
    then show ?thesis using 2 by (simp add: r_def)
  next
    case 3
    then show ?thesis using r by (simp add: r_def)
  qed
qed

lemma slice_last_word:
  assumes "unat (64 + (n::u64) * 32) \<le> length data"
  shows "slice data (64 + n * 32 - 32) (64 + n * 32) = None \<longleftrightarrow> 64 + n * 32 = 0"
proof (cases "64 + n * 32 = 0")
  case True
  then show ?thesis unfolding True by (simp add: slice_def)
next
  case False
  then have "0 < unat (64 + n * 32)" by (rule word_pos_unat)
  then have "32 \<le> unat (64 + n * 32)" unfolding unat_stop by (cases "(2 + unat n) mod 2 ^ 59") auto
  then have "32 \<le> 64 + n * 32" by (simp add: word_le_nat_alt)
  then have "64 + n * 32 - 32 \<le> 64 + n * 32" by (rule word_sub_le)
  then show ?thesis using False assms by (simp only: slice_def) simp
qed

lemma decode_swap_output_None_iff:
  "decode_swap_output data variant = None \<longleftrightarrow>
     returns_amounts variant \<and> 96 \<le> length data \<and>
     (let n = from_be_bytes (take 32 (drop 32 data)) :: u256
      in 2 ^ 64 \<le> unat n \<or> unat n mod 2 ^ 59 = 2 ^ 59 - 2)"
proof (cases "returns_amounts variant \<and> 96 \<le> length data")
  case True
  let ?n = "from_be_bytes (take 32 (drop 32 data)) :: u256"
  let ?stop = "64 + (ucast ?n :: u64) * 32"
  have head: "slice data 32 64 = Some (take 32 (drop 32 data))"
    using True by (simp add: slice_def)
  show ?thesis
  proof (cases "unat ?n < 2 ^ 64")
    case small: True
    then have un: "unat (ucast ?n :: u64) = unat ?n"
      by (simp add: unsigned_ucast_eq take_bit_nat_eq_self)
    have wrap: "?stop = 0 \<longleftrightarrow> unat ?n mod 2 ^ 59 = 2 ^ 59 - 2"
      using add_two_mod [of "2 ^ 59" "unat ?n"] unfolding word_zero_iff_unat unat_stop un by simp
    have "decode_swap_output data variant = None \<longleftrightarrow>
        \<not> (ucast ?n = (0 :: u64) \<or> length data < unat ?stop) \<and> slice data (?stop - 32) ?stop = None"
      using True small head
      by (simp add: decode_swap_output_def to_u64_def Let_def Option.bind_eq_None_conv)
    also have "\<dots> \<longleftrightarrow> ?stop = 0"
      using slice_last_word [of "ucast ?n" data]
      by (cases "?stop = 0"; cases "unat ?stop \<le> length data") auto
    finally show ?thesis using True small wrap by (simp add: Let_def)
  next
    case False
    then show ?thesis
      using True head by (simp add: decode_swap_output_def to_u64_def Let_def)
  qed
qed (auto simp: decode_swap_output_def slice_def)

section \<open>The test of one pool\<close>

text \<open>What a passed test says: an amount of the list went there and back with at least 95%.\<close>

definition round_trip_seen ::
    "chain_env \<Rightarrow> filter_evm \<Rightarrow> raw_pool \<Rightarrow> address \<Rightarrow> router_variant \<Rightarrow> u256 \<Rightarrow> u256 \<Rightarrow> u256 \<Rightarrow> bool" where
  "round_trip_seen env fe pool router variant s0 s1 amount \<longleftrightarrow>
    (\<exists>db out_ab db1 amt_b out_ba db2 amt_a.
       evm_call_commit fe (inject_balances env pool s0 s1 db) FILTER_ACCOUNT router
         (build_swap_calldata fe pool variant FILTER_ACCOUNT amount True) 0 = (Some out_ab, db1) \<and>
       decode_swap_output out_ab variant = Some amt_b \<and> amt_b \<noteq> 0 \<and>
       evm_call_commit fe db1 FILTER_ACCOUNT router
         (build_swap_calldata fe pool variant FILTER_ACCOUNT amt_b False) 0 = (Some out_ba, db2) \<and>
       decode_swap_output out_ba variant = Some amt_a \<and> unat amount * 95 div 100 \<le> unat amt_a)"

lemma try_amounts_ok:
  "try_amounts env fe pool router variant s0 s1 amounts e db = Some (Inr u, db') \<Longrightarrow>
   \<forall>a \<in> set amounts. unat a * 95 < 2 ^ 256 \<Longrightarrow>
   \<exists>a \<in> set amounts. round_trip_seen env fe pool router variant s0 s1 a"
proof (induction env fe pool router variant s0 s1 amounts e db rule: try_amounts.induct)
  case (2 env fe pool router variant s0 s1 amount amounts e db)
  let ?db = "inject_balances env pool s0 s1 db"
  have lower: "unat (saturating_mul amount 95 div 100) = unat amount * 95 div 100"
    using 2(4) by (simp add: unat_div_distrib unat_saturating_mul)
  obtain r1 db1 where c1: "evm_call_commit fe ?db FILTER_ACCOUNT router
      (build_swap_calldata fe pool variant FILTER_ACCOUNT amount True) 0 = (r1, db1)" by force
  show ?case
  proof (cases r1)
    case None
    then show ?thesis using 2 c1 by (auto simp: Let_def)
  next
    case (Some out_ab)
    then obtain amt_b where b: "decode_swap_output out_ab variant = Some amt_b"
      using 2(3) c1 by (auto simp: Let_def split: bind_splits)
    show ?thesis
    proof (cases "amt_b = 0")
      case True
      then show ?thesis using 2 c1 Some b by (auto simp: Let_def)
    next
      case False
      obtain r2 db2 where c2: "evm_call_commit fe db1 FILTER_ACCOUNT router
          (build_swap_calldata fe pool variant FILTER_ACCOUNT amt_b False) 0 = (r2, db2)" by force
      obtain out_ba amt_a where "r2 = Some out_ba" "decode_swap_output out_ba variant = Some amt_a"
        "saturating_mul amount 95 div 100 \<le> amt_a"
        using 2(3) c1 Some b False c2 by (auto simp: Let_def split: option.splits bind_splits if_splits)
      then have "round_trip_seen env fe pool router variant s0 s1 amount"
        unfolding round_trip_seen_def using c1 Some b False c2 lower
        by (auto simp: word_le_nat_alt intro!: exI)
      then show ?thesis by simp
    qed
  qed
qed simp

lemma test_amounts_small: "\<forall>a \<in> set TEST_AMOUNTS. unat a * 95 < 2 ^ 256"
  by (simp add: TEST_AMOUNTS_def)

lemma test_pool_untestable:
  assumes "\<not> is_testable slot_map p \<or> protocol_router_key (rp_protocol p) = None \<or>
      protocol_to_router (rp_protocol p) (rp_tick_spacing p) reg = None"
    and "test_pool_filter_reason env fe slot_map reg p db = Some (r, db')"
  shows "passes r"
  using assms
  by (auto simp: test_pool_filter_reason_def is_testable_def passes_def UNTESTABLE_REASONS_def
      split: option.splits prod.splits if_splits)

section \<open>All pools\<close>

definition tested :: "chain_env \<Rightarrow> filter_evm \<Rightarrow> slot_map \<Rightarrow> router_registry \<Rightarrow> raw_pool \<Rightarrow> string + unit \<Rightarrow> bool" where
  "tested env fe slot_map reg p r \<longleftrightarrow> (\<exists>db db'. test_pool_filter_reason env fe slot_map reg p db = Some (r, db'))"

lemma test_pools_results:
  "test_pools env fe slot_map reg pools db = Some rs \<Longrightarrow>
   map fst rs = pools \<and> (\<forall>(p, r) \<in> set rs. tested env fe slot_map reg p r)"
  by (induction env fe slot_map reg pools db arbitrary: rs rule: test_pools.induct)
     (fastforce simp: tested_def split: bind_splits)+

lemma workers_results:
  assumes "those (map (\<lambda>run. test_pools env fe slot_map reg run db) runs) = Some rss"
  shows "map fst (concat rss) = concat runs" "\<forall>(p, r) \<in> set (concat rss). tested env fe slot_map reg p r"
proof -
  have all: "list_all2 (\<lambda>run rs. test_pools env fe slot_map reg run db = Some rs) runs rss"
    using assms by (auto simp: those_eq_Some_iff list_all2_conv_all_nth list_eq_iff_nth_eq)
  then show "map fst (concat rss) = concat runs"
    by (induction rule: list_all2_induct) (auto dest: test_pools_results)
  from all show "\<forall>(p, r) \<in> set (concat rss). tested env fe slot_map reg p r"
    by (induction rule: list_all2_induct) (auto dest!: test_pools_results)
qed

lemma mset_filter_fst: "mset (map fst (filter P rs)) \<subseteq># mset (map fst rs)"
  by (induction rs) (auto intro: subset_mset.order_trans)

text \<open>The worker split loses and reorders nothing, as \<open>par_iter\<close> promises.\<close>

definition workers_ok :: "filter_run \<Rightarrow> bool" where
  "workers_ok fr \<longleftrightarrow> (\<forall>ps. concat (fr_workers fr ps) = ps)"

lemma filter_pools_by_swap_spec:
  assumes "filter_pools_by_swap env fe fr slot_map reg pools = Some out" "workers_ok fr"
  shows "mset out \<subseteq># mset pools"
    and "p \<in> set out \<Longrightarrow> \<not> is_testable slot_map p \<or> (\<exists>r. tested env fe slot_map reg p r \<and> passes r)"
    and "p \<in> set pools \<Longrightarrow> p \<notin> set out \<Longrightarrow>
      is_testable slot_map p \<and> (\<exists>r. tested env fe slot_map reg p r \<and> \<not> passes r)"
proof -
  let ?yes = "filter (is_testable slot_map) pools" and ?no = "filter (\<lambda>p. \<not> is_testable slot_map p) pools"
  obtain db rss where rss: "those (map (\<lambda>run. test_pools env fe slot_map reg run db) (fr_workers fr ?yes)) = Some rss"
    and out: "out = map fst (filter (\<lambda>(p, r). passes r) (concat rss)) @ ?no"
    using assms(1) by (auto simp: filter_pools_by_swap_def Let_def split: bind_splits)
  have fsts: "map fst (concat rss) = ?yes"
    using workers_results(1) [OF rss] assms(2) by (simp add: workers_ok_def)
  note seen = workers_results(2) [OF rss]
  have "mset (map fst (filter (\<lambda>(p, r). passes r) (concat rss))) \<subseteq># mset ?yes"
    using mset_filter_fst [of "\<lambda>(p, r). passes r" "concat rss"] by (simp only: fsts)
  then have "mset out \<subseteq># mset ?yes + mset ?no"
    by (simp only: out mset_append subset_mset.add_right_mono)
  also have "\<dots> = mset pools"
    by (simp only: mset_filter multiset_partition [symmetric])
  finally show "mset out \<subseteq># mset pools" .
  show "p \<in> set out \<Longrightarrow> \<not> is_testable slot_map p \<or> (\<exists>r. tested env fe slot_map reg p r \<and> passes r)"
    using seen by (fastforce simp: out)
  assume p: "p \<in> set pools" "p \<notin> set out"
  then have t: "is_testable slot_map p" by (auto simp: out)
  then have "p \<in> set (map fst (concat rss))" using p(1) by (simp only: fsts) simp
  then obtain r where r: "(p, r) \<in> set (concat rss)" by force
  moreover have "\<not> passes r"
    using r p(2) unfolding out by (force simp: image_iff)
  ultimately show "is_testable slot_map p \<and> (\<exists>r. tested env fe slot_map reg p r \<and> \<not> passes r)"
    using seen t by blast
qed

section \<open>The full filter\<close>

definition gecko_tokens ::
    "(string \<Rightarrow> u8 list option) \<Rightarrow> string + unit \<Rightarrow> gecko_service \<Rightarrow> string option \<Rightarrow> u64 \<Rightarrow> address set" where
  "gecko_tokens hex_decode client serve chain token_limit =
    (case fetch_top_tokens client serve (case chain of Some c \<Rightarrow> c | None \<Rightarrow> ''base'') token_limit of
       Inl _ \<Rightarrow> {} | Inr tokens \<Rightarrow> gecko_to_address_set hex_decode tokens)"

lemma in_stages:
  "p \<in> set (gecko_stage hex_decode client serve chain token_limit (blacklist_stage B pools)) \<longleftrightarrow>
     p \<in> set pools \<and> rp_token0 p \<notin> B \<and> rp_token1 p \<notin> B \<and>
     (token_limit \<noteq> 0 \<and> gecko_tokens hex_decode client serve chain token_limit \<noteq> {} \<longrightarrow>
        {rp_token0 p, rp_token1 p} \<subseteq> gecko_tokens hex_decode client serve chain token_limit)"
proof -
  have "blacklist_stage B pools = filter (\<lambda>p. rp_token0 p \<notin> B \<and> rp_token1 p \<notin> B) pools"
    by (simp add: blacklist_stage_def)
  then show ?thesis
    by (cases "fetch_top_tokens client serve (case chain of Some c \<Rightarrow> c | None \<Rightarrow> ''base'') token_limit")
       (auto simp: gecko_stage_def gecko_tokens_def Let_def word_neq_0_conv)
qed

lemma mset_blacklist_stage: "mset (blacklist_stage B pools) \<subseteq># mset pools"
  by (simp add: blacklist_stage_def multiset_filter_subset)

lemma mset_gecko_stage: "mset (gecko_stage hex_decode client serve chain token_limit pools) \<subseteq># mset pools"
  by (simp add: gecko_stage_def Let_def multiset_filter_subset split: sum.split)

lemmas mset_stages = subset_mset.order_trans [OF mset_gecko_stage mset_blacklist_stage]

section \<open>Routers and their configuration\<close>

text \<open>
  A table with both \<open>aerodrome\<close> and \<open>solidly\<close> entries: the mode is always Solidly, the router is that of the
  entry walked last. Walked in the other order, or when the \<open>solidly\<close> address does not parse, the
  Aerodrome router is called with Solidly routes.
\<close>

lemma solidly_and_aerodrome_clash:
  assumes "parse a_text = Some a"
  shows "build_router_registry parse [(''solidly'', s_text), (''aerodrome'', a_text)] =
      \<lparr> rr_map = [Aerodrome \<mapsto> a], rr_solidly_mode = True \<rparr>"
    and "parse s_text = Some s \<Longrightarrow>
      build_router_registry parse [(''aerodrome'', a_text), (''solidly'', s_text)] =
      \<lparr> rr_map = [Aerodrome \<mapsto> s], rr_solidly_mode = True \<rparr>"
proof -
  have k: "map lower_char ''solidly'' = ''solidly''" "map lower_char ''aerodrome'' = ''aerodrome''"
    by code_simp+
  show "build_router_registry parse [(''solidly'', s_text), (''aerodrome'', a_text)] =
      \<lparr> rr_map = [Aerodrome \<mapsto> a], rr_solidly_mode = True \<rparr>"
    unfolding build_router_registry_def fold_simps comp_apply register_router_def fst_conv snd_conv k
    using assms by (simp add: router_protocol_of_key_def Let_def split: option.split)
  show "parse s_text = Some s \<Longrightarrow>
      build_router_registry parse [(''aerodrome'', a_text), (''solidly'', s_text)] =
      \<lparr> rr_map = [Aerodrome \<mapsto> s], rr_solidly_mode = True \<rparr>"
    unfolding build_router_registry_def fold_simps comp_apply register_router_def fst_conv snd_conv k
    using assms by (simp add: router_protocol_of_key_def Let_def)
qed

lemma router_variant_key: "router_variant_of m ts p = None \<longleftrightarrow> protocol_router_key p = None"
  by (cases p) simp_all

section \<open>Properties\<close>

text \<open>
  C37. The slot search against a node that answers truthfully: it finds nothing for a holder without
  balance, and otherwise exactly the first of the 48 candidates (index by index, Solidity before Vyper)
  whose storage word is the balance; the JSON ids never mix two candidates up.
\<close>

theorem balance_slot_exact:
  assumes "truthful_endpoint (env_hex_decode env) ask balance storage"
  shows "find_balance_slot env ask token holder =
    (if balance token holder = 0 then None
     else map_option snd
            (find (\<lambda>(id, slot_idx, layout).
                     storage token (compute_slot (env_keccak env) holder slot_idx layout) = balance token holder)
              slot_probes))"
proof -
  let ?batch = "slot_batch (env_keccak env) token holder"
  have "map fst ?batch = 0 # map fst slot_probes"
    by (simp add: slot_batch_def comp_def case_prod_unfold)
  then have "distinct (map fst ?batch)" using probe_ids by simp
  then obtain results where ask: "ask ?batch = Some results"
    and true: "\<And>id call. (id, call) \<in> set ?batch \<Longrightarrow> \<exists>r. answers_by_id results id = Some r \<and>
      answer_u256 (env_hex_decode env) r = true_answer balance storage call"
    using truthful_answer [OF assms] by blast
  obtain r0 where r0: "answers_by_id results 0 = Some r0"
    "answer_u256 (env_hex_decode env) r0 = balance token holder"
    using true [of 0 "Balance_Of token holder"] by (auto simp: slot_batch_def true_answer_def)
  have probe: "(case answers_by_id results id of
        Some r \<Rightarrow> answer_u256 (env_hex_decode env) r = balance token holder | None \<Rightarrow> False) \<longleftrightarrow>
      storage token (compute_slot (env_keccak env) holder i l) = balance token holder"
    if "(id, i, l) \<in> set slot_probes" for id i l
    using true [of id "Storage_At token (compute_slot (env_keccak env) holder i l)"] that
    by (force simp: slot_batch_def true_answer_def)
  have "find (\<lambda>(id, _). case answers_by_id results id of
          Some r \<Rightarrow> answer_u256 (env_hex_decode env) r = balance token holder | None \<Rightarrow> False) slot_probes =
        find (\<lambda>(id, slot_idx, layout).
          storage token (compute_slot (env_keccak env) holder slot_idx layout) = balance token holder) slot_probes"
    by (rule find_cong_set) (use probe in auto)
  then show ?thesis
    unfolding find_balance_slot_def Let_def ask option.case r0 by simp
qed

text \<open>
  The router output decoder reads the last amount of an ABI-encoded list, and panics exactly on
  a list of at least 96 bytes whose length word has more than 64 bits or makes the end of the list
  wrap to 0.
\<close>

lemma swap_output_decoded:
  "(returns_amounts variant \<longrightarrow> xs \<noteq> [] \<longrightarrow> length xs < 2 ^ 58 \<longrightarrow>
      decode_swap_output (abi_amounts xs) variant = Some (last xs)) \<and>
   (decode_swap_output data variant = None \<longleftrightarrow>
      returns_amounts variant \<and> 96 \<le> length data \<and>
      (let n = from_be_bytes (take 32 (drop 32 data)) :: u256
       in 2 ^ 64 \<le> unat n \<or> unat n mod 2 ^ 59 = 2 ^ 59 - 2))"
  using decode_abi_amounts [of variant xs] decode_swap_output_None_iff [of data variant] by blast

text \<open>
  A pool whose protocol needs a router passes the test only if one of the four amounts was swapped
  to the other token and back through its configured router in two successful calls, and came back
  with at least 95%.
\<close>

lemma swap_test_sound:
  assumes "test_pool_filter_reason env fe slot_map reg pool db = Some (Inr u, db')"
    and "protocol_router_key (rp_protocol pool) \<noteq> None"
  shows "\<exists>i0 l0 i1 l1 router variant. slot_map (rp_token0 pool) = Some (i0, l0) \<and>
    slot_map (rp_token1 pool) = Some (i1, l1) \<and>
    protocol_to_router (rp_protocol pool) (rp_tick_spacing pool) reg = Some (router, variant) \<and>
    (\<exists>amount \<in> set TEST_AMOUNTS. round_trip_seen env fe pool router variant
       (compute_slot (env_keccak env) FILTER_ACCOUNT i0 l0) (compute_slot (env_keccak env) FILTER_ACCOUNT i1 l1) amount)"
proof -
  obtain i0 l0 i1 l1 where s: "slot_map (rp_token0 pool) = Some (i0, l0)" "slot_map (rp_token1 pool) = Some (i1, l1)"
    using assms by (auto simp: test_pool_filter_reason_def split: option.splits)
  obtain router variant where r: "protocol_to_router (rp_protocol pool) (rp_tick_spacing pool) reg = Some (router, variant)"
    using assms s by (auto simp: test_pool_filter_reason_def split: option.splits)
  obtain e db0 where "try_amounts env fe pool router variant (compute_slot (env_keccak env) FILTER_ACCOUNT i0 l0)
      (compute_slot (env_keccak env) FILTER_ACCOUNT i1 l1) TEST_AMOUNTS e db0 = Some (Inr u, db')"
    using assms s r by (auto simp: test_pool_filter_reason_def Let_def split: prod.splits if_splits)
  from try_amounts_ok [OF this test_amounts_small] s r show ?thesis by blast
qed


text \<open>A node whose every answer is 42: the first candidate is taken.\<close>

definition sample_hex :: "string \<Rightarrow> u8 list option" where
  "sample_hex s = (if s = pad64 ''2a'' then Some (be_bytes 32 (42 :: u256)) else None)"

definition sample_ask :: batch_endpoint where
  "sample_ask batch = Some (map (\<lambda>(id, call). (Some id, Some ''2a'')) batch)"

theorem balance_slot_exact_witness:
  "find_balance_slot (silent_env\<lparr>env_hex_decode := sample_hex\<rparr>) sample_ask 7 8 = Some (0, Solidity)"
proof -
  have "answer_u256 sample_hex (Some ''2a'') = 42"
    by (simp add: answer_u256_def sample_hex_def from_be_bytes_be_bytes)
  then have "truthful_endpoint sample_hex sample_ask (\<lambda>_ _. 42) (\<lambda>_ _. 42)"
    by (force simp: truthful_endpoint_def sample_ask_def true_answer_def split: batch_call.split)
  then have "truthful_endpoint (env_hex_decode (silent_env\<lparr>env_hex_decode := sample_hex\<rparr>)) sample_ask
      (\<lambda>_ _. 42) (\<lambda>_ _. 42)" by simp
  from balance_slot_exact [OF this, of 7 8] show ?thesis
    by (simp add: slot_probes_def upt_rec)
qed

text \<open>An EVM in which every call succeeds and returns one amount.\<close>

definition sample_evm :: filter_evm where
  "sample_evm = \<lparr> fe_transact = (\<lambda>db _ _ _ _ _. (Exec_Success (abi_amounts [2000000000000000]), db)),
     fe_encode_swap = (\<lambda>_. []), fe_encode_approve = (\<lambda>_ _. []) \<rparr>"

definition sample_pool :: "address \<Rightarrow> address \<Rightarrow> pool_protocol \<Rightarrow> raw_pool" where
  "sample_pool a t p = \<lparr> rp_address = a, rp_token0 = 1, rp_token1 = t, rp_decimals0 = 18, rp_decimals1 = 18,
     rp_fee = 30, rp_tick_spacing = 0, rp_protocol = p \<rparr>"

lemma sample_call: "evm_call_commit sample_evm db a b c v = (Some (abi_amounts [2000000000000000]), db)"
  by (simp add: evm_call_commit_def sample_evm_def)

definition sample_run :: filter_run where
  "sample_run = \<lparr> fr_order = (\<lambda>_. []), fr_finished = (\<lambda>_. []), fr_arrive_codes = id, fr_arrive_tokens = id,
     fr_arrive_v3 = id, fr_arrive_reserves = id, fr_workers = (\<lambda>ps. [ps]) \<rparr>"


end
