(* ===== verification/Startup.thy ===== *)
theory Startup
  imports Ignition PathBuilder SwapFilter
begin

text \<open>
  \<open>src/main.rs\<close>: what happens between the configuration and the running pipeline. Environment variables,
  files, the address parser and printer, the node, REVM, the token list service and the gas price are
  parameters; directories, log lines and the flash-loan fee file, which nothing reads back, are left out.
  \<open>su_gas_price\<close> is \<open>None\<close> when the URL of the node does not parse, which is an \<open>expect\<close>.
  \<open>startup\<close> is \<open>None\<close> for a panic, \<open>Inl\<close> for an error that ends \<open>main\<close>, and otherwise what
  \<open>start_pipeline\<close> and the block stream are given.
\<close>

section \<open>The flash-loan provider\<close>

definition canonical_provider_name :: "string \<Rightarrow> string" where
  "canonical_provider_name name =
    (let n = map lower_char (trim name)
     in if n = ''aave'' \<or> n = ''aavev3'' then ''AaveV3''
        else if n = ''uniswap'' \<or> n = ''uniswapv3'' \<or> n = ''univ3'' then ''UniswapV3''
        else if n = ''pancake'' \<or> n = ''pancakeswap'' \<or> n = ''pancakeswapv3'' \<or> n = ''pcsv3'' then ''PancakeSwapV3''
        else n)"

text \<open>\<open>min_by_key\<close> on the fees: the first of the least.\<close>

fun first_min :: "(string \<times> u64) list \<Rightarrow> (string \<times> u64) option" where
  "first_min [] = None"
| "first_min (x # xs) = Some (fold (\<lambda>y best. if snd y < snd best then y else best) xs x)"

definition resolve_flashloan_provider ::
    "string list \<Rightarrow> (string \<rightharpoonup> u64) \<Rightarrow> string \<Rightarrow> bool \<Rightarrow> (string \<times> u64) option" where
  "resolve_flashloan_provider selected_providers fees default_provider dynamic =
    (let candidates = List.map_filter (\<lambda>p. map_option (Pair p) (fees p))
                        (map canonical_provider_name selected_providers);
         fallback = canonical_provider_name default_provider
     in do {
       candidates \<leftarrow> (if candidates = [] then map_option (\<lambda>fee. [(fallback, fee)]) (fees fallback)
                      else Some candidates);
       if dynamic then first_min candidates
       else Some (case fees fallback of Some fee \<Rightarrow> (fallback, fee) | None \<Rightarrow> hd candidates)
     })"

definition provider_fees :: "execution_config \<Rightarrow> (string \<rightharpoonup> u64)" where
  "provider_fees ex =
    [''AaveV3'' \<mapsto> ex_flash_loan_fee_aave_bps ex, ''UniswapV3'' \<mapsto> ex_flash_loan_fee_uniswap_v3_bps ex,
     ''PancakeSwapV3'' \<mapsto> ex_flash_loan_fee_pancakeswap_v3_bps ex]"

definition select_flashloan :: "execution_config \<Rightarrow> string \<times> u64" where
  "select_flashloan ex =
    (if ex_use_flashloan ex
     then (let selected = (if ex_flashloan_providers ex = [] then [ex_default_flashloan_provider ex]
                           else ex_flashloan_providers ex)
           in case resolve_flashloan_provider selected (provider_fees ex) (ex_default_flashloan_provider ex)
                     (ex_dynamic_flashloan_routing ex) of
                Some (provider, fee_bps) \<Rightarrow> (provider, fee_bps)
              | None \<Rightarrow> (''AaveV3'', ex_flash_loan_fee_aave_bps ex))
     else (''none'', 0))"

section \<open>The pipeline configuration\<close>

record startup_env =
  su_var :: "string \<Rightarrow> string option"
  su_parse_address :: "string \<Rightarrow> address option"
  su_show_address :: "address \<Rightarrow> string"
  su_read_file :: "string \<Rightarrow> string option"
  su_load_pools :: "string \<Rightarrow> raw_pool list option"
  su_chain :: chain_env
  su_evm :: filter_evm
  su_filter :: filter_run
  su_ask :: batch_endpoint
  su_client :: "string + unit"
  su_gecko :: gecko_service
  su_arrange :: "address \<Rightarrow> edge list \<Rightarrow> edge list"
  su_hasher :: "swap_step list \<Rightarrow> u64"
  su_gas_price :: "u128 option run"

definition env_flag :: "startup_env \<Rightarrow> string \<Rightarrow> bool" where
  "env_flag su name =
    (case su_var su name of Some v \<Rightarrow> v = ''1'' \<or> map lower_char v = ''true'' | None \<Rightarrow> False)"

definition native_token_of :: "startup_env \<Rightarrow> config \<Rightarrow> address" where
  "native_token_of su cfg =
    (case Option.bind (gc_token_address (cfg_gas cfg)) (su_parse_address su) of Some a \<Rightarrow> a | None \<Rightarrow> 0)"

definition price_pool_entry :: "startup_env \<Rightarrow> address \<Rightarrow> token_config \<Rightarrow> (address \<times> address) option" where
  "price_pool_entry su native t =
    do {
      token_addr \<leftarrow> su_parse_address su (tk_address t);
      if token_addr = native then None
      else do {
        pool \<leftarrow> tk_price_pool t;
        pool_addr \<leftarrow> su_parse_address su pool;
        Some (token_addr, pool_addr)
      }
    }"

definition token_price_pools_of :: "startup_env \<Rightarrow> config \<Rightarrow> address \<rightharpoonup> address" where
  "token_price_pools_of su cfg =
    fold (\<lambda>(t, p) m. m(t \<mapsto> p))
      (List.map_filter (price_pool_entry su (native_token_of su cfg)) (cfg_start_tokens cfg)) Map.empty"

definition sequencer_url_of :: "startup_env \<Rightarrow> config \<Rightarrow> string" where
  "sequencer_url_of su cfg =
    (case ex_private_rpc_url (cfg_execution cfg) of Some u \<Rightarrow> u | None \<Rightarrow>
    (case su_var su ''PRIVATE_RPC_URL'' of Some u \<Rightarrow> u | None \<Rightarrow>
    (case ch_sequencer_url (cfg_chain cfg) of Some u \<Rightarrow> u | None \<Rightarrow> ch_https_url (cfg_chain cfg))))"

definition cache_dir_of :: "config \<Rightarrow> string" where
  "cache_dir_of cfg =
    (case ch_cache_dir (cfg_chain cfg) of
       Some d \<Rightarrow> d
     | None \<Rightarrow>
         if ch_name (cfg_chain cfg) = ''base'' then ''cache/base''
         else if ch_name (cfg_chain cfg) = ''avax'' then ''cache/avax''
         else if ch_name (cfg_chain cfg) = ''sonic'' then ''cache/sonic''
         else ''cache/base'')"

definition toxic_cache_dir_of :: "config \<Rightarrow> string" where
  "toxic_cache_dir_of cfg =
    (if map lower_char (ch_name (cfg_chain cfg)) = ''bsc'' then ''cache/bsc'' else cache_dir_of cfg)"

definition pipeline_config_of :: "startup_env \<Rightarrow> config \<Rightarrow> pipeline_config" where
  "pipeline_config_of su cfg =
    (let ex = cfg_execution cfg;
         (provider, fee_bps) = select_flashloan ex
     in \<lparr> pc_rpc_url = ch_https_url (cfg_chain cfg), pc_ws_url = ch_wss_url (cfg_chain cfg),
          pc_sequencer_url = sequencer_url_of su cfg,
          pc_bot_address =
            (case Option.bind (su_var su ''BOT_ADDRESS'') (su_parse_address su) of Some a \<Rightarrow> a | None \<Rightarrow> 0),
          pc_signer_key = (case su_var su ''SIGNING_KEY'' of Some k \<Rightarrow> k | None \<Rightarrow> ''''),
          pc_chain_id = ch_chain_id (cfg_chain cfg),
          pc_channel_buffer = ex_channel_buffer ex, pc_broadcast_capacity = ex_broadcast_capacity ex,
          pc_dry_run = (case su_var su ''DRY_RUN'' of Some v \<Rightarrow> v = ''true'' \<or> v = ''1'' | None \<Rightarrow> True),
          pc_last_synced_block =
            (case Option.bind (su_var su ''CATCHUP_BLOCKS'') parse_unsigned of Some b \<Rightarrow> b | None \<Rightarrow> 0),
          pc_use_flashloan = ex_use_flashloan ex, pc_flash_loan_fee_bps = fee_bps,
          pc_flash_loan_provider = provider, pc_native_token = native_token_of su cfg,
          pc_token_price_pools = token_price_pools_of su cfg,
          pc_max_gas_limit = ex_max_gas_limit ex, pc_profit_share_bps = ex_profit_share_bps ex,
          pc_min_submit_profit_wei = ex_min_submit_profit_wei ex, pc_min_sim_profit_wei = ex_min_sim_profit_wei ex,
          pc_optimization_steps = ex_optimization_steps ex, pc_min_input_eth = ex_min_input_eth ex,
          pc_max_input_eth = ex_max_input_eth ex, pc_max_paths_per_block = ex_max_paths_per_block ex,
          pc_num_simulators = ex_num_simulators ex, pc_searcher_gas_estimate = ex_searcher_gas_estimate ex,
          pc_max_stale_blocks = ex_max_stale_blocks ex, pc_strike_threshold = ex_strike_threshold ex,
          pc_gas_params = cfg_gas_params cfg, pc_live_base_fee_wei = None,
          pc_opportunities_log = ''bot/'' @ map lower_char (ch_name (cfg_chain cfg)) @ ''/opportunities.log'',
          pc_enable_mempool = ex_enable_mempool ex,
          pc_revm_filter_routers = rf_routers (cfg_revm_filter cfg),
          pc_toxic_tokens_path = toxic_cache_dir_of cfg @ ''/.toxic-tokens.toml'' \<rparr>)"

section \<open>The cache of the pool filter\<close>

definition filter_cache_path :: "config \<Rightarrow> string" where
  "filter_cache_path cfg = cache_dir_of cfg @ ''/.swap-filter-safe-pools.txt''"

definition cached_addresses :: "(string \<Rightarrow> address option) \<Rightarrow> string \<Rightarrow> address set" where
  "cached_addresses parse contents =
    set (List.map_filter (\<lambda>l. parse (trim l))
      (filter (\<lambda>l. l \<noteq> [] \<and> hd l \<noteq> CHR ''#'') (split_lines contents)))"

definition load_filter_cache :: "(string \<Rightarrow> address option) \<Rightarrow> string option \<Rightarrow> address set option" where
  "load_filter_cache parse file =
    (case file of
       None \<Rightarrow> None
     | Some contents \<Rightarrow>
         (let addrs = cached_addresses parse contents in if addrs = {} then None else Some addrs))"

fun join_lines :: "string list \<Rightarrow> string" where
  "join_lines [] = []"
| "join_lines [l] = l"
| "join_lines (l # ls) = l @ CHR 0x0A # join_lines ls"

text \<open>The two comment lines, with the time and the UTF-8 bytes of a dash, and the addresses.\<close>

definition cache_content :: "(address \<Rightarrow> string) \<Rightarrow> string \<Rightarrow> raw_pool list \<Rightarrow> string" where
  "cache_content show_address now pools =
    ''# SwapFilter safe pools '' @ [CHR 0xE2, CHR 0x80, CHR 0x94] @ '' generated '' @ now @ [CHR 0x0A] @
    ''# '' @ show_nat (length pools) @ '' pools passed REVM roundtrip test'' @ [CHR 0x0A] @
    join_lines (map (\<lambda>p. show_address (rp_address p)) pools) @ [CHR 0x0A]"

section \<open>Pools and paths\<close>

definition blacklist_of :: "startup_env \<Rightarrow> config \<Rightarrow> address set" where
  "blacklist_of su cfg = set (List.map_filter (su_parse_address su) (ch_blacklisted_tokens (cfg_chain cfg)))"

definition gecko_limit :: "startup_env \<Rightarrow> u64" where
  "gecko_limit su =
    (case Option.bind (su_var su ''GECKO_TOP_TOKENS'') parse_unsigned of Some l \<Rightarrow> l | None \<Rightarrow> 200)"

text \<open>The pools that go on, and the pools saved to the cache when the full filter ran.\<close>

definition filter_startup_pools ::
    "startup_env \<Rightarrow> config \<Rightarrow> raw_pool list \<Rightarrow> (filter_error + raw_pool list \<times> raw_pool list option) run" where
  "filter_startup_pools su cfg raw_pools =
    (if raw_pools = [] \<or> env_flag su ''SKIP_POOL_FILTER'' then Some (Inr (raw_pools, None))
     else
       let cached_safe = (if env_flag su ''FORCE_REFILTER'' then None
                          else load_filter_cache (su_parse_address su) (su_read_file su (filter_cache_path cfg)))
       in case cached_safe of
            Some safe \<Rightarrow> Some (Inr (filter (\<lambda>p. rp_address p \<in> safe) raw_pools, None))
          | None \<Rightarrow>
              map_option (map_sum id (\<lambda>pools. (pools, Some pools)))
                (filter_pools_full (su_chain su) (su_evm su) (su_filter su) (su_ask su) (su_client su) (su_gecko su)
                   (su_var su ''BOT_CHAIN'') (build_router_registry (su_parse_address su) (rf_routers (cfg_revm_filter cfg)))
                   (if env_flag su ''ENABLE_GECKO_TERMINAL'' then gecko_limit su else 0)
                   (blacklist_of su cfg) raw_pools))"

definition start_tokens_of :: "startup_env \<Rightarrow> config \<Rightarrow> address list" where
  "start_tokens_of su cfg = List.map_filter (\<lambda>t. su_parse_address su (tk_address t)) (cfg_start_tokens cfg)"

definition gecko_path_filter :: "startup_env \<Rightarrow> config \<Rightarrow> raw_pool list \<Rightarrow> swap_path list \<Rightarrow> swap_path list" where
  "gecko_path_filter su cfg raw_pools paths =
    (if env_flag su ''SKIP_POOL_FILTER'' \<and> env_flag su ''ENABLE_GECKO_TERMINAL'' \<and> paths \<noteq> []
     then (let combined = add_safe_pools (rp_address ` set raw_pools) (combined_filter_new 500)
           in case fetch_top_tokens (su_client su) (su_gecko su) (ch_name (cfg_chain cfg)) (gecko_limit su) of
                Inl _ \<Rightarrow> paths
              | Inr tokens \<Rightarrow>
                  (let allowed = gecko_to_address_set (env_hex_decode (su_chain su)) tokens
                   in if allowed \<noteq> {} then filter_paths paths (set_allowed_tokens allowed combined) else paths))
     else paths)"

definition ws_urls_of :: "config \<Rightarrow> string list" where
  "ws_urls_of cfg = filter (\<lambda>u. u \<noteq> []) (ch_wss_url (cfg_chain cfg) # ch_wss_urls (cfg_chain cfg))"

record startup_result =
  sr_config :: pipeline_config
  sr_paths :: "swap_path list"
  sr_metas :: "pool_meta list"
  sr_pools :: "(address \<times> bool) list"
  sr_ws_urls :: "string list"
  sr_saved :: "raw_pool list option"

definition startup :: "startup_env \<Rightarrow> config \<Rightarrow> (filter_error + startup_result) run" where
  "startup su cfg =
    (let loaded = (case su_load_pools su (cache_dir_of cfg) of Some ps \<Rightarrow> ps | None \<Rightarrow> []);
         blacklisted = blacklist_of su cfg;
         raw_pools = blacklist_stage blacklisted loaded
     in do {
       filtered \<leftarrow> filter_startup_pools su cfg raw_pools;
       case filtered of Inl e \<Rightarrow> Some (Inl e) | Inr (raw_pools, saved) \<Rightarrow> do {
         let start_tokens = start_tokens_of su cfg;
         let paths = (if raw_pools = [] \<or> start_tokens = [] then []
                      else build_arb_paths (su_arrange su) (su_hasher su) raw_pools start_tokens
                             (ex_max_hops (cfg_execution cfg)) (ex_max_paths_per_token (cfg_execution cfg)));
         let paths = gecko_path_filter su cfg raw_pools paths;
         gas_price \<leftarrow> su_gas_price su;
         let live = map_option (\<lambda>price. ucast (min price (ucast (- 1 :: u64))) :: u64) gas_price;
         Some (Inr \<lparr> sr_config = (pipeline_config_of su cfg)\<lparr>pc_live_base_fee_wei := live\<rparr>, sr_paths = paths,
                      sr_metas = raw_to_pool_metas raw_pools, sr_pools = raw_to_pools_vec raw_pools,
                      sr_ws_urls = ws_urls_of cfg, sr_saved = saved \<rparr>)
       }
     })"

section \<open>The provider\<close>

lemma first_min_spec:
  "first_min xs = Some m \<Longrightarrow> m \<in> set xs \<and> (\<forall>x \<in> set xs. snd m \<le> snd x)"
proof -
  have "fold (\<lambda>y best. if snd y < snd best then y else best) ys b \<in> insert b (set ys) \<and>
      (\<forall>x \<in> insert b (set ys). snd (fold (\<lambda>y best. if snd y < snd best then y else best) ys b) \<le> snd x)"
    for ys and b :: "string \<times> u64"
  proof (induction ys arbitrary: b)
    case (Cons y ys)
    show ?case
      using Cons.IH [of "if snd y < snd b then y else b"] by (auto simp: not_less split: if_splits)
  qed simp
  then show "first_min xs = Some m \<Longrightarrow> m \<in> set xs \<and> (\<forall>x \<in> set xs. snd m \<le> snd x)"
    by (cases xs) auto
qed

text \<open>The configured providers with a known fee.\<close>

definition known_candidates :: "execution_config \<Rightarrow> (string \<times> u64) set" where
  "known_candidates ex =
    {(p, fee). p \<in> canonical_provider_name `
        set (if ex_flashloan_providers ex = [] then [ex_default_flashloan_provider ex] else ex_flashloan_providers ex) \<and>
      provider_fees ex p = Some fee}"

lemma map_filter_fees:
  "set (List.map_filter (\<lambda>p. map_option (Pair p) (fees p)) ps) = {(p, fee). p \<in> set ps \<and> fees p = Some fee}"
  by (induction ps) (auto simp: List.map_filter_simps split: option.splits)

lemma resolve_cases:
  assumes "resolve_flashloan_provider selected fees def dynamic = Some (p, fee)"
    and "C = {(p, fee). p \<in> canonical_provider_name ` set selected \<and> fees p = Some fee}"
  shows "fees p = Some fee"
    and "C \<noteq> {} \<Longrightarrow> dynamic \<Longrightarrow> (p, fee) \<in> C \<and> (\<forall>(q, g) \<in> C. fee \<le> g)"
    and "\<not> dynamic \<Longrightarrow> fees (canonical_provider_name def) \<noteq> None \<Longrightarrow> p = canonical_provider_name def"
proof -
  let ?cs = "List.map_filter (\<lambda>p. map_option (Pair p) (fees p)) (map canonical_provider_name selected)"
  have cs: "set ?cs = C" by (simp add: map_filter_fees assms(2))
  show "C \<noteq> {} \<Longrightarrow> dynamic \<Longrightarrow> (p, fee) \<in> C \<and> (\<forall>(q, g) \<in> C. fee \<le> g)"
    using assms(1) cs first_min_spec [of ?cs "(p, fee)"]
    by (fastforce simp: resolve_flashloan_provider_def Let_def)
  show "\<not> dynamic \<Longrightarrow> fees (canonical_provider_name def) \<noteq> None \<Longrightarrow> p = canonical_provider_name def"
    using assms(1) by (auto simp: resolve_flashloan_provider_def Let_def split: bind_splits if_splits)
  have hd: "hd ?cs \<in> C" if "?cs \<noteq> []" using that cs hd_in_set by blast
  show "fees p = Some fee"
  proof (cases "?cs = []")
    case True
    then show ?thesis
      using assms(1) by (auto simp: resolve_flashloan_provider_def Let_def split: bind_splits if_splits option.splits)
  next
    case False
    then show ?thesis
      using assms(1) cs hd [OF False] first_min_spec [of ?cs "(p, fee)"] assms(2)
      by (auto simp: resolve_flashloan_provider_def Let_def split: if_splits option.splits)
  qed
qed

lemma provider_fees_dom: "provider_fees ex p \<noteq> None \<longleftrightarrow> p \<in> {''AaveV3'', ''UniswapV3'', ''PancakeSwapV3''}"
  by (auto simp: provider_fees_def)

lemma selector_of_names:
  "flash_loan_selector ''AaveV3'' = 0" "flash_loan_selector ''UniswapV3'' = 1"
  "flash_loan_selector ''PancakeSwapV3'' = 2" "flash_loan_selector ''none'' = 255"
  by code_simp+

text \<open>With the default configuration the fee deducted is 0, whatever Aave charges.\<close>

lemma default_routing_ignores_aave_fee: "select_flashloan execution_config_default = (''UniswapV3'', 0)"
proof -
  have "map canonical_provider_name default_flashloan_providers = default_flashloan_providers"
    by code_simp
  then show ?thesis
    by (simp add: select_flashloan_def execution_config_default_def default_flashloan_providers_def
        resolve_flashloan_provider_def provider_fees_def List.map_filter_simps Let_def)
qed

section \<open>The cache file\<close>

text \<open>What is relied on of the printed addresses: they parse back, and are one word without \<open>#\<close>.\<close>

definition address_lines_ok :: "(string \<Rightarrow> address option) \<Rightarrow> (address \<Rightarrow> string) \<Rightarrow> bool" where
  "address_lines_ok parse show_address \<longleftrightarrow>
    (\<forall>a. parse (show_address a) = Some a \<and> show_address a \<noteq> [] \<and> hd (show_address a) \<noteq> CHR ''#'' \<and>
         (\<forall>c \<in> set (show_address a). \<not> is_space c))"

definition no_newline :: "string \<Rightarrow> bool" where
  "no_newline s \<longleftrightarrow> CHR 0x0A \<notin> set s \<and> CHR 0x0D \<notin> set s"

lemma split_lines_acc_line:
  "no_newline l \<Longrightarrow> no_newline acc \<Longrightarrow>
   split_lines_acc acc (l @ CHR 0x0A # rest) = (rev acc @ l) # split_lines rest"
proof (induction l arbitrary: acc)
  case Nil
  then show ?case
    by (cases acc) (auto simp: no_newline_def split_lines_def)
next
  case (Cons c l)
  then show ?case using Cons.IH [of "c # acc"] by (auto simp: no_newline_def)
qed

lemma split_lines_line:
  "no_newline l \<Longrightarrow> split_lines (l @ CHR 0x0A # rest) = l # split_lines rest"
  using split_lines_acc_line [of l "[]" rest] by (simp add: split_lines_def no_newline_def)

lemma split_join_lines:
  assumes "\<forall>l \<in> set ls. no_newline l"
  shows "split_lines (join_lines ls @ [CHR 0x0A]) = (if ls = [] then [''''] else ls)"
  using assms
proof (induction ls rule: join_lines.induct)
  case 1
  then show ?case by (simp add: split_lines_def)
next
  case (2 l)
  then show ?case using split_lines_line [of l "[]"] by (simp add: split_lines_def)
next
  case (3 l l2 ls)
  then show ?case using split_lines_line [of l "join_lines (l2 # ls) @ [CHR 0x0A]"] by simp
qed

lemma word_no_newline: "\<forall>c \<in> set s. \<not> is_space c \<Longrightarrow> no_newline s"
proof -
  have "is_space (CHR 0x0A)" "is_space (CHR 0x0D)" by code_simp+
  then show "\<forall>c \<in> set s. \<not> is_space c \<Longrightarrow> no_newline s" by (auto simp: no_newline_def)
qed

lemma address_no_newline: "address_lines_ok parse sh \<Longrightarrow> no_newline (sh a)"
  by (rule word_no_newline) (simp add: address_lines_ok_def)

lemmas show_nat_no_newline = word_no_newline [OF show_nat_no_space]


lemma resolve_none:
  "resolve_flashloan_provider selected fees def dynamic = None \<longleftrightarrow>
     (\<forall>p \<in> set selected. fees (canonical_provider_name p) = None) \<and> fees (canonical_provider_name def) = None"
proof -
  let ?cs = "List.map_filter (\<lambda>p. map_option (Pair p) (fees p)) (map canonical_provider_name selected)"
  have nil: "?cs = [] \<longleftrightarrow> (\<forall>p \<in> set selected. fees (canonical_provider_name p) = None)"
    by (induction selected) (auto simp: List.map_filter_simps split: option.splits)
  have "first_min cs = None \<longleftrightarrow> cs = []" for cs by (cases cs) auto
  then show ?thesis
    by (cases "?cs = []"; cases "fees (canonical_provider_name def)")
       (simp_all add: resolve_flashloan_provider_def Let_def nil [symmetric] del: not_None_eq)
qed

section \<open>Properties\<close>

text \<open>
  The flash-loan provider the simulators and the sender work with: none, at no fee and with the
  selector 255, when flash loans are off; otherwise one of the three providers with the fee configured
  for it and a selector the contract knows. With dynamic routing it is a cheapest one of the configured
  providers; without, the default provider when that is a known one.
\<close>

lemma flashloan_provider_selected:
  assumes "select_flashloan ex = (p, fee)"
  shows "if ex_use_flashloan ex
     then provider_fees ex p = Some fee \<and> flash_loan_selector p \<in> {0, 1, 2} \<and>
       (ex_dynamic_flashloan_routing ex \<longrightarrow> known_candidates ex \<noteq> {} \<longrightarrow>
          (p, fee) \<in> known_candidates ex \<and> (\<forall>(q, g) \<in> known_candidates ex. fee \<le> g)) \<and>
       (\<not> ex_dynamic_flashloan_routing ex \<longrightarrow>
          provider_fees ex (canonical_provider_name (ex_default_flashloan_provider ex)) \<noteq> None \<longrightarrow>
          p = canonical_provider_name (ex_default_flashloan_provider ex))
     else p = ''none'' \<and> fee = 0 \<and> flash_loan_selector p = 255"
proof (cases "ex_use_flashloan ex")
  case True
  let ?sel = "if ex_flashloan_providers ex = [] then [ex_default_flashloan_provider ex] else ex_flashloan_providers ex"
  let ?res = "resolve_flashloan_provider ?sel (provider_fees ex) (ex_default_flashloan_provider ex)
    (ex_dynamic_flashloan_routing ex)"
  show ?thesis
  proof (cases ?res)
    case None
    then have "known_candidates ex = {}"
      "provider_fees ex (canonical_provider_name (ex_default_flashloan_provider ex)) = None"
      unfolding resolve_none by (auto simp: known_candidates_def)
    moreover have "p = ''AaveV3''" "fee = ex_flash_loan_fee_aave_bps ex"
      using assms True None by (simp_all add: select_flashloan_def Let_def)
    ultimately show ?thesis using True by (simp add: provider_fees_def selector_of_names)
  next
    case (Some r)
    then have res: "?res = Some (p, fee)"
      using assms True by (simp add: select_flashloan_def Let_def)
    note cases = resolve_cases [OF res refl]
    have "p \<in> {''AaveV3'', ''UniswapV3'', ''PancakeSwapV3''}"
      using cases(1) provider_fees_dom [of ex p] by simp
    then have "flash_loan_selector p \<in> {0, 1, 2}" using selector_of_names by auto
    then show ?thesis using True cases by (simp add: known_candidates_def)
  qed
next
  case False
  then show ?thesis using assms by (auto simp: select_flashloan_def selector_of_names)
qed

text \<open>The default configuration: UniswapV3 is free, so no other provider of the list is chosen.\<close>

text \<open>
  C39. The cache of the pool filter round-trips: the file \<open>main\<close> writes after the full filter is read by
  the next start as exactly the addresses of the pools that passed, whatever their number, and as no
  cache at all when none passed.
\<close>

theorem filter_cache_roundtrip:
  assumes "address_lines_ok parse show_address" "no_newline now"
  shows "load_filter_cache parse (Some (cache_content show_address now pools)) =
    (if pools = [] then None else Some (rp_address ` set pools))"
proof -
  let ?h1 = "''# SwapFilter safe pools '' @ [CHR 0xE2, CHR 0x80, CHR 0x94] @ '' generated '' @ now"
  let ?h2 = "''# '' @ show_nat (length pools) @ '' pools passed REVM roundtrip test''"
  let ?ls = "map (\<lambda>p. show_address (rp_address p)) pools"
  have h1: "no_newline ?h1" using assms(2) by (simp add: no_newline_def)
  have h2: "no_newline ?h2" using show_nat_no_newline [of "length pools"] by (simp add: no_newline_def)
  have "cache_content show_address now pools =
      ?h1 @ CHR 0x0A # (?h2 @ CHR 0x0A # (join_lines ?ls @ [CHR 0x0A]))"
    by (simp add: cache_content_def)
  moreover have "\<forall>l \<in> set ?ls. no_newline l" using address_no_newline [OF assms(1)] by simp
  ultimately have lines: "split_lines (cache_content show_address now pools) =
      ?h1 # ?h2 # (if ?ls = [] then [''''] else ?ls)"
    by (simp only: split_lines_line [OF h1] split_lines_line [OF h2] split_join_lines)
  have keep: "filter (\<lambda>l. l \<noteq> [] \<and> hd l \<noteq> CHR ''#'') ?ls = ?ls"
    using assms(1) by (simp add: filter_id_conv address_lines_ok_def)
  have parsed: "parse (trim (show_address a)) = Some a" for a
    using assms(1) by (simp add: address_lines_ok_def trim_word)
  have "set (List.map_filter (\<lambda>l. parse (trim l)) ?ls) = rp_address ` set pools"
    by (induction pools) (simp_all add: List.map_filter_simps parsed)
  then have "cached_addresses parse (cache_content show_address now pools) = rp_address ` set pools"
    unfolding cached_addresses_def lines using keep by (simp add: List.map_filter_simps)
  then show ?thesis by (simp add: load_filter_cache_def Let_def)
qed

text \<open>Addresses written in decimal stand for the hexadecimal ones of the printer.\<close>

definition sample_show :: "address \<Rightarrow> string" where
  "sample_show a = show_nat (unat a)"

definition sample_parse :: "string \<Rightarrow> address option" where
  "sample_parse s = map_option of_nat (decimal_value 0 s)"

lemma sample_lines_ok: "address_lines_ok sample_parse sample_show"
proof -
  have "decimal_value 0 (show_nat n) = Some n" for n
    using decimal_value_show [of n] by force
  then have "sample_parse (sample_show a) = Some a" for a
    by (simp add: sample_parse_def sample_show_def)
  moreover have "show_nat n \<noteq> []" for n using show_nat_head [of n] by auto
  moreover have "hd (show_nat n) \<noteq> CHR ''#''" for n
  proof -
    have "\<forall>d \<in> set [0..<10 :: nat]. char_of (48 + d) \<noteq> CHR ''#''" by code_simp
    then have "char_of (48 + d) \<noteq> CHR ''#''" if "d < 10" for d :: nat using that by simp
    then show ?thesis
      using show_nat_digits [of "hd (show_nat n)" n] show_nat_head [of n] by fastforce
  qed
  ultimately show ?thesis
    using show_nat_no_space by (simp add: address_lines_ok_def sample_show_def)
qed

theorem filter_cache_roundtrip_witness:
  "load_filter_cache sample_parse (Some (cache_content sample_show ''2026-01-01 00:00:00 UTC''
      [sample_pool 5 2 UniswapV2, sample_pool 6 3 UniswapV3])) = Some {5, 6}"
proof -
  have "no_newline ''2026-01-01 00:00:00 UTC''" by code_simp
  from filter_cache_roundtrip [OF sample_lines_ok this,
      of "[sample_pool 5 2 UniswapV2, sample_pool 6 3 UniswapV3]"]
  show ?thesis by (simp add: sample_pool_def)
qed


section \<open>The paths the pipeline starts with\<close>

lemma filter_pools_full_subset:
  assumes "filter_pools_full env fe fr ask client serve chain reg token_limit B pools = Some (Inr out)"
    and "workers_ok fr"
  shows "mset out \<subseteq># mset pools"
proof -
  let ?staged = "gecko_stage (env_hex_decode env) client serve chain token_limit (blacklist_stage B pools)"
  have "\<exists>sm. filter_pools_by_swap env fe fr sm reg ?staged = Some out"
    using assms(1) by (auto simp: filter_pools_full_def Let_def split: if_splits)
  then show ?thesis
    using filter_pools_by_swap_spec(1) [OF _ assms(2)] subset_mset.order_trans [OF _ mset_stages] by blast
qed

lemma filter_startup_pools_subset:
  assumes "filter_startup_pools su cfg pools = Some (Inr (out, saved))" "workers_ok (su_filter su)"
  shows "mset out \<subseteq># mset pools"
proof -
  have inr: "map_sum id f x = Inr y \<longleftrightarrow> (\<exists>w. x = Inr w \<and> f w = y)" for f :: "raw_pool list \<Rightarrow> 'b" and x :: "'c + _" and y
    by (cases x) auto
  show ?thesis
    using assms(1) filter_pools_full_subset [OF _ assms(2)]
    by (auto simp: filter_startup_pools_def Let_def multiset_filter_subset inr split: if_splits option.splits)
qed

lemma gecko_path_filter_subset: "set (gecko_path_filter su cfg pools paths) \<subseteq> set paths"
  by (auto simp: gecko_path_filter_def Let_def filter_paths_iff split: sum.splits)

lemma built_paths:
  assumes "arrange_ok arrange" "p \<in> set (build_arb_paths arrange hasher pools ts max_hops cap)"
  shows "\<exists>start \<in> set ts. \<exists>hs. p = swap_path_new hasher (map (swap_step_of_hop pools) hs) \<and>
    simple_cycle pools start hs \<and> distinct (hop_pools hs) \<and> 3 \<le> length hs \<and> length hs \<le> max_hops + 1"
  using build_arb_paths_inv [OF assms(1), of pools hasher max_hops cap ts] simple_cycle_distinct_pools assms(2)
  by (fastforce simp: arb_inv_def build_arb_paths_def found_cycle_def cycle_path_def)

lemma hop_step_tokens:
  assumes "hop_ok pools h"
  shows "\<exists>p \<in> set pools. st_pool_address (swap_step_of_hop pools h) = rp_address p \<and>
    {st_token_in (swap_step_of_hop pools h), st_token_out (swap_step_of_hop pools h)} = {rp_token0 p, rp_token1 p}"
  using assms by (auto simp: hop_ok_def swap_step_of_hop_def split: prod.splits intro!: bexI [OF _ nth_mem])

text \<open>
  What \<open>main\<close> hands to the pipeline, whichever way the pools were filtered (cache, full filter, or
  none): the pools are loaded ones, the market data and the searcher are given the same list, and every
  path is a cycle of those pools through a configured start token, of 3 to \<open>max_hops + 1\<close> hops, over no
  pool twice and no blacklisted token.
\<close>

lemma startup_paths_clean:
  assumes "startup su cfg = Some (Inr r)" "workers_ok (su_filter su)" "arrange_ok (su_arrange su)"
  shows "\<exists>pools. mset pools \<subseteq># mset (case su_load_pools su (cache_dir_of cfg) of Some ps \<Rightarrow> ps | None \<Rightarrow> []) \<and>
    sr_metas r = raw_to_pool_metas pools \<and> sr_pools r = raw_to_pools_vec pools \<and>
    (\<forall>p \<in> set (sr_paths r).
       (\<exists>start \<in> set (start_tokens_of su cfg). \<exists>hs.
          p = swap_path_new (su_hasher su) (map (swap_step_of_hop pools) hs) \<and> simple_cycle pools start hs \<and>
          distinct (hop_pools hs) \<and> 3 \<le> length hs \<and> length hs \<le> ex_max_hops (cfg_execution cfg) + 1) \<and>
       (\<forall>s \<in> set (path_steps p). st_pool_address s \<in> fst ` set (sr_pools r) \<and>
          st_token_in s \<notin> blacklist_of su cfg \<and> st_token_out s \<notin> blacklist_of su cfg))"
proof -
  let ?loaded = "case su_load_pools su (cache_dir_of cfg) of Some ps \<Rightarrow> ps | None \<Rightarrow> []"
  let ?raw = "blacklist_stage (blacklist_of su cfg) ?loaded"
  obtain pools saved where filtered: "filter_startup_pools su cfg ?raw = Some (Inr (pools, saved))"
    and metas: "sr_metas r = raw_to_pool_metas pools" and vec: "sr_pools r = raw_to_pools_vec pools"
    and paths: "sr_paths r = gecko_path_filter su cfg pools
      (if pools = [] \<or> start_tokens_of su cfg = [] then []
       else build_arb_paths (su_arrange su) (su_hasher su) pools (start_tokens_of su cfg)
              (ex_max_hops (cfg_execution cfg)) (ex_max_paths_per_token (cfg_execution cfg)))"
    using assms(1) by (auto simp: startup_def Let_def split: bind_splits sum.splits)
  have sub: "mset pools \<subseteq># mset ?raw" by (rule filter_startup_pools_subset [OF filtered assms(2)])
  have clean: "rp_token0 p \<notin> blacklist_of su cfg \<and> rp_token1 p \<notin> blacklist_of su cfg" if "p \<in> set pools" for p
    using set_mset_mono [OF sub] that by (auto simp: blacklist_stage_def split: if_splits)
  have cycle: "\<exists>start \<in> set (start_tokens_of su cfg). \<exists>hs.
      p = swap_path_new (su_hasher su) (map (swap_step_of_hop pools) hs) \<and> simple_cycle pools start hs \<and>
      distinct (hop_pools hs) \<and> 3 \<le> length hs \<and> length hs \<le> ex_max_hops (cfg_execution cfg) + 1"
    if "p \<in> set (sr_paths r)" for p
  proof (rule built_paths [OF assms(3)])
    show "p \<in> set (build_arb_paths (su_arrange su) (su_hasher su) pools (start_tokens_of su cfg)
        (ex_max_hops (cfg_execution cfg)) (ex_max_paths_per_token (cfg_execution cfg)))"
      using subsetD [OF gecko_path_filter_subset that [unfolded paths]] by (simp split: if_splits)
  qed
  have step: "st_pool_address s \<in> fst ` set (sr_pools r) \<and>
      st_token_in s \<notin> blacklist_of su cfg \<and> st_token_out s \<notin> blacklist_of su cfg"
    if p: "p \<in> set (sr_paths r)" and sp: "s \<in> set (path_steps p)" for p s
  proof -
    obtain h where "hop_ok pools h" and s: "s = swap_step_of_hop pools h"
      using cycle [OF p] sp by (fastforce simp: swap_path_new_def simple_cycle_def)
    then obtain q where "q \<in> set pools" "st_pool_address s = rp_address q"
      "{st_token_in s, st_token_out s} = {rp_token0 q, rp_token1 q}"
      using hop_step_tokens by blast
    moreover from this have "st_pool_address s \<in> fst ` set (sr_pools r)"
      by (force simp: vec raw_to_pools_vec_def)
    moreover have "st_token_in s \<in> {rp_token0 q, rp_token1 q}" "st_token_out s \<in> {rp_token0 q, rp_token1 q}"
      using calculation(3) by blast+
    ultimately show ?thesis using clean [of q] by auto
  qed
  have "mset pools \<subseteq># mset ?loaded" by (rule subset_mset.order_trans [OF sub mset_blacklist_stage])
  then show ?thesis
    by (intro exI [of _ pools] conjI ballI metas vec cycle) (simp_all only: step simp_thms)
qed

text \<open>
  A start with three pools in a ring, of which the cache file names all, and a fourth with a blacklisted token.
\<close>

definition sample_settings :: config where
  "sample_settings = \<lparr> cfg_chain = \<lparr> ch_name = ''base'', ch_chain_id = 8453, ch_https_url = ''h'', ch_wss_url = ''w'',
       ch_wss_urls = [], ch_cache_dir = None, ch_sequencer_url = None, ch_blacklisted_tokens = [''9''],
       ch_max_profit_pct = default_max_profit_pct \<rparr>,
     cfg_start_tokens = [\<lparr> tk_symbol = ''WETH'', tk_address = ''1'', tk_decimals = 18, tk_price_pool = None \<rparr>],
     cfg_dexes = \<lparr> dx_v2 = None, dx_v3 = None, dx_algebra = None, dx_uniswapv3cl = None, dx_lfj = None \<rparr>,
     cfg_gas = \<lparr> gc_enabled = False, gc_token_symbol = None, gc_token_address = None, gc_token_decimals = None,
       gc_stable_symbol = None, gc_stable_address = None, gc_stable_decimals = None, gc_pool_address = None,
       gc_token_is_token0 = None \<rparr>,
     cfg_execution = execution_config_default\<lparr>ex_max_hops := 3, ex_max_paths_per_token := 200\<rparr>, cfg_revm_filter = \<lparr> rf_routers = [] \<rparr>,
     cfg_gas_params = gas_params_default, cfg_aave_v3 = None \<rparr>"

definition sample_startup :: startup_env where
  "sample_startup = \<lparr> su_var = (\<lambda>_. None), su_parse_address = sample_parse, su_show_address = sample_show,
     su_read_file = (\<lambda>_. Some (''# safe'' @ CHR 0x0A # ''11'' @ CHR 0x0A # ''12'' @ CHR 0x0A # ''15'')),
     su_load_pools = (\<lambda>_. Some (ring_pool 16 9 1 # ring_pools)), su_chain = silent_env, su_evm = sample_evm,
     su_filter = sample_run, su_ask = (\<lambda>_. None), su_client = Inr (), su_gecko = (\<lambda>_ _ _. Http 500 No_Data),
     su_arrange = (\<lambda>_ es. es), su_hasher = length_hasher, su_gas_price = Some (Some 7) \<rparr>"

lemma sample_started:
  "map_option (map_sum id (\<lambda>r. (map fst (sr_pools r), map path_len (sr_paths r)))) (startup sample_startup sample_settings) =
     Some (Inr ([11, 12, 15], [3]))"
proof -
  have "trim ''11'' = ''11''" "trim ''12'' = ''12''" "trim ''15'' = ''15''" by code_simp+
  moreover have "split_lines (''# safe'' @ CHR 0x0A # ''11'' @ CHR 0x0A # ''12'' @ CHR 0x0A # ''15'') =
      [''# safe'', ''11'', ''12'', ''15'']"
    by code_simp
  moreover have "decimal_value 0 ''11'' = Some 11" "decimal_value 0 ''12'' = Some 12" "decimal_value 0 ''15'' = Some 15"
    "decimal_value 0 ''9'' = Some 9" "decimal_value 0 ''1'' = Some 1"
    by code_simp+
  ultimately have cache: "load_filter_cache sample_parse
      (Some (''# safe'' @ CHR 0x0A # ''11'' @ CHR 0x0A # ''12'' @ CHR 0x0A # ''15'')) = Some {11, 12, 15}"
    and tokens: "sample_parse ''9'' = Some 9" "sample_parse ''1'' = Some 1"
    by (simp_all add: load_filter_cache_def cached_addresses_def sample_parse_def List.map_filter_simps)
  have paths: "map path_len (build_arb_paths (\<lambda>_ es. es) length_hasher
      [ring_pool 11 1 2, ring_pool 12 2 3, ring_pool 15 3 1] [1] 3 200) = [3]"
    by code_simp
  have "blacklist_of sample_startup sample_settings = {9}" "start_tokens_of sample_startup sample_settings = [1]"
    by (simp_all add: blacklist_of_def start_tokens_of_def sample_startup_def sample_settings_def tokens List.map_filter_simps)
  moreover have "blacklist_stage {9} (ring_pool 16 9 1 # ring_pools) = ring_pools"
    by (simp add: blacklist_stage_def ring_pools_def ring_pool_def)
  ultimately show ?thesis
    using paths cache unfolding startup_def Let_def filter_startup_pools_def gecko_path_filter_def
    by (simp add: env_flag_def sample_startup_def sample_settings_def execution_config_default_def ring_pools_def
        ring_pool_def raw_to_pools_vec_def)
qed

end
