(* ===== verification/EvmQuotes.thy ===== *)
theory EvmQuotes
  imports Quoter
begin

text \<open>
  \<open>src/calculation/curve.rs\<close> and \<open>src/calculation/maverick.rs\<close>: quotes read off a call of the Curve pool or
  of the Maverick lens contract in REVM, on the shared database. REVM and the ABI codec are parameters;
  \<open>eq_transact\<close> runs a call on the database, which it may fill with what it reads. Locking the database
  is taken to succeed.
\<close>

section \<open>Operations\<close>

record evm_quoter =
  eq_transact :: "block_state_db \<Rightarrow> address \<Rightarrow> address \<Rightarrow> u8 list \<Rightarrow> exec_result \<times> block_state_db"
  eq_encode_get_dy :: "u256 \<Rightarrow> u256 \<Rightarrow> u256 \<Rightarrow> u8 list"
  eq_decode_u256 :: "u8 list \<Rightarrow> u256 option"
  eq_encode_calculate_swap :: "address \<Rightarrow> u128 \<Rightarrow> bool \<Rightarrow> bool \<Rightarrow> 32 word \<Rightarrow> u8 list"
  eq_decode_triple :: "u8 list \<Rightarrow> (u256 \<times> u256 \<times> u256) option"

definition CURVE_CALLER :: address where
  "CURVE_CALLER = 1"

definition get_amount_out_curve ::
    "evm_quoter \<Rightarrow> block_state_db \<Rightarrow> address \<Rightarrow> u64 \<Rightarrow> u64 \<Rightarrow> u256 \<Rightarrow> u256 option \<times> block_state_db" where
  "get_amount_out_curve q db pool index_in index_out amount_in =
    (if amount_in = 0 then (Some 0, db)
     else
       let calldata = eq_encode_get_dy q (ucast index_in) (ucast index_out) amount_in;
           (result, db) = eq_transact q db CURVE_CALLER pool calldata
       in (case result of
             Exec_Success output \<Rightarrow> eq_decode_u256 q output
           | _ \<Rightarrow> None, db))"

definition curve_rate_1e18 ::
    "evm_quoter \<Rightarrow> block_state_db \<Rightarrow> address \<Rightarrow> u64 \<Rightarrow> u64 \<Rightarrow> u256 \<Rightarrow> u256 \<times> block_state_db" where
  "curve_rate_1e18 q db pool index_in index_out reference_amount =
    (let one = 1000000000000000000;
         (r, db) = get_amount_out_curve q db pool index_in index_out reference_amount;
         out = (case r of Some v \<Rightarrow> v | None \<Rightarrow> 0)
     in (if reference_amount = 0 then 0 else out * one div reference_amount, db))"

definition MAVERICK_LENS :: address where
  "MAVERICK_LENS = 0xb40AfdB85a07f37aE217E7D6462e609900dD8D7A"

definition MAVERICK_CALLER :: address where
  "MAVERICK_CALLER = 1"

definition get_amount_out_maverick ::
    "evm_quoter \<Rightarrow> block_state_db \<Rightarrow> address \<Rightarrow> u256 \<Rightarrow> bool \<Rightarrow> u256 option \<times> block_state_db" where
  "get_amount_out_maverick q db pool amount_in token_a_in =
    (if amount_in = 0 then (Some 0, db)
     else
       let amount_128 = (if ucast (- 1 :: u128) < amount_in then - 1 else ucast amount_in) :: u128;
           tick_limit = (if token_a_in then 0x7FFFFFFF else 0x80000000);
           calldata = eq_encode_calculate_swap q pool amount_128 token_a_in False tick_limit;
           (result, db) = eq_transact q db MAVERICK_CALLER MAVERICK_LENS calldata
       in (case result of
             Exec_Success output \<Rightarrow> map_option (\<lambda>(_, amount_out, _). amount_out) (eq_decode_triple q output)
           | _ \<Rightarrow> None, db))"

definition maverick_rate_1e18 ::
    "evm_quoter \<Rightarrow> block_state_db \<Rightarrow> address \<Rightarrow> u256 \<Rightarrow> bool \<Rightarrow> u8 \<Rightarrow> u256 \<times> block_state_db" where
  "maverick_rate_1e18 q db pool amount_in token_a_in out_decimals =
    (let one = 1000000000000000000;
         (r, db) = get_amount_out_maverick q db pool amount_in token_a_in
     in (case r of
           None \<Rightarrow> one
         | Some out \<Rightarrow>
             if out = 0 \<or> amount_in = 0 then one
             else let dec = 10 ^ unat out_decimals
                  in if dec = 0 then one
                     else case checked_mul out one of Some scaled \<Rightarrow> scaled div dec | None \<Rightarrow> one, db))"

section \<open>Rates\<close>

text \<open>The power of ten wraps from 78 decimals on, but is 0 for no \<open>u8\<close>: the test for it is never met.\<close>

lemma ten_power_nonzero: "(10 :: u256) ^ unat (d :: u8) \<noteq> 0"
proof
  assume "(10 :: u256) ^ unat d = 0"
  then have "word_of_nat (10 ^ unat d) = (0 :: u256)" by simp
  then have "2 ^ LENGTH(256) dvd (10 :: nat) ^ unat d"
    by (simp only: word_of_nat_eq_0_iff)
  then have "2 ^ 256 dvd (10 :: nat) ^ unat d" by (simp only: len_num0 len_num1 len_bit0 len_bit1) simp
  also have "(10 :: nat) ^ unat d = 2 ^ unat d * 5 ^ unat d"
    by (simp add: power_mult_distrib [symmetric])
  finally have "(2 :: nat) ^ 256 dvd 2 ^ unat d * 5 ^ unat d" .
  moreover have "coprime ((2 :: nat) ^ 256) (5 ^ unat d)"
    by (intro coprime_power_left_iff [THEN iffD2] coprime_power_right_iff [THEN iffD2] disjI1) simp
  ultimately have "(2 :: nat) ^ 256 dvd 2 ^ unat d"
    using coprime_dvd_mult_left_iff by blast
  then have "256 \<le> unat d" by (rule power_dvd_imp_le) simp
  moreover have "unat d < 2 ^ LENGTH(8)" by (rule unsigned_less)
  ultimately show False by simp
qed

text \<open>
  The Maverick rate: 1.0 when there is no quote, the quote is zero or scaling it overflows; otherwise the
  output scaled by its decimals. The input amount does not enter.
\<close>

lemma maverick_rate_value:
  "fst (maverick_rate_1e18 q db pool amount_in token_a_in d) =
    (case fst (get_amount_out_maverick q db pool amount_in token_a_in) of
       None \<Rightarrow> 10 ^ 18
     | Some out \<Rightarrow>
         if out = 0 \<or> amount_in = 0 \<or> 2 ^ 256 \<le> unat out * 10 ^ 18 then 10 ^ 18
         else out * 10 ^ 18 div 10 ^ unat d)"
  by (auto simp: maverick_rate_1e18_def Let_def ten_power_nonzero checked_mul_def split: prod.splits option.splits)

text \<open>
  The Curve rate is the quotient of output and reference amount rounded down when scaling does not
  overflow, and 0 when there is no quote.
\<close>

lemma curve_rate_value:
  assumes "reference_amount \<noteq> 0"
  shows "fst (get_amount_out_curve q db pool i j reference_amount) = None \<Longrightarrow>
      fst (curve_rate_1e18 q db pool i j reference_amount) = 0"
    and "fst (get_amount_out_curve q db pool i j reference_amount) = Some out \<Longrightarrow> unat out * 10 ^ 18 < 2 ^ 256 \<Longrightarrow>
      unat (fst (curve_rate_1e18 q db pool i j reference_amount)) = unat out * 10 ^ 18 div unat reference_amount"
proof -
  show "fst (get_amount_out_curve q db pool i j reference_amount) = None \<Longrightarrow>
      fst (curve_rate_1e18 q db pool i j reference_amount) = 0"
    by (auto simp: curve_rate_1e18_def Let_def split: prod.splits)
  assume r: "fst (get_amount_out_curve q db pool i j reference_amount) = Some out" "unat out * 10 ^ 18 < 2 ^ 256"
  then have "unat (out * 1000000000000000000) = unat out * 10 ^ 18"
    by (simp add: unat_mult_exact)
  then show "unat (fst (curve_rate_1e18 q db pool i j reference_amount)) = unat out * 10 ^ 18 div unat reference_amount"
    using r assms by (auto simp: curve_rate_1e18_def Let_def unat_div split: prod.splits)
qed

end
