(* ===== verification/LocalNode.thy ===== *)
theory LocalNode
  imports StateDb Config PoolLoader
begin

text \<open>
  \<open>src/history_db.rs\<close>, the REVM database over the files of a local node, and \<open>src/block_tracing.rs\<close>, the
  post-states of a traced block. The providers of \<open>reth\<close>, keccak256 and the tracing node are parameters;
  their errors are texts.
\<close>

section \<open>The database of a local node\<close>

record state_provider =
  hp_basic_account :: "address \<Rightarrow> string + (u256 \<times> u64) option"
  hp_account_code :: "address \<Rightarrow> string + u8 list option"
  hp_storage :: "address \<Rightarrow> u256 \<Rightarrow> string + u256 option"
  hp_block_hash :: "u64 \<Rightarrow> string + u256 option"

record provider_factory =
  pf_history :: "u64 \<Rightarrow> string + state_provider"
  pf_best_block :: "string + u64"

record history_db =
  hd_provider :: state_provider
  hd_factory :: provider_factory

text \<open>\<open>open_factory\<close> is the factory over an opened database and the directory of the static files.\<close>

definition history_new ::
    "(string \<Rightarrow> string + 'db) \<Rightarrow> (string \<Rightarrow> string + 'files) \<Rightarrow> ('db \<Rightarrow> 'files \<Rightarrow> provider_factory) \<Rightarrow>
     string \<Rightarrow> u64 \<Rightarrow> string + history_db" where
  "history_new open_db open_files factory db_path block =
    (case open_db (join_path db_path ''db'') of
       Inl e \<Rightarrow> Inl e
     | Inr db \<Rightarrow>
         (case open_files (join_path db_path ''static_files'') of
            Inl e \<Rightarrow> Inl e
          | Inr files \<Rightarrow>
              (let f = factory db files
               in map_sum (\<lambda>e. ''Failed to create state provider for block '' @ show_nat (unat block) @ '': '' @ e)
                    (\<lambda>p. \<lparr> hd_provider = p, hd_factory = f \<rparr>) (pf_history f block))))"

definition history_set_block :: "u64 \<Rightarrow> history_db \<Rightarrow> string + history_db" where
  "history_set_block block h =
    map_sum (\<lambda>e. ''Failed to advance to block '' @ show_nat (unat block) @ '': '' @ e) (\<lambda>p. h\<lparr>hd_provider := p\<rparr>)
      (pf_history (hd_factory h) block)"

definition best_block :: "history_db \<Rightarrow> string + u64" where
  "best_block h = pf_best_block (hd_factory h)"

text \<open>\<open>unwrap_or_default\<close> on the answer of a provider: an error and an absent value read alike.\<close>

definition answer_or_none :: "string + 'a option \<Rightarrow> 'a option" where
  "answer_or_none r = (case r of Inl _ \<Rightarrow> None | Inr v \<Rightarrow> v)"

definition history_basic :: "(u8 list \<Rightarrow> u256) \<Rightarrow> history_db \<Rightarrow> address \<Rightarrow> string + account_info option" where
  "history_basic keccak h a =
    (let (balance, nonce) = (case answer_or_none (hp_basic_account (hd_provider h) a) of Some acct \<Rightarrow> acct | None \<Rightarrow> (0, 0));
         code = answer_or_none (hp_account_code (hd_provider h) a)
     in Inr (Some (case code of
          Some bytecode \<Rightarrow> \<lparr> ai_balance = balance, ai_nonce = nonce, ai_code_hash = keccak bytecode, ai_code = Some bytecode \<rparr>
        | None \<Rightarrow> \<lparr> ai_balance = balance, ai_nonce = nonce, ai_code_hash = keccak [], ai_code = Some [] \<rparr>)))"

text \<open>\<open>code_by_hash\<close> panics.\<close>

definition history_code_by_hash :: "history_db \<Rightarrow> u256 \<Rightarrow> u8 list run" where
  "history_code_by_hash h code_hash = None"

definition history_storage :: "history_db \<Rightarrow> address \<Rightarrow> u256 \<Rightarrow> string + u256" where
  "history_storage h a index =
    map_sum id (\<lambda>v. case v of Some x \<Rightarrow> x | None \<Rightarrow> 0) (hp_storage (hd_provider h) a index)"

definition history_block_hash :: "(u8 list \<Rightarrow> u256) \<Rightarrow> history_db \<Rightarrow> u64 \<Rightarrow> string + u256" where
  "history_block_hash keccak h number =
    Inr (case answer_or_none (hp_block_hash (hd_provider h) number) of Some x \<Rightarrow> x | None \<Rightarrow> keccak [])"

section \<open>The post-states of a block\<close>

datatype 'acct geth_trace = PreState_Diff "address \<rightharpoonup> 'acct" "address \<rightharpoonup> 'acct" | Other_Trace

datatype 'acct trace_result = Trace_Success "'acct geth_trace" | Trace_Error string

fun post_state :: "'acct trace_result \<Rightarrow> (address \<rightharpoonup> 'acct) option" where
  "post_state (Trace_Success (PreState_Diff pre post)) = Some post"
| "post_state _ = None"

definition debug_trace_block ::
    "('tag \<Rightarrow> bool \<Rightarrow> string + 'acct trace_result list) \<Rightarrow> 'tag \<Rightarrow> bool \<Rightarrow> (address \<rightharpoonup> 'acct) list" where
  "debug_trace_block node block_tag diff_mode =
    (case node block_tag diff_mode of
       Inl _ \<Rightarrow> []
     | Inr results \<Rightarrow> List.map_filter post_state results)"

section \<open>What REVM relies on\<close>

text \<open>
  Every account comes with its code loaded and the hash of that code, so that \<open>code_by_hash\<close>, which
  panics, is not needed; no account is reported missing.
\<close>

lemma history_basic_loaded:
  "\<exists>i c. history_basic keccak h a = Inr (Some i) \<and> ai_code i = Some c \<and> ai_code_hash i = keccak c"
  by (auto simp: history_basic_def Let_def split: prod.split option.split)

text \<open>A failing provider reads as an empty account: only storage reads report errors.\<close>

lemma history_errors:
  "hp_basic_account (hd_provider h) a = Inl e \<Longrightarrow> hp_account_code (hd_provider h) a = Inl e' \<Longrightarrow>
     history_basic keccak h a = Inr (Some \<lparr> ai_balance = 0, ai_nonce = 0, ai_code_hash = keccak [], ai_code = Some [] \<rparr>)"
  "(\<exists>e. history_storage h a s = Inl e) \<longleftrightarrow> (\<exists>e. hp_storage (hd_provider h) a s = Inl e)"
  by (auto simp: history_basic_def history_storage_def answer_or_none_def map_sum_def split: sum.splits)

text \<open>Moving to a block that the provider refuses leaves no new database; otherwise only the view changes.\<close>

lemma history_set_block_view:
  "history_set_block block h = Inr h' \<Longrightarrow>
     hd_factory h' = hd_factory h \<and> pf_history (hd_factory h) block = Inr (hd_provider h')"
  by (auto simp: history_set_block_def map_sum_def split: sum.splits)

end
