(* ===== verification/Logger.thy ===== *)
theory Logger
  imports PoolLoader
begin

text \<open>
  \<open>src/utils.rs\<close>: the levels of the logger and the colouring of messages. The logging library, the clock and
  the log file are not modelled; the environment is a function. Words of ASCII text are separated by
  ASCII white space.
\<close>

section \<open>Messages\<close>

fun split_words :: "string \<Rightarrow> string \<Rightarrow> string list" where
  "split_words w [] = (if w = [] then [] else [rev w])"
| "split_words w (c # s) =
    (if is_space c then (if w = [] then split_words [] s else rev w # split_words [] s)
     else split_words (c # w) s)"

definition split_whitespace :: "string \<Rightarrow> string list" where
  "split_whitespace s = split_words [] s"

fun join_words :: "string list \<Rightarrow> string" where
  "join_words [] = []"
| "join_words [w] = w"
| "join_words (w # ws) = w @ CHR '' '' # join_words ws"

definition colorize_token :: "string \<Rightarrow> string" where
  "colorize_token token =
    (if take 6 token = ''block='' then CHR 0x1B # ''[96m'' @ token @ CHR 0x1B # ''[0m'' else token)"

definition colorize_metrics :: "string \<Rightarrow> string" where
  "colorize_metrics input = join_words (map colorize_token (split_whitespace input))"

section \<open>Levels\<close>

datatype level_filter = Off | Error | Warn | Info | Debug | Trace

definition app_level :: "(string \<Rightarrow> string option) \<Rightarrow> level_filter" where
  "app_level env =
    (let l = map lower_char (case env ''BOT_LOG_LEVEL'' of Some v \<Rightarrow> v | None \<Rightarrow> ''info'')
     in if l = ''trace'' then Trace else if l = ''debug'' then Debug else if l = ''warn'' then Warn
        else if l = ''error'' then Error else Info)"

definition runtime_log_path :: "(string \<Rightarrow> string option) \<Rightarrow> string" where
  "runtime_log_path env =
    ''bot/'' @ map lower_char (case env ''BOT_CHAIN'' of Some v \<Rightarrow> v | None \<Rightarrow> ''base'') @ ''/runtime.log''"

definition level_of :: "string \<Rightarrow> level_filter option" where
  "level_of s =
    (let l = map lower_char s
     in if l = ''trace'' then Some Trace else if l = ''debug'' then Some Debug else if l = ''info'' then Some Info
        else if l = ''warn'' then Some Warn else if l = ''error'' then Some Error
        else if l = ''off'' then Some Off else None)"

fun split_char :: "char \<Rightarrow> string \<Rightarrow> string list" where
  "split_char d [] = [[]]"
| "split_char d (c # s) =
    (if c = d then [] # split_char d s
     else case split_char d s of p # ps \<Rightarrow> (c # p) # ps | [] \<Rightarrow> [[c]])"

text \<open>\<open>rsplit_once\<close>: around the last occurrence.\<close>

definition rsplit_once :: "char \<Rightarrow> string \<Rightarrow> (string \<times> string) option" where
  "rsplit_once d s =
    (if d \<in> set s
     then Some (rev (drop 1 (dropWhile (\<lambda>c. c \<noteq> d) (rev s))), rev (takeWhile (\<lambda>c. c \<noteq> d) (rev s)))
     else None)"

definition parse_directive :: "string \<Rightarrow> (string \<times> level_filter) option" where
  "parse_directive directive =
    do {
      (module, level_str) \<leftarrow> rsplit_once (CHR ''='') (trim directive);
      level \<leftarrow> level_of level_str;
      Some (module, level)
    }"

text \<open>The level of each module, in the order in which the dispatch is told; a later entry replaces an earlier.\<close>

definition module_levels :: "(string \<Rightarrow> string option) \<Rightarrow> (string \<times> level_filter) list" where
  "module_levels env =
    (''rust'', app_level env) #
    (case env ''RUST_LOG'' of
       Some rust_log \<Rightarrow> List.map_filter parse_directive (split_char (CHR '','') rust_log)
     | None \<Rightarrow> [])"

section \<open>What they keep\<close>

lemma split_words_join:
  assumes "\<forall>w \<in> set ws. w \<noteq> [] \<and> (\<forall>c \<in> set w. \<not> is_space c)"
  shows "split_whitespace (join_words ws) = ws"
proof -
  have word: "split_words acc (w @ s) = split_words (rev w @ acc) s" if "\<forall>c \<in> set w. \<not> is_space c" for acc w s
    using that by (induction w arbitrary: acc) auto
  have space: "is_space (CHR '' '')" by code_simp
  show ?thesis
    using assms unfolding split_whitespace_def
  proof (induction ws rule: join_words.induct)
    case (2 w)
    then show ?case using word [of w "[]" "[]"] by simp
  next
    case (3 w v vs)
    then have "split_words [] (w @ CHR '' '' # join_words (v # vs)) = split_words (rev w) (CHR '' '' # join_words (v # vs))"
      using word [of w "[]"] by simp
    then show ?case using 3 space by simp
  qed simp
qed

lemma rsplit_once_join:
  assumes "rsplit_once d s = Some (a, b)"
  shows "s = a @ d # b" and "d \<notin> set b"
proof -
  let ?t = "takeWhile (\<lambda>c. c \<noteq> d) (rev s)" and ?r = "dropWhile (\<lambda>c. c \<noteq> d) (rev s)"
  have mem: "d \<in> set s" and a: "a = rev (drop 1 ?r)" and b: "b = rev ?t"
    using assms by (auto simp: rsplit_once_def split: if_splits)
  then have "?r \<noteq> []" by (auto simp: dropWhile_eq_Nil_conv)
  then have "?r = d # drop 1 ?r" using hd_dropWhile [of "\<lambda>c. c \<noteq> d" "rev s"] by (cases ?r) auto
  then have "rev s = ?t @ d # drop 1 ?r" by (metis takeWhile_dropWhile_id)
  then show "s = a @ d # b" using a b by (metis rev_append rev_rev_ident rev.simps(2) append.assoc append_Cons append_Nil)
  show "d \<notin> set b" using b set_takeWhileD [of d "\<lambda>c. c \<noteq> d" "rev s"] by auto
qed

text \<open>A directive for a module is read as written, whatever \<open>=\<close> the module contains.\<close>

lemma parse_directive_written:
  assumes "level_of l = Some lv" "CHR ''='' \<notin> set l" "trim (m @ CHR ''='' # l) = m @ CHR ''='' # l"
  shows "parse_directive (m @ CHR ''='' # l) = Some (m, lv)"
proof -
  have "rsplit_once (CHR ''='') (m @ CHR ''='' # l) = Some (m, l)"
    using assms(2) by (simp add: rsplit_once_def takeWhile_append dropWhile_append3 dropWhile_append)
  then show ?thesis using assms by (simp add: parse_directive_def)
qed

end
