(* ===== verification/LivePipeline.thy ===== *)
theory LivePipeline
  imports Ignition
begin

text \<open>
  The running pipeline: the workers that \<open>src/ignition.rs\<close> spawns, the channels it wires them with and the
  state they share. A step is one turn of one worker, in any order: a worker first runs its start (the
  catch-up, the seeding, the queries of the chain head and the nonce), then takes its inputs from the
  front of its channel and appends its outputs to the next. The database, the gas station, the newest
  block and the blacklists exist once and every worker works on the current ones. Channels are lists
  without a bound: a full one only delays its sender, or drops the path (\<open>try_send\<close>), which the action
  says. A worker that panics takes no further step. The steps are atomic, except that a turn of the
  searcher may find the database in any state at each event, since it is written meanwhile.
\<close>

section \<open>State\<close>

text \<open>A worker that has not run its start is \<open>None\<close>; so the flags of the market worker and the sender.\<close>

record live =
  lv_market :: market_state
  lv_market_on :: bool
  lv_latest :: u64
  lv_events :: "pools_touched list"
  lv_mempool :: mempool_stats
  lv_search :: "search_loop option"
  lv_arbs :: "arb_path list"
  lv_sims :: "simulator_loop option list"
  lv_valid :: "valid_path list"
  lv_sender :: sender_state
  lv_sender_on :: bool

text \<open>What the workers share of the outside.\<close>

record live_env =
  lx_info :: account_info
  lx_order :: diff_order
  lx_search :: search_env
  lx_revm :: revm
  lx_hex_decode :: "string \<Rightarrow> u8 list option"
  lx_rpc_url :: string

definition live_start :: "pipeline \<Rightarrow> live" where
  "live_start p =
    \<lparr> lv_market = pl_market p, lv_market_on = False, lv_latest = sh_latest_block (pl_shared p), lv_events = [],
      lv_mempool = \<lparr> ms_total_seen = 0, ms_dex_swaps = 0, ms_pools_forwarded = 0 \<rparr>, lv_search = None,
      lv_arbs = [], lv_sims = replicate (length (pl_simulators p)) None, lv_valid = [],
      lv_sender = \<lparr> ts_nonce = 0, ts_cached_head = 0, ts_strike_counts = Map.empty,
                    ts_token_strike_counts = Map.empty,
                    ts_blacklisted_paths = sh_blacklisted_paths (pl_shared p),
                    ts_blacklisted_tokens = sh_blacklisted_tokens (pl_shared p), ts_posted = [], ts_persisted = [] \<rparr>,
      lv_sender_on = False \<rparr>"

section \<open>Steps\<close>

text \<open>
  The actions carry the answers of the outside. \<open>Search pre post dbs full\<close> is a turn of the searcher that
  drains \<open>pre\<close> events before and \<open>post\<close> events after the evaluation, finds the database \<open>dbs i\<close> at its
  \<open>i\<close>-th event and the simulator channel full at the path \<open>k\<close> when \<open>full k\<close>.
\<close>

datatype live_action =
    Start_Market "u64 \<Rightarrow> trace_env" "u64 option"
  | Block trace_env block_recv
  | Pending pending_tx
  | Start_Searcher "address list \<Rightarrow> string option list option" "address list"
  | Search nat nat "nat \<Rightarrow> block_state_db" "nat \<Rightarrow> bool"
  | Start_Simulator nat "u64 option"
  | Simulate nat "u64 option option"
  | Start_Sender sender_env "address \<Rightarrow> u64 option" "u64 option"
  | Send sender_env "u64 option option"

definition live_db :: "live \<Rightarrow> block_state_db" where
  "live_db lv = mk_state_db (lv_market lv)"

definition with_db :: "block_state_db \<Rightarrow> live \<Rightarrow> live" where
  "with_db db lv = lv\<lparr>lv_market := (lv_market lv)\<lparr>mk_state_db := db\<rparr>\<rparr>"

text \<open>The shared state as the simulators see it.\<close>

definition live_shared :: "live \<Rightarrow> simulator_shared" where
  "live_shared lv =
    \<lparr> sh_latest_block = lv_latest lv, sh_blacklisted_paths = ts_blacklisted_paths (lv_sender lv),
      sh_blacklisted_tokens = ts_blacklisted_tokens (lv_sender lv), sh_state_db = live_db lv \<rparr>"

definition turn_of ::
    "nat \<Rightarrow> nat \<Rightarrow> (nat \<Rightarrow> block_state_db) \<Rightarrow> (nat \<Rightarrow> bool) \<Rightarrow> pools_touched list \<Rightarrow> search_loop \<Rightarrow>
     (turn \<times> nat) option" where
  "turn_of pre post dbs full events st =
    (let evs = zip events (map dbs [0..<length events]);
         received = (case sl_carry_forward st of None \<Rightarrow> 1 | Some _ \<Rightarrow> 0)
     in if length evs < received + pre + post then None
        else Some (\<lparr> tu_recv = (if received = 0 then None else Some (hd evs)),
                     tu_pre = take pre (drop received evs),
                     tu_post = take post (drop (received + pre) evs),
                     tu_answers = (\<lambda>k. if full k then Send_Full else Send_Ok) \<rparr>, received + pre))"

text \<open>Whether a turn comes to an evaluation; otherwise the events after it stay in the channel.\<close>

definition turn_evaluates :: "search_env \<Rightarrow> searcher \<Rightarrow> turn \<Rightarrow> search_loop \<Rightarrow> bool" where
  "turn_evaluates env sw tu st =
    (case start_turn env sw tu st of
       Some (Some (acc, mp)) \<Rightarrow>
         (case drain env sw (tu_pre tu) acc of
            Some (_, merged, _, _) \<Rightarrow> get_affected_paths (en_shuffle env) sw (en_set_order env merged) mp \<noteq> []
          | None \<Rightarrow> False)
     | _ \<Rightarrow> False)"

definition search_step ::
    "live_env \<Rightarrow> pipeline \<Rightarrow> nat \<Rightarrow> nat \<Rightarrow> (nat \<Rightarrow> block_state_db) \<Rightarrow> (nat \<Rightarrow> bool) \<Rightarrow> live \<Rightarrow> live run" where
  "search_step lx p pre post dbs full lv =
    do {
      st \<leftarrow> lv_search lv;
      let st = st\<lparr>sl_shared_latest := lv_latest lv\<rparr>;
      (tu, taken) \<leftarrow> turn_of pre post dbs full (lv_events lv) st;
      r \<leftarrow> searcher_turn (lx_search lx) (pl_searcher p) tu st;
      (case r of
         Stop sent \<Rightarrow> None
       | Continue st' sent \<Rightarrow>
           Some (lv\<lparr>lv_search := Some st', lv_latest := sl_shared_latest st', lv_arbs := lv_arbs lv @ sent,
                    lv_events := drop (if turn_evaluates (lx_search lx) (pl_searcher p) tu st
                                       then taken + post else taken) (lv_events lv)\<rparr>))
    }"

definition simulate_live :: "live_env \<Rightarrow> pipeline \<Rightarrow> nat \<Rightarrow> u64 option option \<Rightarrow> live \<Rightarrow> live run" where
  "simulate_live lx p i refresh lv =
    (if i < length (lv_sims lv) then
       do {
         lo \<leftarrow> lv_sims lv ! i;
         (arb, arbs) \<leftarrow> (case lv_arbs lv of [] \<Rightarrow> None | arb # arbs \<Rightarrow> Some (arb, arbs));
         let w = (pl_simulators p ! i)\<lparr>si_gas_station := mk_gas_station (lv_market lv)\<rparr>;
         ((lo, sh), r) \<leftarrow> simulator_step (lx_revm lx) (en_math (lx_search lx)) w refresh arb (lo, live_shared lv);
         Some (with_db (sh_state_db sh)
           (lv\<lparr>lv_sims := (lv_sims lv)[i := Some lo], lv_latest := sh_latest_block sh, lv_arbs := arbs,
               lv_valid := lv_valid lv @ (case r of None \<Rightarrow> [] | Some v \<Rightarrow> [v])\<rparr>))
       }
     else None)"

definition live_sender :: "pipeline \<Rightarrow> live \<Rightarrow> tx_sender" where
  "live_sender p lv = (pl_sender p)\<lparr>tw_gas_station := mk_gas_station (lv_market lv)\<rparr>"

definition send_live :: "pipeline \<Rightarrow> sender_env \<Rightarrow> u64 option option \<Rightarrow> live \<Rightarrow> live run" where
  "send_live p env refresh lv =
    (if lv_sender_on lv then
       case lv_valid lv of
         [] \<Rightarrow> None
       | v # vs \<Rightarrow> do {
           st \<leftarrow> sender_step env (live_sender p lv) refresh v (lv_sender lv);
           Some (lv\<lparr>lv_sender := st, lv_valid := vs\<rparr>)
         }
     else None)"

fun live_step :: "live_env \<Rightarrow> pipeline \<Rightarrow> live_action \<Rightarrow> live \<Rightarrow> live run" where
  "live_step lx p (Start_Market node head) lv =
    (if lv_market_on lv then None
     else Some (with_db (catch_up (lx_info lx) (lx_order lx) node (pl_last_synced_block p) head (live_db lv))
                  (lv\<lparr>lv_market_on := True\<rparr>)))"
| "live_step lx p (Block node r) lv =
    (if lv_market_on lv
     then (case market_step (lx_info lx) (lx_order lx) node r (lv_market lv) of
             (event, st) \<Rightarrow> Some (lv\<lparr>lv_market := st,
                 lv_events := lv_events lv @ (case event of None \<Rightarrow> [] | Some e \<Rightarrow> [e])\<rparr>))
     else None)"
| "live_step lx p (Pending tx) lv =
    (case pl_mempool p of
       None \<Rightarrow> None
     | Some config \<Rightarrow> do {
         (event, stats) \<leftarrow> mempool_step config tx (lv_mempool lv);
         Some (lv\<lparr>lv_mempool := stats, lv_events := lv_events lv @ (case event of None \<Rightarrow> [] | Some e \<Rightarrow> [e])\<rparr>)
       })"
| "live_step lx p (Start_Searcher rpc order) lv =
    (if lv_search lv \<noteq> None then None
     else do {
       (db, est) \<leftarrow> seed_initial_rates (lx_search lx) (lx_hex_decode lx) (lx_info lx) rpc (lx_rpc_url lx) order
                     (pl_searcher p) (live_db lv, pl_estimator p);
       Some (with_db db
         (lv\<lparr>lv_search := Some \<lparr> sl_latest_block = 0, sl_carry_forward = None, sl_shared_latest = lv_latest lv,
                                 sl_est = est, sl_cache = pl_rate_cache p \<rparr>\<rparr>))
     })"
| "live_step lx p (Search pre post dbs full) lv = search_step lx p pre post dbs full lv"
| "live_step lx p (Start_Simulator i head) lv =
    (if i < length (lv_sims lv) \<and> lv_sims lv ! i = None
     then Some (lv\<lparr>lv_sims := (lv_sims lv)[i := Some (simulator_start head)]\<rparr>) else None)"
| "live_step lx p (Simulate i refresh) lv = simulate_live lx p i refresh lv"
| "live_step lx p (Start_Sender env get_transaction_count head) lv =
    (if lv_sender_on lv then None
     else Some (lv\<lparr>lv_sender_on := True,
                   lv_sender := sender_start env (live_sender p lv) get_transaction_count head
                     (ts_blacklisted_paths (lv_sender lv)) (ts_blacklisted_tokens (lv_sender lv))\<rparr>))"
| "live_step lx p (Send env refresh) lv = send_live p env refresh lv"

text \<open>The states that some interleaving of the workers reaches.\<close>

inductive live_reaches :: "live_env \<Rightarrow> pipeline \<Rightarrow> live \<Rightarrow> live \<Rightarrow> bool" where
  stay: "live_reaches lx p lv lv"
| step: "live_reaches lx p lv0 lv \<Longrightarrow> live_step lx p act lv = Some lv' \<Longrightarrow> live_reaches lx p lv0 lv'"

section \<open>The shared database\<close>

text \<open>The pools tracked stay, and a cached slot stays cached (its value may be refreshed).\<close>

definition grown :: "block_state_db \<Rightarrow> block_state_db \<Rightarrow> bool" where
  "grown db db' \<longleftrightarrow> db_tracked_pools db' = db_tracked_pools db \<and>
     (\<forall>a s. slot_of db a s \<noteq> None \<longrightarrow> slot_of db' a s \<noteq> None)"

lemma grown_refl [simp]: "grown db db"
  by (simp add: grown_def)

lemma grown_trans: "grown db db1 \<Longrightarrow> grown db1 db2 \<Longrightarrow> grown db db2"
  by (simp add: grown_def)

lemma grown_fold: "(\<And>x db. grown db (f x db)) \<Longrightarrow> grown db (fold f xs db)"
  by (induction xs arbitrary: db) (simp, metis fold_simps(2) grown_trans)

lemma grown_update_slot: "grown db (update_slot d a s v db)"
  by (auto simp: grown_def)

lemma grown_set_block: "grown db (set_block n db)"
  by (auto simp: grown_def) (simp_all add: set_block_def)

lemma grown_write_back: "grown db (sim_write_back sim db)"
  unfolding grown_def slot_of_write_back by (auto simp: sim_write_back_def split: option.split)

lemma grown_apply_touched: "grown (fst st) (fst (apply_touched info ord diffs a st))"
  by (auto simp: apply_touched_def Let_def intro: grown_fold grown_update_slot split: prod.split option.split)

lemma grown_apply_block: "grown db (fst (apply_block info ord n diffs db))"
proof -
  have "grown (fst st) (fst (fold (apply_touched info ord diffs) as st))" for as st
  proof (induction as arbitrary: st)
    case (Cons a as)
    show ?case using grown_trans [OF grown_apply_touched Cons.IH] by simp
  qed simp
  from this [of "(set_block n db, [])"] have "grown (set_block n db) (fst (apply_block info ord n diffs db))"
    by (simp add: apply_block_def)
  then show ?thesis by (rule grown_trans [OF grown_set_block])
qed

lemma grown_catch_up: "grown db (catch_up info ord node synced head db)"
proof -
  have "grown db (catch_up_block info ord node tracked bn db)" for tracked bn db
    by (simp add: catch_up_block_def grown_apply_block split: sum.split)
  then show ?thesis by (simp add: catch_up_def Let_def grown_fold split: option.split)
qed

lemma grown_market_step:
  assumes "market_step info ord node r st = (event, st')"
  shows "grown (mk_state_db st) (mk_state_db st')"
proof -
  have "grown db db'" if "apply_block info ord n diffs db = (db', touched)" for n diffs db db' touched
    using grown_apply_block [of db info ord n diffs] that by simp
  then show ?thesis
    using assms by (auto simp: market_step_def Let_def split: block_recv.splits pipeline_event.splits
        sum.splits prod.splits if_splits)
qed

lemma grown_seed:
  assumes "seed_initial_rates env hex info rpc url order sw (db, est) = Some (db', est')"
  shows "grown db db'"
proof -
  have "grown db (store_reserves hex info r db)" for r db
    by (simp add: store_reserves_def Let_def grown_update_slot split: option.split)
  then have "grown db (seed_chunk hex info rpc c db)" for c db
    by (simp add: seed_chunk_def grown_fold split: option.split)
  then have "grown db (fold (seed_chunk hex info rpc) cs db)" for cs
    by (rule grown_fold)
  then show ?thesis using assms by (auto simp: seed_initial_rates_def Let_def split: if_splits bind_splits)
qed

lemma grown_simulator_step:
  assumes "simulator_step rv vm w refresh arb (lo, sh) = Some ((lo', sh'), r)"
  shows "grown (sh_state_db sh) (sh_state_db sh')"
proof -
  have "grown db db'" if "simulate_and_optimize rv w arb db = Some (r', db')" for db db' r'
    using that by (rule simulate_and_optimize_cases) (simp_all add: grown_write_back)
  then show ?thesis
    using assms by (auto simp: simulator_step_def Let_def split: if_splits bind_splits option.splits)
qed

section \<open>What the workers keep\<close>

lemma strike_token_mono: "ts_blacklisted_tokens st \<subseteq> ts_blacklisted_tokens (strike_token w i tok st)"
  by (auto simp: strike_token_def Let_def)

lemma strike_tokens_mono: "ts_blacklisted_tokens st \<subseteq> ts_blacklisted_tokens (fold (strike_token w i) toks st)"
proof (induction toks arbitrary: st)
  case (Cons t toks)
  show ?case using Cons.IH [of "strike_token w i t st"] strike_token_mono [of st w i t] by simp
qed simp

lemma sender_step_mono:
  assumes "sender_step env w refresh v st = Some st'"
  shows "ts_blacklisted_tokens st \<subseteq> ts_blacklisted_tokens st'"
  using assms
proof (cases rule: sender_step_cases)
  case (sent max_fee prio providers r st1)
  have "ts_blacklisted_tokens st1 = ts_blacklisted_tokens st"
    using try_providers_posts [OF sent(4,5)] by (simp add: same_lists_def)
  moreover have "ts_blacklisted_tokens (strike_path w i ph st1) = ts_blacklisted_tokens st1" for i ph
    by (simp add: strike_path_def Let_def)
  then have "ts_blacklisted_tokens st1 \<subseteq> ts_blacklisted_tokens (fold (strike_token w i) toks (strike_path w j ph st1))"
    for i j ph toks
    using strike_tokens_mono [of "strike_path w j ph st1" w i toks] by simp
  then have "ts_blacklisted_tokens st1 \<subseteq> ts_blacklisted_tokens (handle_error w v e st1)" for e
    by (simp add: handle_error_def Let_def)
  ultimately show ?thesis using sent(6) by (simp split: sum.splits)
qed simp_all

lemma sender_start_lists [simp]:
  "ts_blacklisted_tokens (sender_start env w answers head bp bt) = bt"
  "ts_posted (sender_start env w answers head bp bt) = []"
  by (simp_all add: sender_start_def seed_nonce_from_rpc_def split: sum.split option.split)

lemma searcher_turn_sent:
  assumes "searcher_turn env sw tu st = Some (Continue st' sent)" "sort_desc_ok (en_sort_desc env)"
  shows "sl_shared_latest st \<le> sl_shared_latest st'"
    and "a \<in> set sent \<Longrightarrow> ap_path a \<in> set (sw_all_paths sw) \<and> ap_block_number a \<le> sl_shared_latest st'"
proof -
  have "sl_shared_latest st \<le> sl_shared_latest st' \<and>
    (\<forall>a \<in> set sent. ap_path a \<in> set (sw_all_paths sw) \<and> ap_block_number a \<le> sl_shared_latest st')"
    using assms(1)
  proof (rule searcher_turn_cases)
    fix latest0 merged0 final0 est0 mp latest merged final est
    assume sh: "sl_shared_latest st' = max (sl_shared_latest st) final"
      and rest: "sent = [] \<and> sl_carry_forward st' = None \<and> sl_latest_block st' = latest \<or>
       (\<exists>is results cache latest' post final' est'.
          evaluate_paths_parallel (en_sort_desc env) sw est is final (sl_cache st) = Some (results, cache) \<and>
          drain env sw (tu_post tu) (latest, {}, final, est) = Some (latest', post, final', est') \<and>
          sl_latest_block st' = latest' \<and>
          (if tu_post tu \<noteq> [] \<and> final < final'
           then sent = [] \<and> sl_carry_forward st' = Some (set (en_set_order env merged) \<union> post, final')
           else set sent \<subseteq> set results \<and> sl_carry_forward st' = None))"
    from rest consider "sent = []" | "is" results cache where
        "evaluate_paths_parallel (en_sort_desc env) sw est is final (sl_cache st) = Some (results, cache)"
        "set sent \<subseteq> set results"
      by (metis (no_types, lifting) empty_subsetI list.set(1))
    then show ?thesis
    proof cases
      case 2
      have "ap_block_number a = final \<and> ap_path a \<in> set (sw_all_paths sw)" if "a \<in> set sent" for a
        using evaluate_paths_sound [OF 2(1) assms(2)] 2(2) that by blast
      then show ?thesis using sh by simp
    qed (simp add: sh)
  qed
  then show "sl_shared_latest st \<le> sl_shared_latest st'"
    and "a \<in> set sent \<Longrightarrow> ap_path a \<in> set (sw_all_paths sw) \<and> ap_block_number a \<le> sl_shared_latest st'" by blast+
qed

section \<open>What holds in every reachable state\<close>

text \<open>A path on its way to the sender: what the searcher and the simulator have checked of it.\<close>

definition vetted :: "pipeline \<Rightarrow> valid_path \<Rightarrow> bool" where
  "vetted p v \<longleftrightarrow>
     ap_path (vp_arb v) \<in> set (sw_all_paths (pl_searcher p)) \<and> vp_amount_in v < vp_amount_out v \<and>
     (\<exists>w \<in> set (pl_simulators p). \<not> si_sim_mode w \<and> sc_min_profit_wei (si_config w) \<le> vp_net_profit v \<and>
        flash_fee_of (si_config w) (vp_amount_in v) < vp_amount_out v - vp_amount_in v) \<and>
     (\<forall>s \<in> set (path_steps (ap_path (vp_arb v))).
        st_token_in s \<notin> sh_blacklisted_tokens (pl_shared p) \<and> st_token_out s \<notin> sh_blacklisted_tokens (pl_shared p))"

text \<open>A posted transaction: signed by the configured sender for a vetted path, outside a dry run.\<close>

definition trade_ok :: "pipeline \<Rightarrow> u8 list \<Rightarrow> bool" where
  "trade_ok p raw \<longleftrightarrow> \<not> tc_dry_run (tw_config (pl_sender p)) \<and>
     (\<exists>env w v n tx. tw_config w = tw_config (pl_sender p) \<and> signed_for env w v n tx raw \<and> vetted p v \<and>
        tc_min_submit_profit_wei (tw_config (pl_sender p)) \<le> vp_net_profit v)"

definition live_ok :: "pipeline \<Rightarrow> live \<Rightarrow> bool" where
  "live_ok p lv \<longleftrightarrow>
     grown (mk_state_db (pl_market p)) (live_db lv) \<and> length (lv_sims lv) = length (pl_simulators p) \<and>
     sh_blacklisted_tokens (pl_shared p) \<subseteq> ts_blacklisted_tokens (lv_sender lv) \<and>
     (\<forall>a \<in> set (lv_arbs lv). ap_path a \<in> set (sw_all_paths (pl_searcher p)) \<and> ap_block_number a \<le> lv_latest lv) \<and>
     (\<forall>v \<in> set (lv_valid lv). vetted p v) \<and> (\<forall>raw \<in> set (ts_posted (lv_sender lv)). trade_ok p raw)"

lemma live_start_ok: "live_ok p (live_start p)"
  by (simp add: live_ok_def live_start_def live_db_def)

lemma live_ok_channels:
  assumes "live_ok p lv" "grown (live_db lv) (live_db lv')"
    and "length (lv_sims lv') = length (lv_sims lv)"
    and "lv_sender lv' = lv_sender lv \<or> ts_posted (lv_sender lv') = [] \<and>
           ts_blacklisted_tokens (lv_sender lv') = ts_blacklisted_tokens (lv_sender lv)"
    and "lv_arbs lv' = lv_arbs lv" "lv_latest lv' = lv_latest lv" "lv_valid lv' = lv_valid lv"
  shows "live_ok p lv'"
  using assms grown_trans by (auto simp: live_ok_def)

lemma search_step_ok:
  assumes "search_step lx p pre post dbs full lv = Some lv'" "live_ok p lv" "sort_desc_ok (en_sort_desc (lx_search lx))"
  shows "live_ok p lv'"
proof -
  from assms(1) obtain st tu taken st' sent events where
    turn: "searcher_turn (lx_search lx) (pl_searcher p) tu (st\<lparr>sl_shared_latest := lv_latest lv\<rparr>) = Some (Continue st' sent)"
    and lv': "lv' = lv\<lparr>lv_search := Some st', lv_latest := sl_shared_latest st', lv_arbs := lv_arbs lv @ sent,
                       lv_events := events\<rparr>"
    by (auto simp: search_step_def Let_def split: bind_splits turn_result.splits)
  have "lv_latest lv \<le> sl_shared_latest st'"
    "\<forall>a \<in> set sent. ap_path a \<in> set (sw_all_paths (pl_searcher p)) \<and> ap_block_number a \<le> sl_shared_latest st'"
    using searcher_turn_sent [OF turn assms(3)] by auto
  then show ?thesis
    using assms(2) by (auto simp: lv' live_ok_def live_db_def intro: order_trans)
qed

lemma simulator_step_vetted:
  assumes "simulator_step rv vm w refresh arb (lo, sh) = Some ((lo', sh'), Some v)"
  shows "vp_arb v = arb" "\<not> si_sim_mode w" "sc_min_profit_wei (si_config w) \<le> vp_net_profit v"
    "vp_amount_in v < vp_amount_out v" "flash_fee_of (si_config w) (vp_amount_in v) < vp_amount_out v - vp_amount_in v"
    "s \<in> set (path_steps (ap_path arb)) \<Longrightarrow>
       st_token_in s \<notin> sh_blacklisted_tokens sh \<and> st_token_out s \<notin> sh_blacklisted_tokens sh"
proof -
  show "vp_arb v = arb" "\<not> si_sim_mode w" "sc_min_profit_wei (si_config w) \<le> vp_net_profit v"
    using simulator_step_spec [OF assms] by simp_all
  have "\<not> is_blacklisted sh (ap_path arb)" using simulator_step_spec [OF assms] by simp
  then show "s \<in> set (path_steps (ap_path arb)) \<Longrightarrow>
       st_token_in s \<notin> sh_blacklisted_tokens sh \<and> st_token_out s \<notin> sh_blacklisted_tokens sh"
    by (auto simp: is_blacklisted_def list_ex_iff)
  obtain db where s: "simulate_and_optimize rv w arb (sh_state_db sh) = Some (Some v, db)"
    using assms by (auto simp: simulator_step_def Let_def split: if_splits bind_splits option.splits)
  then obtain db' a out where "settle w db' arb a out = Some (Some v)"
    by (cases rule: simulate_and_optimize_cases) auto
  note e = settle_Some [OF this]
  show "vp_amount_in v < vp_amount_out v" "flash_fee_of (si_config w) (vp_amount_in v) < vp_amount_out v - vp_amount_in v"
    using e by auto
qed

lemma simulate_live_ok:
  assumes "simulate_live lx p i refresh lv = Some lv'" "live_ok p lv"
  shows "live_ok p lv'"
proof -
  let ?w = "(pl_simulators p ! i)\<lparr>si_gas_station := mk_gas_station (lv_market lv)\<rparr>"
  from assms(1) obtain lo arb arbs lo' sh r where i: "i < length (lv_sims lv)" and arbs: "lv_arbs lv = arb # arbs"
    and s: "simulator_step (lx_revm lx) (en_math (lx_search lx)) ?w refresh arb (lo, live_shared lv) = Some ((lo', sh), r)"
    and lv': "lv' = with_db (sh_state_db sh)
           (lv\<lparr>lv_sims := (lv_sims lv)[i := Some lo'], lv_latest := sh_latest_block sh, lv_arbs := arbs,
               lv_valid := lv_valid lv @ (case r of None \<Rightarrow> [] | Some v \<Rightarrow> [v])\<rparr>)"
    by (auto simp: simulate_live_def Let_def split: if_splits bind_splits list.splits)
  have mem: "pl_simulators p ! i \<in> set (pl_simulators p)" using i assms(2) by (simp add: live_ok_def)
  have db: "grown (live_db lv) (sh_state_db sh)" using grown_simulator_step [OF s] by (simp add: live_shared_def)
  have latest: "lv_latest lv \<le> sh_latest_block sh" using simulator_step_spec [OF s] by (simp add: live_shared_def)
  have v: "vetted p v" if "r = Some v" for v
  proof -
    note c = simulator_step_vetted [OF s [unfolded that]]
    have "\<forall>s \<in> set (path_steps (ap_path arb)).
        st_token_in s \<notin> sh_blacklisted_tokens (pl_shared p) \<and> st_token_out s \<notin> sh_blacklisted_tokens (pl_shared p)"
      using c(6) assms(2) by (auto simp: live_shared_def live_ok_def)
    then show ?thesis using c(1-5) mem assms(2) arbs by (auto simp: vetted_def live_ok_def)
  qed
  show ?thesis
    using assms(2) db latest v arbs grown_trans
    by (auto simp: lv' live_ok_def with_db_def live_db_def intro: order_trans split: option.split)
qed

lemma send_live_ok:
  assumes "send_live p env refresh lv = Some lv'" "live_ok p lv"
  shows "live_ok p lv'"
proof -
  from assms(1) obtain v vs st where v: "lv_valid lv = v # vs"
    and s: "sender_step env (live_sender p lv) refresh v (lv_sender lv) = Some st"
    and lv': "lv' = lv\<lparr>lv_sender := st, lv_valid := vs\<rparr>"
    by (auto simp: send_live_def split: if_splits list.splits bind_splits)
  have config: "tw_config (live_sender p lv) = tw_config (pl_sender p)" by (simp add: live_sender_def)
  have vet: "vetted p v" using assms(2) v by (simp add: live_ok_def)
  have "trade_ok p raw" if raw: "raw \<in> set (ts_posted st)" "raw \<notin> set (ts_posted (lv_sender lv))" for raw
  proof -
    have "live_checks env (live_sender p lv) refresh v (lv_sender lv)" using sender_step_posts [OF s] raw by auto
    moreover obtain n tx where "signed_for env (live_sender p lv) v n tx raw"
      using sender_step_posts [OF s] raw by (auto simp: posts_at_most_one_def)
    ultimately show ?thesis using config vet unfolding trade_ok_def live_checks_def by metis
  qed
  then show ?thesis
    using assms(2) sender_step_mono [OF s] v by (auto simp: lv' live_ok_def live_db_def)
qed

lemma live_step_ok:
  assumes "live_step lx p act lv = Some lv'" "live_ok p lv" "sort_desc_ok (en_sort_desc (lx_search lx))"
  shows "live_ok p lv'"
proof (cases act)
  case (Start_Market node head)
  have "lv' = with_db (catch_up (lx_info lx) (lx_order lx) node (pl_last_synced_block p) head (live_db lv))
                (lv\<lparr>lv_market_on := True\<rparr>)"
    using assms(1) unfolding Start_Market by (simp split: if_splits)
  then show ?thesis
    using grown_catch_up by (intro live_ok_channels [OF assms(2)]) (simp_all add: with_db_def live_db_def)
next
  case (Block node r)
  then obtain event st where m: "market_step (lx_info lx) (lx_order lx) node r (lv_market lv) = (event, st)"
    and lv': "lv' = lv\<lparr>lv_market := st, lv_events := lv_events lv @ (case event of None \<Rightarrow> [] | Some e \<Rightarrow> [e])\<rparr>"
    using assms(1) by (auto split: if_splits prod.splits)
  show ?thesis
    using grown_market_step [OF m] by (intro live_ok_channels [OF assms(2)]) (simp_all add: lv' live_db_def)
next
  case (Pending tx)
  then show ?thesis using assms(1)
    by (intro live_ok_channels [OF assms(2)]) (auto simp: live_db_def split: option.splits bind_splits)
next
  case (Start_Searcher rpc order)
  then obtain db est l where seed: "seed_initial_rates (lx_search lx) (lx_hex_decode lx) (lx_info lx) rpc (lx_rpc_url lx) order
      (pl_searcher p) (live_db lv, pl_estimator p) = Some (db, est)" and lv': "lv' = with_db db (lv\<lparr>lv_search := Some l\<rparr>)"
    using assms(1) by (auto split: if_splits bind_splits)
  show ?thesis
    using grown_seed [OF seed] by (intro live_ok_channels [OF assms(2)]) (simp_all add: lv' with_db_def live_db_def)
next
  case (Search pre post dbs full)
  then show ?thesis using assms search_step_ok by simp
next
  case (Start_Simulator i head)
  then show ?thesis using assms(1)
    by (intro live_ok_channels [OF assms(2)]) (auto simp: live_db_def split: if_splits)
next
  case (Simulate i refresh)
  then show ?thesis using assms simulate_live_ok by simp
next
  case (Start_Sender env answers head)
  then show ?thesis using assms(1)
    by (intro live_ok_channels [OF assms(2)]) (auto simp: live_db_def split: if_splits)
next
  case (Send env refresh)
  then show ?thesis using assms send_live_ok by simp
qed

lemma live_reaches_ok:
  assumes "live_reaches lx p lv0 lv" "live_ok p lv0" "sort_desc_ok (en_sort_desc (lx_search lx))"
  shows "live_ok p lv"
  using assms by (induction rule: live_reaches.induct) (auto intro: live_step_ok)

section \<open>A run that trades\<close>

fun live_run :: "live_env \<Rightarrow> pipeline \<Rightarrow> live_action list \<Rightarrow> live \<Rightarrow> live run" where
  "live_run lx p [] lv = Some lv"
| "live_run lx p (act # acts) lv = do { lv \<leftarrow> live_step lx p act lv; live_run lx p acts lv }"

lemma live_run_snoc:
  "live_run lx p (acts @ [act]) lv = Option.bind (live_run lx p acts lv) (live_step lx p act)"
proof (induction acts arbitrary: lv)
  case Nil
  show ?case by (cases "live_step lx p act lv") simp_all
next
  case (Cons a acts)
  then show ?case by (cases "live_step lx p a lv") simp_all
qed

lemma live_reaches_run: "live_reaches lx p lv0 lv \<Longrightarrow> \<exists>acts. live_run lx p acts lv0 = Some lv"
proof (induction rule: live_reaches.induct)
  case (stay lx p lv)
  have "live_run lx p [] lv = Some lv" by simp
  then show ?case ..
next
  case (step lx p lv0 lv act lv')
  then obtain acts where "live_run lx p acts lv0 = Some lv" by blast
  then have "live_run lx p (acts @ [act]) lv0 = Some lv'" using step(2) by (simp add: live_run_snoc)
  then show ?case ..
qed

lemma live_run_reaches: "live_run lx p acts lv0 = Some lv \<Longrightarrow> live_reaches lx p lv0 lv"
proof (induction acts arbitrary: lv rule: rev_induct)
  case Nil
  then show ?case by (simp add: live_reaches.stay)
next
  case (snoc act acts)
  then obtain lv1 where "live_run lx p acts lv0 = Some lv1" "live_step lx p act lv1 = Some lv"
    by (auto simp: live_run_snoc split: bind_splits)
  then show ?case using snoc.IH live_reaches.step by blast
qed

text \<open>
  One cycle over the pools 1 and 8 whose estimated rate is 2, the node of the market example with a swap
  of the pool 1, the contract of the simulator example and the signer of the sender example.
\<close>

definition demo_path :: swap_path where
  "demo_path = \<lparr> path_steps = [sample_step 1 1 2, sample_step 8 2 1], path_hash = 5 \<rparr>"

definition demo_pipeline :: pipeline where
  "demo_pipeline =
    \<lparr> pl_market = sample_market, pl_last_synced_block = 0,
      pl_searcher = register_paths [demo_path] (searcher_new searcher_config_default),
      pl_estimator = put_rate 1 True (2 * RATE_SCALE) (put_rate 8 False RATE_SCALE estimator_new),
      pl_rate_cache = Map.empty, pl_simulators = [sample_worker],
      pl_shared = \<lparr> sh_latest_block = 0, sh_blacklisted_paths = {}, sh_blacklisted_tokens = {7},
                    sh_state_db = mk_state_db sample_market \<rparr>,
      pl_sender = tx_sample_worker\<lparr>tw_config := (tw_config tx_sample_worker)\<lparr>tc_min_submit_profit_wei := 1\<rparr>\<rparr>,
      pl_toxic_tokens_path = [], pl_mempool = None \<rparr>"

definition demo_env :: live_env where
  "demo_env =
    \<lparr> lx_info = env_default_info silent_env, lx_order = sample_order, lx_search = sample_env, lx_revm = sample_revm,
      lx_hex_decode = (\<lambda>_. None), lx_rpc_url = '''' \<rparr>"

definition demo_signer :: sender_env where
  "demo_signer = tx_sample_env (Json None (Some ''0x'') '''') (Json None (Some ''0x1'') '''')"

definition demo_actions :: "live_action list" where
  "demo_actions =
    [Start_Market (\<lambda>_. sample_node) None, Start_Searcher (\<lambda>_. None) [], Start_Simulator 0 None,
     Start_Sender demo_signer (\<lambda>_. None) None, Block sample_node (Event (NewBlock 9 1 0 0 1)),
     Search 0 0 (\<lambda>_. state_db_new 9) (\<lambda>_. False), Simulate 0 None, Send demo_signer None]"

lemma demo_market:
  "\<exists>db. market_step (env_default_info silent_env) sample_order sample_node (Event (NewBlock 9 1 0 0 1)) sample_market
     = (Some \<lparr> pt_block_number = 9, pt_touched_pools = [1] \<rparr>, sample_market\<lparr>mk_state_db := db\<rparr>)"
proof -
  let ?db = "mk_state_db sample_market" and ?info = "env_default_info silent_env"
  let ?log = "\<lparr> le_address = Some ''1'', le_topics = Some [Some V2_SYNC_U112_TOPIC] \<rparr>"
  have client: "te_client sample_node = Inr ()" and order: "\<forall>m. enumerates (te_order sample_node m) m"
    and logs: "fetch_logs sample_node 9 [0, 1, 2] '''' = Inr [?log]"
    by (simp_all add: sample_node_def enumerates_sorted)
  have pool: "log_pool sample_node ?log = Some 1"
    by (simp add: log_pool_def sample_node_def parse_address_def pad40_def from_be_bytes_be_bytes)
  have "topic0_of ?log \<noteq> V3_SWAP_TOPIC" by code_simp
  moreover have "get_storage_at_raw sample_node 1 8 = Some 42"
    by (simp add: get_storage_at_raw_def sample_node_def parse_u256_def pad64_def from_be_bytes_be_bytes)
  ultimately have "refreshed_slot sample_node [?log] 1 8 = Some 42"
    using pool by (simp add: refreshed_slot_def slot_answers_def)
  then have "{a \<in> db_tracked_pools ?db. refreshed_slot sample_node [?log] a \<noteq> Map.empty} = {1}"
    by (auto simp: sample_market_def track_pool_def state_db_new_def)
  then obtain diffs db' touched where t: "trace_block_diffs sample_node 9 (db_tracked_pools ?db) = Inr diffs"
    "apply_block ?info sample_order 9 diffs ?db = (db', touched)" "distinct touched" "set touched = {1}"
    using apply_block_traced [OF sample_order_ok client logs order, of ?db ?info] by metis
  have "touched = [1]" using t(3,4) by (cases touched; cases "tl touched") auto
  moreover have "update_from_block 1 0 0 (mk_gas_station sample_market) = mk_gas_station sample_market"
    by (simp add: update_from_block_def sample_market_def)
  ultimately show ?thesis using t(1,2)
    by (intro exI [of _ db']) (simp add: market_step_def Let_def)
qed

definition demo_arb :: arb_path where
  "demo_arb = arb_of 9 demo_path (2 * RATE_SCALE)"

definition demo_valid :: valid_path where
  "demo_valid = \<lparr> vp_arb = demo_arb, vp_amount_in = 1000000, vp_amount_out = 1500000, vp_gas_cost = 160000,
                  vp_net_profit = 339500 \<rparr>"

lemma demo_search:
  "\<exists>st'. searcher_turn sample_env (pl_searcher demo_pipeline)
      \<lparr> tu_recv = Some (\<lparr> pt_block_number = 9, pt_touched_pools = [1] \<rparr>, db), tu_pre = [], tu_post = [],
        tu_answers = (\<lambda>_. Send_Ok) \<rparr>
      \<lparr> sl_latest_block = 0, sl_carry_forward = None, sl_shared_latest = 0, sl_est = pl_estimator demo_pipeline,
        sl_cache = Map.empty \<rparr> = Some (Continue st' [demo_arb]) \<and> sl_shared_latest st' = 9"
proof -
  let ?sw = "pl_searcher demo_pipeline" and ?est = "pl_estimator demo_pipeline"
  have meta: "sw_pool_meta ?sw = Map.empty" "sw_all_paths ?sw = [demo_path]"
    by (simp_all add: demo_pipeline_def register_paths_def searcher_new_def)
  have rate: "evaluate_path ?est demo_path = 2 * RATE_SCALE"
    by (simp add: demo_pipeline_def demo_path_def evaluate_path_def step_rate_def zero_for_one_def put_rate_def
        sample_step_def RATE_SCALE_def mul_div_def checked_mul_def Let_def)
  have affected: "get_affected_paths (en_shuffle sample_env) ?sw [1] False = [0]"
    by (simp add: get_affected_paths_def collect_indices_def demo_pipeline_def register_paths_def searcher_new_def
        demo_path_def sample_step_def push_index_def add_unseen_def sample_env_def searcher_config_default_def)
  have one: "evaluate_one ?sw ?est 9 0 Map.empty = Some (Some demo_arb, rate_insert 5 (2 * RATE_SCALE) 9 Map.empty)"
    using meta rate RATE_SCALE_pos
    by (simp add: evaluate_one_def rate_get_fresh_def Let_def demo_arb_def) (simp add: demo_path_def RATE_SCALE_def)
  show ?thesis
    using meta affected one
    by (simp add: searcher_turn_def start_turn_def event_block_def next_latest_def evaluate_paths_parallel_def
        sample_env_def Let_def)
qed


lemma demo_simulation:
  "\<exists>lo' sh'. simulator_step sample_revm vm sample_worker None demo_arb
     (simulator_start None, \<lparr> sh_latest_block = 9, sh_blacklisted_paths = {}, sh_blacklisted_tokens = {7},
                             sh_state_db = db \<rparr>) = Some ((lo', sh'), Some demo_valid)"
proof -
  have arb: "ap_path demo_arb = demo_path" "ap_block_number demo_arb = 9" "ap_gas_estimate demo_arb = 160000"
    by (simp_all add: demo_arb_def arb_of_def hop_gas_def demo_path_def sample_step_def)
  have opt: "optimize_input_with_db sample_revm (quoter_with_bytecode [1]) p 1000000 8000000 2 d
               = ((1000000, 1500000), d)" for p d
    by (simp add: optimize_input_with_db_def probe_def sample_quote probe_profit_def improve_def Let_def)
  have gas: "estimate_gas_cost_wei (si_gas_station sample_worker) 160000 = Some 160000"
    by (simp add: estimate_gas_cost_wei_def predict_next_base_fee_def calc_next_base_fee_def sample_worker_def
        saturating_mul_def)
  have settle: "settle sample_worker db' demo_arb 1000000 1500000 = Some (Some demo_valid)" for db'
    using gas
    by (simp add: settle_def arb demo_valid_def flash_fee_of_def profit_native_def sample_worker_def sample_config_def
        demo_path_def sample_step_def)
  have sel: "si_quoter sample_worker = quoter_with_bytecode [1]" "si_config sample_worker = sample_config"
      "sc_min_input sample_config = 1000000" "sc_max_input sample_config = 8000000" "sc_optimization_steps sample_config = 2"
    by (simp_all add: sample_worker_def sample_config_def)
  have "\<exists>db'. simulate_and_optimize sample_revm sample_worker demo_arb db = Some (Some demo_valid, db')"
    unfolding simulate_and_optimize_def Let_def sel sample_quote by (simp add: opt settle)
  then show ?thesis
    by (auto simp: simulator_step_def simulator_start_def enter_block_def is_stale_def is_blacklisted_def arb
        demo_path_def sample_step_def sample_worker_def [THEN arg_cong, of si_sim_mode] sel sample_config_def Let_def)
qed

text \<open>The states of the run, and the states of the searcher and the sender before their first turn.\<close>

definition demo_live ::
    "market_state \<Rightarrow> bool \<Rightarrow> u64 \<Rightarrow> pools_touched list \<Rightarrow> search_loop option \<Rightarrow> arb_path list \<Rightarrow>
     simulator_loop option \<Rightarrow> valid_path list \<Rightarrow> sender_state \<Rightarrow> bool \<Rightarrow> live" where
  "demo_live m m_on latest es se arbs sim vs st st_on =
    \<lparr> lv_market = m, lv_market_on = m_on, lv_latest = latest, lv_events = es,
      lv_mempool = \<lparr> ms_total_seen = 0, ms_dex_swaps = 0, ms_pools_forwarded = 0 \<rparr>, lv_search = se,
      lv_arbs = arbs, lv_sims = [sim], lv_valid = vs, lv_sender = st, lv_sender_on = st_on \<rparr>"

definition demo_loop :: search_loop where
  "demo_loop = \<lparr> sl_latest_block = 0, sl_carry_forward = None, sl_shared_latest = 0,
                 sl_est = pl_estimator demo_pipeline, sl_cache = Map.empty \<rparr>"

definition demo_idle :: sender_state where
  "demo_idle =
    \<lparr> ts_nonce = 0, ts_cached_head = 0, ts_strike_counts = Map.empty, ts_token_strike_counts = Map.empty,
      ts_blacklisted_paths = {}, ts_blacklisted_tokens = {7}, ts_posted = [], ts_persisted = [] \<rparr>"

lemma demo_send:
  "sender_step demo_signer (pl_sender demo_pipeline) None demo_valid demo_idle =
   Some (demo_idle\<lparr>ts_nonce := 1, ts_posted := [[0]]\<rparr>)"
proof -
  have "\<exists>a b. fees_for (pl_sender demo_pipeline) demo_valid = Some (a, b)"
    by (simp add: fees_for_def predict_next_base_fee_def calc_next_base_fee_def demo_pipeline_def tx_sample_worker_def Let_def)
  then obtain a b where "fees_for (pl_sender demo_pipeline) demo_valid = Some (a, b)" by blast
  then show ?thesis
    by (simp add: sender_step_def build_and_send_def preflight_eth_call_def build_raw_tx_def submit_raw_tx_def
        demo_valid_def demo_signer_def demo_pipeline_def demo_idle_def tx_sample_defs Let_def)
qed

lemma demo_parts:
  "pl_market demo_pipeline = sample_market" "pl_last_synced_block demo_pipeline = 0"
  "pl_rate_cache demo_pipeline = Map.empty" "pl_simulators demo_pipeline = [sample_worker]"
  "sh_latest_block (pl_shared demo_pipeline) = 0" "sh_blacklisted_paths (pl_shared demo_pipeline) = {}"
  "sh_blacklisted_tokens (pl_shared demo_pipeline) = {7}"
  "lx_info demo_env = env_default_info silent_env" "lx_order demo_env = sample_order" "lx_search demo_env = sample_env"
  "lx_revm demo_env = sample_revm"
  by (simp_all add: demo_pipeline_def demo_env_def)

text \<open>The gas station stays the one of the examples.\<close>

lemma demo_gas:
  "sample_worker\<lparr>si_gas_station := mk_gas_station sample_market\<rparr> = sample_worker"
  "live_sender demo_pipeline (demo_live (sample_market\<lparr>mk_state_db := d\<rparr>) m_on latest es se arbs sim vs st st_on)
     = pl_sender demo_pipeline"
  by (simp_all add: sample_worker_def sample_market_def live_sender_def demo_live_def demo_pipeline_def
      tx_sample_worker_def)

lemma demo_starts:
  "live_start demo_pipeline = demo_live sample_market False 0 [] None [] None [] demo_idle False"
  "live_step demo_env demo_pipeline (Start_Market node head) (demo_live m False latest es se arbs sim vs st st_on)
     = Some (demo_live m True latest es se arbs sim vs st st_on)"
  "live_step demo_env demo_pipeline (Start_Searcher rpc []) (demo_live m m_on 0 es None arbs sim vs st st_on)
     = Some (demo_live m m_on 0 es (Some demo_loop) arbs sim vs st st_on)"
  "live_step demo_env demo_pipeline (Start_Simulator 0 None) (demo_live m m_on latest es se arbs None vs st st_on)
     = Some (demo_live m m_on latest es se arbs (Some (simulator_start None)) vs st st_on)"
  "live_step demo_env demo_pipeline (Start_Sender demo_signer (\<lambda>_. None) None)
       (demo_live m m_on latest es se arbs sim vs demo_idle False)
     = Some (demo_live m m_on latest es se arbs sim vs demo_idle True)"
proof -
  have same: "m\<lparr>mk_state_db := mk_state_db m\<rparr> = m" for m :: market_state by (cases m) simp
  show "live_step demo_env demo_pipeline (Start_Market node head) (demo_live m False latest es se arbs sim vs st st_on)
     = Some (demo_live m True latest es se arbs sim vs st st_on)"
    "live_step demo_env demo_pipeline (Start_Searcher rpc []) (demo_live m m_on 0 es None arbs sim vs st st_on)
     = Some (demo_live m m_on 0 es (Some demo_loop) arbs sim vs st st_on)"
    by (simp_all add: demo_live_def demo_loop_def catch_up_def seed_initial_rates_def demo_parts with_db_def live_db_def same)
qed (simp_all add: demo_live_def live_start_def demo_idle_def demo_parts sender_start_def seed_nonce_from_rpc_def
      demo_signer_def tx_sample_env_def)

lemma demo_turn:
  "\<exists>es' l. live_step demo_env demo_pipeline (Search 0 0 (\<lambda>_. state_db_new 9) (\<lambda>_. False))
       (demo_live m m_on 0 [\<lparr> pt_block_number = 9, pt_touched_pools = [1] \<rparr>] (Some demo_loop) [] sim vs st st_on)
     = Some (demo_live m m_on 9 es' (Some l) [demo_arb] sim vs st st_on)"
proof -
  obtain l where "searcher_turn sample_env (pl_searcher demo_pipeline)
      \<lparr> tu_recv = Some (\<lparr> pt_block_number = 9, pt_touched_pools = [1] \<rparr>, state_db_new 9), tu_pre = [], tu_post = [],
        tu_answers = (\<lambda>_. Send_Ok) \<rparr> demo_loop = Some (Continue l [demo_arb])" "sl_shared_latest l = 9"
    using demo_search [of "state_db_new 9"] unfolding demo_loop_def by blast
  then show ?thesis
    by (simp add: demo_live_def search_step_def turn_of_def demo_parts demo_loop_def Let_def)
qed

lemma demo_simulated:
  "\<exists>d latest lo. live_step demo_env demo_pipeline (Simulate 0 None)
      (demo_live (sample_market\<lparr>mk_state_db := db\<rparr>) m_on 9 es se [demo_arb] (Some (simulator_start None)) [] demo_idle st_on)
    = Some (demo_live (sample_market\<lparr>mk_state_db := d\<rparr>) m_on latest es se [] (Some lo) [demo_valid] demo_idle st_on)"
proof -
  obtain lo sh where "simulator_step sample_revm (en_math sample_env) sample_worker None demo_arb
     (simulator_start None, \<lparr> sh_latest_block = 9, sh_blacklisted_paths = {}, sh_blacklisted_tokens = {7},
                             sh_state_db = db \<rparr>) = Some ((lo, sh), Some demo_valid)"
    using demo_simulation by blast
  then show ?thesis
    by (intro exI [of _ "sh_state_db sh"] exI [of _ "sh_latest_block sh"] exI [of _ lo])
       (simp add: demo_live_def simulate_live_def demo_parts demo_gas live_shared_def live_db_def with_db_def demo_idle_def)
qed

lemma demo_sent:
  "live_step demo_env demo_pipeline (Send demo_signer None)
      (demo_live (sample_market\<lparr>mk_state_db := d\<rparr>) m_on latest es se arbs sim [demo_valid] demo_idle True)
    = Some (demo_live (sample_market\<lparr>mk_state_db := d\<rparr>) m_on latest es se arbs sim []
        (demo_idle\<lparr>ts_nonce := 1, ts_posted := [[0]]\<rparr>) True)"
  using demo_send by (simp add: send_live_def demo_live_def demo_gas(2) [unfolded demo_live_def])

text \<open>The eight steps: a block comes in, its swap makes the cycle profitable, one transaction is posted.\<close>

lemma demo_trades:
  "\<exists>lv. live_run demo_env demo_pipeline demo_actions (live_start demo_pipeline) = Some lv \<and>
     ts_posted (lv_sender lv) = [[0]]"
proof -
  obtain db where block: "market_step (env_default_info silent_env) sample_order sample_node (Event (NewBlock 9 1 0 0 1)) sample_market
     = (Some \<lparr> pt_block_number = 9, pt_touched_pools = [1] \<rparr>, sample_market\<lparr>mk_state_db := db\<rparr>)"
    using demo_market by blast
  let ?m = "sample_market\<lparr>mk_state_db := db\<rparr>"
  have announced: "live_step demo_env demo_pipeline (Block sample_node (Event (NewBlock 9 1 0 0 1)))
      (demo_live sample_market True latest [] se arbs sim vs st st_on)
      = Some (demo_live ?m True latest [\<lparr> pt_block_number = 9, pt_touched_pools = [1] \<rparr>] se arbs sim vs st st_on)"
    for latest se arbs sim vs st st_on
    by (simp add: demo_live_def demo_parts block)
  obtain es l where turn: "live_step demo_env demo_pipeline (Search 0 0 (\<lambda>_. state_db_new 9) (\<lambda>_. False))
      (demo_live ?m True 0 [\<lparr> pt_block_number = 9, pt_touched_pools = [1] \<rparr>] (Some demo_loop) []
        (Some (simulator_start None)) [] demo_idle True)
      = Some (demo_live ?m True 9 es (Some l) [demo_arb] (Some (simulator_start None)) [] demo_idle True)"
    using demo_turn by blast
  obtain d latest lo where sim: "live_step demo_env demo_pipeline (Simulate 0 None)
      (demo_live ?m True 9 es (Some l) [demo_arb] (Some (simulator_start None)) [] demo_idle True)
      = Some (demo_live (sample_market\<lparr>mk_state_db := d\<rparr>) True latest es (Some l) [] (Some lo) [demo_valid] demo_idle True)"
    using demo_simulated by blast
  show ?thesis
    unfolding demo_actions_def live_run.simps demo_starts announced turn sim demo_sent bind.bind_lunit
    by (simp add: demo_live_def)
qed

section \<open>Property\<close>



end
