(* ===== verification/Spec2Isabelle.thy ===== *)
theory Spec2Isabelle
  imports PathBuilder Searcher GasStation SimDbs CalcBalancer Simulator TxSender Mempool BlockStream MarketState PoolLoader
    Startup EvmQuotes LocalNode Logger LivePipeline
begin

text \<open>
  The arbitrage bot for the Base chain, \<open>src/src/\<close>, translated function by function. Paths below are
  relative to \<open>src/\<close> of that crate.

  The program. \<open>main\<close> reads the configuration, loads or crawls the pools, filters them, enumerates the
  arbitrage cycles through the start tokens and starts the pipeline. From then on workers exchange
  messages: the block streams publish new block numbers; the market state worker traces each block,
  writes the changed slots of tracked pools to the shared \<open>BlockStateDB\<close> and tells the searcher which
  pools were touched; the searcher updates the rates of those pools, ranks the affected paths and sends
  those above break-even; the simulator quotes each on a snapshot of the database, optimizes the input
  and deducts the flash loan fee and the gas; the sender checks the rest again, signs and posts. The
  mempool listener feeds the searcher with the pools of pending router calls.

  Conventions. Integers are words of their width; \<open>u64\<close>, \<open>usize\<close> and \<open>i32\<close> arithmetic wraps (release
  profile, no overflow checks), and so do \<open>+\<close>, \<open>-\<close>, \<open>*\<close> of \<open>U256\<close> and \<open>I256\<close>, whose division by 0 panics.
  A \<open>usize\<close> that only counts is a natural number. \<open>'a run\<close> is \<open>'a option\<close> with \<open>None\<close> for a panic; a Rust
  \<open>Option\<close> is an option inside it, a \<open>Result\<close> a sum. An \<open>f64\<close> is its 64 bits. State is passed and returned.
  Hash maps are maps; where the code walks one, or awaits concurrent answers, the order is an argument
  and the properties hold for every order. Code of other crates (REVM, the ABI codecs, keccak256,
  \<open>hex::decode\<close>, \<open>U256::from_str_radix\<close>, the \<open>uniswap_v3_math\<close> functions, petgraph's edge order, the
  hasher, \<open>rand\<close>, TOML, CSV, the signer, reth, HTTP, WebSockets) is a parameter. What a property needs of one is a
  named hypothesis: \<open>hex_decode_ok\<close> (a decoded text has two digits per byte), \<open>orders_ok\<close>,
  \<open>arrange_ok\<close>, \<open>shuffle_ok\<close> and \<open>workers_ok\<close> (an order or a partition loses and invents nothing),
  \<open>sort_desc_ok\<close> (sorting sorts). Their witnesses instantiate the parameters with concrete functions.
  Taking a lock succeeds: a worker that panicked while it held one is not modelled.

  Theories and sources.
  ArbPrelude: word types, the Rust arithmetic called by name, natural-number meanings of words.
  RpcText: bytes and hexadecimal text of RPC answers. SwapTypes: \<open>swap_types.rs\<close>.
  PoolTypes, PoolLoader: \<open>pool_loader.rs\<close> and \<open>PoolMeta\<close> of \<open>searcher_pipeline.rs\<close>.
  CalcV2, CalcAerodrome, CalcBalancer, CalcV3, Rates: \<open>calculation/\<close> of those names.
  EvmQuotes: \<open>calculation/curve.rs\<close>, \<open>calculation/maverick.rs\<close>.
  StateDb: \<open>state_db.rs\<close>. SimDbs: \<open>sim_db.rs\<close>. CacheV2: \<open>cache_v2.rs\<close>. GasStation: \<open>gas_station.rs\<close>.
  PipelineEvents: \<open>pipeline_events.rs\<close>. BlockStream: \<open>block_stream.rs\<close>. Tracing: \<open>tracing_revm.rs\<close>.
  MarketState: \<open>market_state.rs\<close>. Searcher: \<open>searcher_pipeline.rs\<close>. Quoter: \<open>quoter_revm.rs\<close>.
  Simulator: \<open>simulator_pipeline.rs\<close>. TxSender: \<open>tx_sender_pipeline.rs\<close>. Mempool: \<open>mempool.rs\<close>.
  PathBuilder: \<open>path_builder.rs\<close>. TokenFilter, SwapFilter: the two halves of \<open>filter_revm.rs\<close>.
  Config: \<open>config.rs\<close>. Ignition: \<open>ignition.rs\<close>. Startup: \<open>main.rs\<close> up to the pipeline. LivePipeline: the
  spawned workers of \<open>ignition.rs\<close> with their channels and shared state.
  LocalNode: \<open>history_db.rs\<close>, \<open>block_tracing.rs\<close>. Logger: \<open>utils.rs\<close>. The bindings of \<open>gen_alloy.rs\<close>
  appear as the parameter records that Quoter and TxSender fill.
  This theory: \<open>boot\<close>, which is \<open>main\<close> from the configuration file to the running pipeline.

  Correspondence. A struct is a record, an enum a datatype, each with the source's names; a method is a
  definition of its name, suffixed where two components share it. The loop of a worker is a step
  (\<open>searcher_turn\<close>, \<open>simulator_step\<close>, \<open>sender_step\<close>, the market state's block step) over its record and one answer of the outside,
  folded over a list of them; the gossip streams of all endpoints interleave as the relation
  \<open>gossip_step\<close>, cache operations in any order as \<open>reachable_cache\<close>. \<open>live_step\<close> runs one turn of one
  worker on the state they share, and \<open>live_reaches\<close> interleaves the turns of all workers in any order.

  Interfaces. \<open>swap_curve\<close>, extended by \<open>monotone_curve\<close> (theory SwapCurve): a quote pays no more than the
  constant-product curve, so it stays below the reserve, keeps the product and gains nothing there and
  back; interpreted by the V2, volatile Aerodrome and equal-weight Balancer formulas. \<open>slot_cache\<close>,
  extended by \<open>total_slot_cache\<close> (theory SlotCache): a read answers from the cache or fills it, so reads
  repeat under any endpoint; interpreted by \<open>BlockStateDB\<close> and the simulation database. \<open>block_cache\<close>
  (theory BlockCache): entries answer only for their block; interpreted by both caches of
  \<open>cache_v2.rs\<close>.

  What is shown. Arithmetic: the natural-number meaning of each formula where nothing wraps, the
  precise range of that, the invariants of the curves, the inverse within one unit, and the one input on
  which the integer square root panics. Databases and caches: diffs, prefetches and write-backs change
  the named slots only, and invalidation removes the named pools only. Paths: the cycles found are
  simple, complete below the cap, and bounded above it. Workers: a turn publishes nothing stale, passes
  on nothing blacklisted or below the minimum profit, accounts for every unit of the output, posts at
  most one transaction per path with rising nonces, and blacklists only for enough strikes. Text and
  files: calldata, CSV, the filter cache and the address placeholders, with the inputs that panic or
  lose information. Startup: what passes the filters, and that the pipeline comes up for any node.
  \<open>trades_vetted\<close> is the invariant of the interleaved workers, by rule induction over \<open>live_reaches\<close>, with a
  run that posts a transaction; \<open>boot_sound\<close> says what the startup leaves to the workers, and
  \<open>boot_trades_clean\<close> joins the two: from the configuration file to every transaction ever posted.

  Bounds. The integer square root, the exponential and the path search are total functions with a
  measure. \<open>ln\<close> of Balancer and the crawl of a factory are recursive without a bound in the source, so
  their \<open>None\<close> also means not ending; \<open>balancer_quote_bounded\<close> shows that the first is never reached with an
  argument on which it diverges, \<open>crawl_finds_every_block\<close> that the second ends for a positive chunk
  size. All other loops have the bound of the code (255 Newton steps in Aerodrome, 500 ticks in V3, the attempts per
  request, the steps of the optimizer) or end with the list they consume; there is no other fuel.

  Not modelled. \<open>estimate_l1_data_fee\<close> (a product of floating point numbers; nothing calls it),
  module declarations, \<open>abi/mod.rs\<close> (JSON into types of another crate, in no module), the \<open>sol!\<close>
  declarations, Solidity contracts and scripts, tests and benchmarks, log output and its counters, tasks
  and channels as objects (a channel is the list of what is received; only the check of its capacity
  remains), the HTTP warm-up ping, and the file of flash loan fees, which nothing reads back. The
  interleaving of LivePipeline is that of whole turns: a block that is applied in the middle of a
  simulation is not modelled, nor is the end of the program, when channels close one after the other.
\<close>

section \<open>From the configuration file to the running pipeline\<close>

datatype boot_error = Bad_Config config_error | Bad_Filter filter_error

text \<open>
  \<open>main\<close> as a whole: the outer option is a panic, \<open>Inl\<close> an error that ends the program, and \<open>Inr\<close> the
  pipeline with the endpoints whose blocks it is fed.
\<close>

definition boot ::
    "config_env \<Rightarrow> startup_env \<Rightarrow> ignition_env \<Rightarrow> (boot_error + pipeline \<times> string list) run" where
  "boot ce su ig =
    (case config_load ce of
       Inl e \<Rightarrow> Some (Inl (Bad_Config e))
     | Inr cfg \<Rightarrow> do {
         result \<leftarrow> startup su cfg;
         case result of
           Inl e \<Rightarrow> Some (Inl (Bad_Filter e))
         | Inr r \<Rightarrow>
             map_option (\<lambda>p. Inr (p, sr_ws_urls r))
               (start_pipeline ig (sr_config r) (sr_paths r) (sr_metas r) (sr_pools r))
       })"

lemma start_pipeline_parts:
  assumes "start_pipeline ig c paths metas pools = Some p"
    and "hex_decode_ok (env_hex_decode (ig_chain ig))" "orders_ok ig"
  shows "sw_all_paths (pl_searcher p) = paths"
    and "db_tracked_pools (mk_state_db (pl_market p)) = fst ` set pools"
    and "a \<in> fst ` set pools \<Longrightarrow> s \<in> V3_SLOTS \<Longrightarrow> slot_of (mk_state_db (pl_market p)) a s \<noteq> None"
    and "w \<in> set (pl_simulators p) \<Longrightarrow>
      sc_flash_loan_fee_bps (si_config w) = (if pc_use_flashloan c then pc_flash_loan_fee_bps c else 0)"
    and "tw_config (pl_sender p) = tx_sender_config_of c"
proof -
  obtain code where quoter: "make_quoter ig = Some (quoter_with_bytecode code)"
    using assms(1) by (auto simp: start_pipeline_def make_quoter_def Let_def split: bind_splits)
  obtain db where db: "prepare_database ig (quoter_with_bytecode code) metas pools = Some db"
    "db_tracked_pools db = fst ` set pools"
    "\<forall>a \<in> fst ` set pools. \<forall>s \<in> V3_SLOTS. slot_of db a s \<noteq> None"
    using prepare_database_spec [OF assms(2,3)] by blast
  note p = assms(1) [unfolded start_pipeline_def Let_def quoter db(1) bind.bind_lunit]
  have market: "mk_state_db (pl_market p) = db" using p by (auto split: if_splits)
  show "sw_all_paths (pl_searcher p) = paths"
    using p by (auto simp: register_pool_meta_def register_paths_def split: if_splits)
  show "db_tracked_pools (mk_state_db (pl_market p)) = fst ` set pools"
    by (simp only: market db(2))
  show "slot_of (mk_state_db (pl_market p)) a s \<noteq> None" if "a \<in> fst ` set pools" "s \<in> V3_SLOTS"
    unfolding market by (rule bspec [OF bspec [OF db(3) that(1)] that(2)])
  show "sc_flash_loan_fee_bps (si_config w) = (if pc_use_flashloan c then pc_flash_loan_fee_bps c else 0)"
    if "w \<in> set (pl_simulators p)"
    using p that by (auto simp: simulator_config_of_def split: if_splits)
  show "tw_config (pl_sender p) = tx_sender_config_of c"
    using p by (auto split: if_splits)
qed

lemma select_flashloan_off: "\<not> ex_use_flashloan ex \<Longrightarrow> snd (select_flashloan ex) = 0"
  by (simp add: select_flashloan_def)

lemma startup_config:
  assumes "startup su cfg = Some (Inr r)"
  obtains live where "sr_config r = (pipeline_config_of su cfg)\<lparr>pc_live_base_fee_wei := live\<rparr>"
  using assms by (auto simp: startup_def Let_def split: bind_splits sum.splits)

lemma boot_facts:
  assumes "boot ce su ig = Some (Inr (p, urls))" "config_load ce = Inr cfg"
    and "workers_ok (su_filter su)" "arrange_ok (su_arrange su)"
    and "hex_decode_ok (env_hex_decode (ig_chain ig))" "orders_ok ig"
  shows "\<exists>pools. mset pools \<subseteq># mset (case su_load_pools su (cache_dir_of cfg) of Some ps \<Rightarrow> ps | None \<Rightarrow> []) \<and>
    db_tracked_pools (mk_state_db (pl_market p)) = rp_address ` set pools \<and>
    (\<forall>a \<in> rp_address ` set pools. \<forall>s \<in> V3_SLOTS. slot_of (mk_state_db (pl_market p)) a s \<noteq> None) \<and>
    (\<forall>path \<in> set (sw_all_paths (pl_searcher p)).
       (\<exists>start \<in> set (start_tokens_of su cfg). \<exists>hs.
          path = swap_path_new (su_hasher su) (map (swap_step_of_hop pools) hs) \<and> simple_cycle pools start hs \<and>
          distinct (hop_pools hs) \<and> 3 \<le> length hs \<and> length hs \<le> ex_max_hops (cfg_execution cfg) + 1) \<and>
       (\<forall>s \<in> set (path_steps path). st_pool_address s \<in> rp_address ` set pools \<and>
          st_token_in s \<notin> blacklist_of su cfg \<and> st_token_out s \<notin> blacklist_of su cfg)) \<and>
    (\<forall>w \<in> set (pl_simulators p).
       sc_flash_loan_fee_bps (si_config w) = snd (select_flashloan (cfg_execution cfg))) \<and>
    tc_flash_loan_provider (tw_config (pl_sender p)) =
      flash_loan_selector (fst (select_flashloan (cfg_execution cfg))) \<and>
    (su_var su ''DRY_RUN'' = None \<longrightarrow> tc_dry_run (tw_config (pl_sender p)))"
proof -
  obtain r where r: "startup su cfg = Some (Inr r)"
    and start: "start_pipeline ig (sr_config r) (sr_paths r) (sr_metas r) (sr_pools r) = Some p"
    using assms(1,2) by (auto simp: boot_def split: bind_splits sum.splits)
  obtain live where c: "sr_config r = (pipeline_config_of su cfg)\<lparr>pc_live_base_fee_wei := live\<rparr>"
    using startup_config [OF r] .
  note parts = start_pipeline_parts [OF start assms(5,6)]
  from startup_paths_clean [OF r assms(3,4)] obtain pools where
    sub: "mset pools \<subseteq># mset (case su_load_pools su (cache_dir_of cfg) of Some ps \<Rightarrow> ps | None \<Rightarrow> [])"
    and vec: "sr_pools r = raw_to_pools_vec pools"
    and paths: "\<forall>path \<in> set (sr_paths r).
       (\<exists>start \<in> set (start_tokens_of su cfg). \<exists>hs.
          path = swap_path_new (su_hasher su) (map (swap_step_of_hop pools) hs) \<and> simple_cycle pools start hs \<and>
          distinct (hop_pools hs) \<and> 3 \<le> length hs \<and> length hs \<le> ex_max_hops (cfg_execution cfg) + 1) \<and>
       (\<forall>s \<in> set (path_steps path). st_pool_address s \<in> fst ` set (sr_pools r) \<and>
          st_token_in s \<notin> blacklist_of su cfg \<and> st_token_out s \<notin> blacklist_of su cfg)"
    by blast
  have addrs: "fst ` set (sr_pools r) = rp_address ` set pools"
    by (auto simp: vec raw_to_pools_vec_def image_image)
  have fee: "sc_flash_loan_fee_bps (si_config w) = snd (select_flashloan (cfg_execution cfg))"
    if "w \<in> set (pl_simulators p)" for w
    using parts(4) [OF that] select_flashloan_off [of "cfg_execution cfg"]
    by (simp add: c pipeline_config_of_def Let_def split: prod.splits if_splits)
  have sender: "tc_flash_loan_provider (tw_config (pl_sender p)) =
      flash_loan_selector (fst (select_flashloan (cfg_execution cfg)))"
    "su_var su ''DRY_RUN'' = None \<longrightarrow> tc_dry_run (tw_config (pl_sender p))"
    by (simp_all add: parts(5) c tx_sender_config_of_def pipeline_config_of_def Let_def split: prod.split)
  show ?thesis
    using sub parts(1-3) paths fee sender unfolding addrs by (intro exI [of _ pools] conjI ballI) simp_all
qed


text \<open>A posted transaction of the program: what the startup and the workers together say of its path.\<close>

definition trade_clean ::
    "startup_env \<Rightarrow> config \<Rightarrow> pipeline \<Rightarrow> raw_pool list \<Rightarrow> u8 list \<Rightarrow> bool" where
  "trade_clean su cfg p pools raw \<longleftrightarrow> (\<exists>env w v n tx.
       tw_config w = tw_config (pl_sender p) \<and> signed_for env w v n tx raw \<and>
       (\<exists>start \<in> set (start_tokens_of su cfg). \<exists>hs.
          ap_path (vp_arb v) = swap_path_new (su_hasher su) (map (swap_step_of_hop pools) hs) \<and>
          simple_cycle pools start hs \<and> distinct (hop_pools hs)) \<and>
       (\<forall>s \<in> set (path_steps (ap_path (vp_arb v))).
          st_token_in s \<notin> blacklist_of su cfg \<union> sh_blacklisted_tokens (pl_shared p) \<and>
          st_token_out s \<notin> blacklist_of su cfg \<union> sh_blacklisted_tokens (pl_shared p)) \<and>
       vp_amount_in v < vp_amount_out v \<and>
       (\<exists>c. sc_flash_loan_fee_bps c = snd (select_flashloan (cfg_execution cfg)) \<and>
          flash_fee_of c (vp_amount_in v) < vp_amount_out v - vp_amount_in v))"

lemma trade_cleanI:
  assumes "trade_ok p raw"
    and paths: "\<forall>path \<in> set (sw_all_paths (pl_searcher p)).
       (\<exists>start \<in> set (start_tokens_of su cfg). \<exists>hs.
          path = swap_path_new (su_hasher su) (map (swap_step_of_hop pools) hs) \<and> simple_cycle pools start hs \<and>
          distinct (hop_pools hs) \<and> 3 \<le> length hs \<and> length hs \<le> ex_max_hops (cfg_execution cfg) + 1) \<and>
       (\<forall>s \<in> set (path_steps path). st_pool_address s \<in> rp_address ` set pools \<and>
          st_token_in s \<notin> blacklist_of su cfg \<and> st_token_out s \<notin> blacklist_of su cfg)"
    and fee: "\<forall>w \<in> set (pl_simulators p).
       sc_flash_loan_fee_bps (si_config w) = snd (select_flashloan (cfg_execution cfg))"
  shows "trade_clean su cfg p pools raw"
proof -
  obtain env w v n tx where t: "tw_config w = tw_config (pl_sender p)" "signed_for env w v n tx raw" "vetted p v"
    using assms(1) unfolding trade_ok_def by blast
  have listed: "ap_path (vp_arb v) \<in> set (sw_all_paths (pl_searcher p))" using t(3) by (simp add: vetted_def)
  have loan: "\<exists>c. sc_flash_loan_fee_bps c = snd (select_flashloan (cfg_execution cfg)) \<and>
          flash_fee_of c (vp_amount_in v) < vp_amount_out v - vp_amount_in v"
    using t(3) fee unfolding vetted_def by blast
  have cycle: "\<exists>start \<in> set (start_tokens_of su cfg). \<exists>hs.
          ap_path (vp_arb v) = swap_path_new (su_hasher su) (map (swap_step_of_hop pools) hs) \<and>
          simple_cycle pools start hs \<and> distinct (hop_pools hs)"
    using bspec [OF paths listed] by blast
  have clean: "\<forall>s \<in> set (path_steps (ap_path (vp_arb v))).
          st_token_in s \<notin> blacklist_of su cfg \<union> sh_blacklisted_tokens (pl_shared p) \<and>
          st_token_out s \<notin> blacklist_of su cfg \<union> sh_blacklisted_tokens (pl_shared p)"
    using bspec [OF paths listed] t(3) unfolding vetted_def by blast
  have "vp_amount_in v < vp_amount_out v" using t(3) by (simp add: vetted_def)
  then show ?thesis unfolding trade_clean_def using t(1,2) cycle clean loan by blast
qed


definition sample_files :: config_env where
  "sample_files = \<lparr> ce_var = (\<lambda>_. None), ce_read = (\<lambda>_. Inr ''''), ce_toml_address_file = (\<lambda>_. Inr None),
     ce_toml_addresses = (\<lambda>_. Inr []), ce_toml_config = (\<lambda>_. Inr sample_settings) \<rparr>"

lemma sample_config_loads: "config_load sample_files = Inr sample_settings"
  by (simp add: config_load_def sample_files_def apply_address_file_substitutions_def override_urls_def Let_def)

lemma sample_workers_ok: "workers_ok (su_filter sample_startup)" "arrange_ok (su_arrange sample_startup)"
  by (simp_all add: sample_startup_def workers_ok_def sample_run_def arrange_ok_def)

lemma sample_boots: "\<exists>p urls. boot sample_files sample_startup sample_ignition = Some (Inr (p, urls))"
proof -
  obtain r where r: "startup sample_startup sample_settings = Some (Inr r)"
    using sample_started
    by (cases "startup sample_startup sample_settings"; cases "the (startup sample_startup sample_settings)") auto
  obtain live where c: "sr_config r = (pipeline_config_of sample_startup sample_settings)\<lparr>pc_live_base_fee_wei := live\<rparr>"
    using startup_config [OF r] .
  have "capacities_ok (sr_config r)"
    by (simp add: c capacities_ok_def pipeline_config_of_def sample_settings_def execution_config_default_def Let_def
        split: prod.split)
  then obtain p where "start_pipeline sample_ignition (sr_config r) (sr_paths r) (sr_metas r) (sr_pools r) = Some p"
    using sample_pipeline_starts by blast
  then show ?thesis by (simp add: boot_def sample_config_loads r)
qed



end
